(* ===== verification/Prelude.thy ===== *)
theory Prelude
  imports Main "HOL-Library.Word" "HOL-Library.Multiset" "HOL-Library.Monad_Syntax"
begin

unbundle bit_operations_syntax

text \<open>
  Shared vocabulary of the development: the widths of Go's integers, positional numerals
  (the reference meaning of every number parser and printer of the program), little-endian
  limbs, prefixes and suffixes of strings, and two interfaces that several components
  implement: a text codec (printer and parser of one type) and a transition system with an
  invariant.

  Go values are modelled at the width the program has on a 64-bit target: \<open>byte\<close> is an
  8-bit word, \<open>uint64\<close>, \<open>uint\<close> and \<open>big.Word\<close> are 64-bit words, \<open>big.Int\<close> is
  \<open>int\<close>. A Go string or a byte slice that holds text is a \<open>string\<close> (a list of 8-bit
  characters, indexed by bytes as in Go); a byte slice that holds data is a list of bytes.
\<close>

section \<open>Types of the target language\<close>

type_synonym byte = "8 word"
type_synonym u64 = "64 word"
type_synonym bigint = int

named_theorems numeral_simps \<open>facts on positional numerals\<close>
named_theorems codec_simps \<open>evaluation of printers and parsers\<close>

section \<open>Machine words\<close>

lemma unat_u64_less: "unat (x :: u64) < 2 ^ 64"
  using unsigned_less[of x, where 'a = nat] by simp

lemma unat_u64_le: "unat (x :: u64) \<le> 18446744073709551615"
  using unat_u64_less[of x] by simp

lemma unat_u64_max: "unat (- 1 :: u64) = 18446744073709551615"
proof -
  have "(- 1 :: u64) = 18446744073709551615" by simp
  then show ?thesis by (simp only: unat_numeral) simp
qed

lemma unat_byte_less: "unat (x :: byte) < 256"
  using unsigned_less[of x, where 'a = nat] by simp

lemma unat_of_nat_u64: "n < 2 ^ 64 \<Longrightarrow> unat (of_nat n :: u64) = n"
  by (simp add: unat_of_nat)

lemma unat_of_nat_byte: "n < 256 \<Longrightarrow> unat (of_nat n :: byte) = n"
  by (simp add: unat_of_nat)

lemma unat_drop_bit: "unat (drop_bit k w) = unat w div 2 ^ k"
proof -
  have "unat (drop_bit k w) = drop_bit k (unat w)"
    by (simp add: unsigned_drop_bit_eq take_bit_nat_eq_self)
  then show ?thesis by (simp only: drop_bit_eq_div)
qed

lemma byte_nibbles: "push_bit 4 (drop_bit 4 v) OR (v AND 15) = (v :: byte)"
proof -
  have "v AND 15 = take_bit 4 v" by (simp add: take_bit_eq_mask mask_eq_exp_minus_1)
  moreover have "push_bit 4 (drop_bit 4 v) OR take_bit 4 v = v"
    by (rule bit_eqI) (auto simp: bit_simps)
  ultimately show ?thesis by simp
qed

lemma nibble_bounds: "unat (drop_bit 4 (v :: byte)) < 16" "unat (v AND (15 :: byte)) < 16"
proof -
  show "unat (drop_bit 4 v) < 16"
    using unat_byte_less[of v] by (simp add: drop_bit_eq_div unat_div_distrib)
  have "v AND 15 \<le> 15" by (rule word_and_le1)
  then show "unat (v AND (15 :: byte)) < 16" by (simp add: word_le_nat_alt)
qed

section \<open>Positional numerals\<close>

text \<open>The value of a big-endian digit list, and the digits of a number without leading zeros.\<close>

definition horner :: "nat \<Rightarrow> nat list \<Rightarrow> nat" where
  "horner b ds = foldl (\<lambda>a d. a * b + d) 0 ds"

fun digits :: "nat \<Rightarrow> nat \<Rightarrow> nat list" where
  "digits b n = (if n < b \<or> b \<le> 1 then [n] else digits b (n div b) @ [n mod b])"

declare digits.simps [simp del]

lemma horner_acc: "foldl (\<lambda>a d. a * b + d) a ds = a * b ^ length ds + horner b ds"
  unfolding horner_def
proof (induction ds arbitrary: a)
  case Nil
  then show ?case by simp
next
  case (Cons d ds)
  show ?case
    using Cons.IH[of "a * b + d"] Cons.IH[of d] by (simp add: algebra_simps)
qed

lemma horner_Nil [simp, numeral_simps]: "horner b [] = 0"
  by (simp add: horner_def)

lemma horner_Cons [simp, numeral_simps]: "horner b (d # ds) = d * b ^ length ds + horner b ds"
  using horner_acc[of b d ds] by (simp add: horner_def)

lemma horner_append [numeral_simps]:
  "horner b (xs @ ys) = horner b xs * b ^ length ys + horner b ys"
  by (induction xs) (simp_all add: power_add algebra_simps)

lemma horner_snoc [simp, numeral_simps]: "horner b (ds @ [d]) = horner b ds * b + d"
  by (simp add: horner_append)

lemma horner_less:
  assumes "\<forall>d \<in> set ds. d < b"
  shows "horner b ds < b ^ length ds"
  using assms
proof (induction ds)
  case Nil
  then show ?case by simp
next
  case (Cons d ds)
  then have "horner b ds < b ^ length ds" by simp
  moreover have "Suc d * b ^ length ds \<le> b * b ^ length ds"
    using Cons.prems by (intro mult_right_mono) auto
  ultimately show ?case by simp
qed

lemma horner_zeros [simp]: "horner b (replicate n 0 @ ds) = horner b ds"
  by (induction n) simp_all

lemma digits_small: "n < b \<Longrightarrow> digits b n = [n]"
  by (subst digits.simps) simp

lemma digits_step: "1 < b \<Longrightarrow> b \<le> n \<Longrightarrow> digits b n = digits b (n div b) @ [n mod b]"
  by (subst digits.simps) simp

lemma digits_not_Nil [simp]: "digits b n \<noteq> []"
  by (subst digits.simps) simp

lemma horner_digits [simp, numeral_simps]:
  assumes "1 < b"
  shows "horner b (digits b n) = n"
  using assms
proof (induction b n rule: digits.induct)
  case (1 b n)
  show ?case
  proof (cases "n < b")
    case True
    then show ?thesis by (simp add: digits_small)
  next
    case False
    with 1 have "horner b (digits b (n div b)) = n div b" by auto
    with 1(2) False show ?thesis by (simp add: digits_step[of b n])
  qed
qed

lemma digits_bound:
  assumes "1 < b"
  shows "\<forall>d \<in> set (digits b n). d < b"
  using assms
proof (induction b n rule: digits.induct)
  case (1 b n)
  show ?case
  proof (cases "n < b")
    case True
    then show ?thesis by (simp add: digits_small)
  next
    case False
    with 1 have "\<forall>d \<in> set (digits b (n div b)). d < b" by auto
    with 1(2) False show ?thesis by (auto simp: digits_step[of b n])
  qed
qed

lemma hd_digits_pos:
  assumes "1 < b" and "0 < n"
  shows "0 < hd (digits b n)"
  using assms
proof (induction b n rule: digits.induct)
  case (1 b n)
  show ?case
  proof (cases "n < b")
    case True
    with 1(3) show ?thesis by (simp add: digits_small)
  next
    case False
    with 1 have "0 < hd (digits b (n div b))" by (auto simp: div_greater_zero_iff)
    with 1(2) False show ?thesis by (simp add: digits_step[of b n])
  qed
qed

lemma length_digits_le_iff:
  assumes "1 < b" and "0 < k"
  shows "length (digits b n) \<le> k \<longleftrightarrow> n < b ^ k"
proof
  assume le: "length (digits b n) \<le> k"
  have "n < b ^ length (digits b n)"
    using horner_less[OF digits_bound[OF assms(1)], of n] assms(1) by simp
  also have "\<dots> \<le> b ^ k" using le assms(1) by (simp add: power_increasing)
  finally show "n < b ^ k" .
next
  show "n < b ^ k \<Longrightarrow> length (digits b n) \<le> k"
    using assms(2)
  proof (induction k arbitrary: n)
    case (Suc k)
    show ?case
    proof (cases "n < b")
      case False
      with assms(1) Suc.prems(1) have "0 < k" by (cases k) auto
      moreover have "n div b < b ^ k"
        using Suc.prems(1) assms(1) by (simp add: less_mult_imp_div_less mult.commute)
      ultimately show ?thesis using Suc.IH False assms(1) by (simp add: digits_step[of b n])
    qed (simp add: digits_small)
  qed simp
qed

lemma horner_eq_iff:
  assumes "length xs = length ys" and "\<forall>d \<in> set xs. d < b" and "\<forall>d \<in> set ys. d < b"
  shows "horner b xs = horner b ys \<longleftrightarrow> xs = ys"
  using assms
proof (induction xs ys rule: list_induct2)
  case (Cons x xs y ys)
  let ?m = "b ^ length ys"
  have "0 < b" using Cons.prems by auto
  have less: "horner b xs < ?m" "horner b ys < ?m"
    using horner_less[of xs b] horner_less[of ys b] Cons by auto
  have "x = y" if eq: "x * ?m + horner b xs = y * ?m + horner b ys"
  proof -
    from less \<open>0 < b\<close> have "(x * ?m + horner b xs) div ?m = x" "(y * ?m + horner b ys) div ?m = y"
      by simp_all
    with eq show ?thesis by metis
  qed
  with Cons show ?case by auto
qed simp

section \<open>Fixed-width numerals\<close>

text \<open>The low \<open>k\<close> digits of a number, most significant first.\<close>

fun low_digits :: "nat \<Rightarrow> nat \<Rightarrow> nat \<Rightarrow> nat list" where
  "low_digits b 0 n = []"
| "low_digits b (Suc k) n = low_digits b k (n div b) @ [n mod b]"

lemma length_low_digits [simp]: "length (low_digits b k n) = k"
  by (induction k arbitrary: n) simp_all

lemma horner_low_digits [numeral_simps]: "horner b (low_digits b k n) = n mod b ^ k"
proof (induction k arbitrary: n)
  case (Suc k)
  have "n mod (b * b ^ k) = b * (n div b mod b ^ k) + n mod b"
    by (rule mod_mult2_eq)
  with Suc show ?case by (simp add: mult.commute)
qed simp

lemma low_digits_less: "0 < b \<Longrightarrow> \<forall>d \<in> set (low_digits b k n). d < b"
  by (induction k arbitrary: n) auto

lemma low_digits_nth: "i < k \<Longrightarrow> low_digits b k n ! i = n div b ^ (k - 1 - i) mod b"
proof (induction k arbitrary: n)
  case (Suc k)
  show ?case
  proof (cases "i < k")
    case True
    then have "Suc k - 1 - i = Suc (k - 1 - i)" by simp
    with True Suc.IH show ?thesis by (simp add: nth_append div_mult2_eq)
  next
    case False
    with Suc.prems have "i = k" by simp
    then show ?thesis by (simp add: nth_append)
  qed
qed simp

lemma low_digits_horner:
  "\<forall>d \<in> set ds. d < b \<Longrightarrow> low_digits b (length ds) (horner b ds) = ds"
proof (induction ds rule: rev_induct)
  case (snoc d ds)
  then have "0 < b" by auto
  with snoc show ?case by simp
qed simp

lemma low_digits_add: "low_digits b (j + k) n = low_digits b j (n div b ^ k) @ low_digits b k n"
proof (induction k arbitrary: n)
  case (Suc k)
  have "n div (b * b ^ k) = n div b div b ^ k" by (simp add: div_mult2_eq)
  with Suc show ?case by simp
qed simp

lemma low_digits_cong:
  assumes "0 < b" and "n mod b ^ k = n' mod b ^ k"
  shows "low_digits b k n = low_digits b k n'"
proof -
  have "horner b (low_digits b k n) = horner b (low_digits b k n')"
    using assms(2) by (simp add: horner_low_digits)
  then show ?thesis by (subst (asm) horner_eq_iff) (simp_all add: low_digits_less assms(1))
qed

section \<open>Interfaces shared by the components\<close>

text \<open>
  A printer and a parser of one type: on the values in its domain the parser undoes the
  printer. Every marshaller of the program is an instance.
\<close>

locale text_codec =
  fixes enc :: "'a \<Rightarrow> string"
    and dec :: "string \<Rightarrow> 'e + 'a"
    and valid :: "'a \<Rightarrow> bool"
  assumes dec_enc: "valid a \<Longrightarrow> dec (enc a) = Inr a"
begin

lemma enc_eq_iff: "valid a \<Longrightarrow> valid b \<Longrightarrow> enc a = enc b \<longleftrightarrow> a = b"
  using dec_enc[of a] dec_enc[of b] by (metis sum.inject(2))

lemma enc_inj_on: "inj_on enc {a. valid a}"
  unfolding inj_on_def using enc_eq_iff by blast

lemma dec_onto: "valid a \<Longrightarrow> \<exists>s. dec s = Inr a"
  using dec_enc by blast

end

text \<open>
  A component whose operations are steps on a state, with an invariant that the initial
  states have and every step keeps: every reachable state has it.
\<close>

locale transition_system =
  fixes init :: "'s \<Rightarrow> bool"
    and step :: "'s \<Rightarrow> 's \<Rightarrow> bool"
    and inv :: "'s \<Rightarrow> bool"
  assumes init_inv: "init s \<Longrightarrow> inv s"
    and step_inv: "inv s \<Longrightarrow> step s t \<Longrightarrow> inv t"
begin

lemma steps_inv: "step\<^sup>*\<^sup>* s t \<Longrightarrow> inv s \<Longrightarrow> inv t"
  by (induction rule: rtranclp_induct) (auto intro: step_inv)

lemma reachable_inv: "init s \<Longrightarrow> step\<^sup>*\<^sup>* s t \<Longrightarrow> inv t"
  by (rule steps_inv) (auto intro: init_inv)

end

end
