(* ===== verification/Go_Std.thy ===== *)
theory Go_Std
  imports Prelude
begin

text \<open>
  The part of Go's standard library that the program calls: \<open>encoding/hex\<close>,
  \<open>strconv.ParseUint\<close> and \<open>strconv.AppendUint\<close>, the functions of \<open>strings\<close>, and the
  \<open>math/big\<close> operations that expose an integer's machine words. These definitions model
  the library, not files under src/, so they are outside the source map; the
  lemmas relate each of them to the positional numerals of the prelude.
\<close>

section \<open>strings\<close>

definition HasPrefix :: "string \<Rightarrow> string \<Rightarrow> bool" where
  "HasPrefix s p \<longleftrightarrow> take (length p) s = p"

definition HasSuffix :: "string \<Rightarrow> string \<Rightarrow> bool" where
  "HasSuffix s p \<longleftrightarrow> length p \<le> length s \<and> drop (length s - length p) s = p"

definition TrimSuffix :: "string \<Rightarrow> string \<Rightarrow> string" where
  "TrimSuffix s p = (if HasSuffix s p then take (length s - length p) s else s)"

text \<open>\<open>strings.Split\<close> with a separator of one byte, the only form the program uses.\<close>

fun Split :: "string \<Rightarrow> char \<Rightarrow> string list" where
  "Split [] sep = [[]]"
| "Split (c # cs) sep =
     (if c = sep then [] # Split cs sep
      else (case Split cs sep of [] \<Rightarrow> [[c]] | w # ws \<Rightarrow> (c # w) # ws))"

fun Join :: "string list \<Rightarrow> char \<Rightarrow> string" where
  "Join [] sep = []"
| "Join [w] sep = w"
| "Join (w # ws) sep = w @ sep # Join ws sep"

lemma HasPrefix_append [simp]: "HasPrefix (p @ s) p"
  by (simp add: HasPrefix_def)

lemma HasSuffix_append [simp]: "HasSuffix (s @ p) p"
  by (simp add: HasSuffix_def)

lemma HasSuffix_iff: "HasSuffix s p \<longleftrightarrow> (\<exists>r. s = r @ p)"
  unfolding HasSuffix_def by (metis append_take_drop_id HasSuffix_append HasSuffix_def)

lemma HasPrefix_iff: "HasPrefix s p \<longleftrightarrow> (\<exists>r. s = p @ r)"
  unfolding HasPrefix_def by (metis append_take_drop_id append_eq_conv_conj)

lemma TrimSuffix_append [simp]: "TrimSuffix (s @ p) p = s"
  by (simp add: TrimSuffix_def)

lemma Split_not_Nil [simp]: "Split s sep \<noteq> []"
  by (induction s) (auto split: list.splits)

lemma Split_no_sep: "sep \<notin> set s \<Longrightarrow> Split s sep = [s]"
  by (induction s) auto

lemma Split_append_sep: "sep \<notin> set w \<Longrightarrow> Split (w @ sep # s) sep = w # Split s sep"
  by (induction w) auto

lemma Split_Join:
  "ws \<noteq> [] \<Longrightarrow> \<forall>w \<in> set ws. sep \<notin> set w \<Longrightarrow> Split (Join ws sep) sep = ws"
  by (induction ws sep rule: Join.induct) (auto simp: Split_no_sep Split_append_sep)

lemma Join_Split: "Join (Split s sep) sep = s"
proof (induction s)
  case (Cons c cs)
  obtain w ws where "Split cs sep = w # ws" by (cases "Split cs sep") auto
  with Cons show ?case by (cases ws) auto
qed simp

lemma Split_parts: "w \<in> set (Split s sep) \<Longrightarrow> sep \<notin> set w"
proof (induction s arbitrary: w)
  case (Cons c cs)
  obtain v vs where "Split cs sep = v # vs" by (cases "Split cs sep") auto
  with Cons show ?case by (auto split: if_splits)
qed simp

section \<open>encoding/hex\<close>

datatype hex_error = InvalidByteError char | ErrLength

definition hextable :: string where
  "hextable = ''0123456789abcdef''"

fun hex_Encode :: "byte list \<Rightarrow> string" where
  "hex_Encode [] = []"
| "hex_Encode (v # vs) =
     hextable ! unat (drop_bit 4 v) # hextable ! unat (v AND 15) # hex_Encode vs"

definition fromHexChar :: "char \<Rightarrow> byte option" where
  "fromHexChar c =
     (let n = of_char c :: nat in
      if 48 \<le> n \<and> n \<le> 57 then Some (of_nat (n - 48))
      else if 97 \<le> n \<and> n \<le> 102 then Some (of_nat (n - 97 + 10))
      else if 65 \<le> n \<and> n \<le> 70 then Some (of_nat (n - 65 + 10))
      else None)"

text \<open>
  \<open>hex.Decode\<close>: the bytes written before the first error, and the error. With an odd
  number of characters the last one is examined before the length is reported.
\<close>

fun hex_Decode :: "string \<Rightarrow> byte list \<times> hex_error option" where
  "hex_Decode [] = ([], None)"
| "hex_Decode [p] =
     (case fromHexChar p of None \<Rightarrow> ([], Some (InvalidByteError p)) | Some _ \<Rightarrow> ([], Some ErrLength))"
| "hex_Decode (p # q # src) =
     (case fromHexChar p of
        None \<Rightarrow> ([], Some (InvalidByteError p))
      | Some a \<Rightarrow>
          (case fromHexChar q of
             None \<Rightarrow> ([], Some (InvalidByteError q))
           | Some b \<Rightarrow>
               (let (bs, err) = hex_Decode src in ((push_bit 4 a OR b) # bs, err))))"

section \<open>strconv\<close>

datatype num_error = ErrRange | ErrSyntaxNum

definition digits36 :: string where
  "digits36 = ''0123456789abcdefghijklmnopqrstuvwxyz''"

definition digit36 :: "char \<Rightarrow> nat option" where
  "digit36 c =
     (let n = of_char c :: nat in
      if 48 \<le> n \<and> n \<le> 57 then Some (n - 48)
      else if 97 \<le> n \<and> n \<le> 122 then Some (n - 97 + 10)
      else if 65 \<le> n \<and> n \<le> 90 then Some (n - 65 + 10)
      else None)"

definition FormatUint :: "nat \<Rightarrow> u64 \<Rightarrow> string" where
  "FormatUint base i = map ((!) digits36) (digits base (unat i))"

definition parse_cutoff :: "nat \<Rightarrow> u64" where
  "parse_cutoff base = NOT 0 div of_nat base + 1"

text \<open>
  \<open>strconv.ParseUint\<close> at 64 bits, with its overflow tests at machine width: the value is
  \<open>0\<close> with a syntax error and the largest \<open>uint64\<close> with a range error.
\<close>

fun parseUint_loop :: "nat \<Rightarrow> u64 \<Rightarrow> string \<Rightarrow> u64 \<times> num_error option" where
  "parseUint_loop base n [] = (n, None)"
| "parseUint_loop base n (c # cs) =
     (case digit36 c of
        None \<Rightarrow> (0, Some ErrSyntaxNum)
      | Some d \<Rightarrow>
          if base \<le> d then (0, Some ErrSyntaxNum)
          else if parse_cutoff base \<le> n then (NOT 0, Some ErrRange)
          else (let n' = n * of_nat base; n1 = n' + of_nat d in
                if n1 < n' then (NOT 0, Some ErrRange) else parseUint_loop base n1 cs))"

definition ParseUint :: "string \<Rightarrow> nat \<Rightarrow> u64 \<times> num_error option" where
  "ParseUint s base = (if s = [] then (0, Some ErrSyntaxNum) else parseUint_loop base 0 s)"

subsection \<open>Digits\<close>

text \<open>The digits of a string in a base: the reference meaning of every number parser.\<close>

definition dig :: "nat \<Rightarrow> char \<Rightarrow> nat option" where
  "dig base c = (case digit36 c of None \<Rightarrow> None | Some d \<Rightarrow> if d < base then Some d else None)"

definition numeral_of :: "nat \<Rightarrow> string \<Rightarrow> nat list option" where
  "numeral_of base s = those (map (dig base) s)"

lemma numeral_of_Nil [simp]: "numeral_of base [] = Some []"
  by (simp add: numeral_of_def)

lemma numeral_of_Cons [simp]:
  "numeral_of base (c # cs) =
     (case dig base c of None \<Rightarrow> None | Some d \<Rightarrow> map_option ((#) d) (numeral_of base cs))"
  by (simp add: numeral_of_def split: option.split)

lemma numeral_of_append:
  "numeral_of base (xs @ ys) =
     (case numeral_of base xs of None \<Rightarrow> None
      | Some ds \<Rightarrow> map_option (\<lambda>es. ds @ es) (numeral_of base ys))"
  by (induction xs) (auto simp: option.map_comp comp_def map_option_case split: option.splits)

lemma length_numeral_of: "numeral_of base s = Some ds \<Longrightarrow> length ds = length s"
  by (induction s arbitrary: ds) (auto split: option.splits)

lemma dig_less: "dig base c = Some d \<Longrightarrow> d < base"
  by (simp add: dig_def split: option.splits if_splits)

lemma numeral_of_less: "numeral_of base s = Some ds \<Longrightarrow> \<forall>d \<in> set ds. d < base"
  by (induction s arbitrary: ds) (auto split: option.splits dest: dig_less)

lemma numeral_of_eq_None_iff: "numeral_of base s = None \<longleftrightarrow> (\<exists>c \<in> set s. dig base c = None)"
  by (induction s) (auto split: option.splits)

lemma dig_digits36: "d < base \<Longrightarrow> base \<le> 36 \<Longrightarrow> dig base (digits36 ! d) = Some d"
proof -
  have "list_all (\<lambda>d. digit36 (digits36 ! d) = Some d) [0..<36]" by code_simp
  then show "d < base \<Longrightarrow> base \<le> 36 \<Longrightarrow> ?thesis" by (simp add: list_all_iff dig_def)
qed

lemma numeral_of_digits36:
  "base \<le> 36 \<Longrightarrow> \<forall>d \<in> set ds. d < base \<Longrightarrow> numeral_of base (map ((!) digits36) ds) = Some ds"
  by (induction ds) (simp_all add: dig_digits36)

lemma numeral_of_FormatUint:
  "1 < base \<Longrightarrow> base \<le> 36 \<Longrightarrow> numeral_of base (FormatUint base i) = Some (digits base (unat i))"
  by (simp add: FormatUint_def numeral_of_digits36 digits_bound)

lemma FormatUint_not_Nil [simp]: "FormatUint base i \<noteq> []"
  by (simp add: FormatUint_def)

lemma length_FormatUint [simp]: "length (FormatUint base i) = length (digits base (unat i))"
  by (simp add: FormatUint_def)

subsection \<open>ParseUint\<close>

lemma unat_parse_cutoff:
  assumes "1 < b" and "b \<le> 36"
  shows "unat (parse_cutoff b) = (2 ^ 64 - 1) div b + 1"
proof -
  have b: "unat (of_nat b :: u64) = b" using assms by (intro unat_of_nat_u64) simp
  have "unat (NOT 0 div of_nat b :: u64) = (2 ^ 64 - 1) div b"
    by (simp add: unat_div_distrib b unat_u64_max)
  moreover have "(2 ^ 64 - 1) div b + 1 < (2 ^ 64 :: nat)"
  proof -
    have "(2 ^ 64 - 1) div b \<le> (2 ^ 64 - 1 :: nat) div 2"
      using assms by (intro div_le_mono2) auto
    then show ?thesis by simp
  qed
  ultimately show ?thesis
    by (simp add: parse_cutoff_def unat_word_ariths)
qed

lemma parse_step:
  fixes n :: u64
  assumes b: "1 < b" "b \<le> 36" and d: "d < b"
  shows "unat n * b + d < 2 ^ 64 \<Longrightarrow>
      \<not> parse_cutoff b \<le> n \<and> \<not> n * of_nat b + of_nat d < n * of_nat b
      \<and> unat (n * of_nat b + of_nat d) = unat n * b + d"
    and "\<not> unat n * b + d < 2 ^ 64 \<Longrightarrow>
      parse_cutoff b \<le> n \<or> n * of_nat b + of_nat d < n * of_nat b"
proof -
  have bw: "unat (of_nat b :: u64) = b" and dw: "unat (of_nat d :: u64) = d"
    using b d by (auto intro!: unat_of_nat_u64)
  have cut: "parse_cutoff b \<le> n \<longleftrightarrow> (2 ^ 64 - 1) div b + 1 \<le> unat n"
    using unat_parse_cutoff[OF b] by (simp add: word_le_nat_alt)
  have mul: "unat (n * of_nat b) = unat n * b" if "unat n * b < 2 ^ 64"
    using that bw by (simp add: unat_word_ariths)
  have below: "\<not> parse_cutoff b \<le> n \<longleftrightarrow> unat n * b < 2 ^ 64"
  proof -
    have "unat n * b < 2 ^ 64 \<longleftrightarrow> unat n * b \<le> 2 ^ 64 - 1" by auto
    also have "\<dots> \<longleftrightarrow> unat n \<le> (2 ^ 64 - 1) div b"
      using b by (simp add: less_eq_div_iff_mult_less_eq)
    finally show ?thesis by (simp add: cut not_le less_Suc_eq_le)
  qed
  show "\<not> parse_cutoff b \<le> n \<and> \<not> n * of_nat b + of_nat d < n * of_nat b
      \<and> unat (n * of_nat b + of_nat d) = unat n * b + d"
    if v: "unat n * b + d < 2 ^ 64"
  proof -
    have "unat n * b < 2 ^ 64" using v by simp
    moreover from this have "unat (n * of_nat b + of_nat d) = unat n * b + d"
      using v mul dw by (simp add: unat_word_ariths)
    ultimately show ?thesis using below mul by (simp add: word_less_nat_alt)
  qed
  show "parse_cutoff b \<le> n \<or> n * of_nat b + of_nat d < n * of_nat b"
    if v: "\<not> unat n * b + d < 2 ^ 64"
  proof (cases "unat n * b < 2 ^ 64")
    case True
    have "unat (n * of_nat b + of_nat d) = (unat n * b + d) mod 2 ^ 64"
      using mul[OF True] dw by (simp add: unat_word_ariths)
    also have "\<dots> = unat n * b + d - 2 ^ 64"
      using v True b d by (simp add: mod_if)
    also have "\<dots> < unat n * b"
    proof -
      have "d < 2 ^ 64" using d b by simp
      with v True show ?thesis by linarith
    qed
    finally show ?thesis using mul[OF True] by (simp add: word_less_nat_alt)
  qed (use below in blast)
qed

lemma parseUint_loop_digits:
  assumes "numeral_of b s = Some ds" and "1 < b" and "b \<le> 36"
  shows "parseUint_loop b n s =
    (let v = unat n * b ^ length ds + horner b ds in
     if v < 2 ^ 64 then (of_nat v, None) else (NOT 0, Some ErrRange))"
  using assms(1)
proof (induction s arbitrary: n ds)
  case Nil
  then show ?case using unat_u64_less[of n] by simp
next
  case (Cons c cs)
  then obtain d es where d: "dig b c = Some d" and es: "numeral_of b cs = Some es"
    and ds: "ds = d # es"
    by (auto split: option.splits)
  from d have c: "digit36 c = Some d" and db: "d < b"
    by (auto simp: dig_def split: option.splits if_splits)
  let ?v = "unat n * b ^ length ds + horner b ds"
  have v: "?v = (unat n * b + d) * b ^ length es + horner b es"
    by (simp add: ds algebra_simps)
  show ?case
  proof (cases "unat n * b + d < 2 ^ 64")
    case True
    with parse_step(1)[OF assms(2,3) db] c db have
      "parseUint_loop b n (c # cs) = parseUint_loop b (n * of_nat b + of_nat d) cs"
      by (simp add: Let_def)
    also have "\<dots> = (if ?v < 2 ^ 64 then (of_nat ?v, None) else (NOT 0, Some ErrRange))"
      using Cons.IH[OF es] parse_step(1)[OF assms(2,3) db True] by (simp only: Let_def v)
    finally show ?thesis by (simp only: Let_def)
  next
    case False
    have "unat n * b + d \<le> ?v" using assms(2) v
      by (metis le_add1 le_trans mult.right_neutral mult_le_mono2 nat_less_le one_le_power order.refl)
    with False have "\<not> ?v < 2 ^ 64" by linarith
    moreover have "parseUint_loop b n (c # cs) = (NOT 0, Some ErrRange)"
      using parse_step(2)[OF assms(2,3) db False] c db by (auto simp: Let_def)
    ultimately show ?thesis by (simp only: Let_def if_False)
  qed
qed

lemma parseUint_loop_bad: "numeral_of b s = None \<Longrightarrow> snd (parseUint_loop b n s) \<noteq> None"
  by (induction s arbitrary: n) (auto simp: Let_def dig_def split: option.splits if_splits)

theorem ParseUint_eq:
  assumes "numeral_of b s = Some ds" and "s \<noteq> []" and "1 < b" and "b \<le> 36"
  shows "ParseUint s b =
    (if horner b ds < 2 ^ 64 then (of_nat (horner b ds), None) else (NOT 0, Some ErrRange))"
  using parseUint_loop_digits[OF assms(1,3,4), of 0] assms(2) by (simp add: ParseUint_def Let_def)

theorem ParseUint_ok_iff:
  assumes "1 < b" and "b \<le> 36"
  shows "ParseUint s b = (v, None) \<longleftrightarrow>
    s \<noteq> [] \<and> (\<exists>ds. numeral_of b s = Some ds \<and> horner b ds < 2 ^ 64 \<and> v = of_nat (horner b ds))"
proof (cases "numeral_of b s")
  case None
  then show ?thesis using parseUint_loop_bad[of b s 0] by (auto simp: ParseUint_def)
next
  case (Some ds)
  then show ?thesis
    using ParseUint_eq[OF Some _ assms] by (cases "s = []") (auto simp: ParseUint_def)
qed

corollary ParseUint_FormatUint [codec_simps]:
  assumes "1 < b" and "b \<le> 36"
  shows "ParseUint (FormatUint b i) b = (i, None)"
  using assms unat_u64_less[of i] by (simp add: ParseUint_ok_iff numeral_of_FormatUint)

section \<open>Hex encoding of bytes\<close>

text \<open>\<open>strings.ToLower\<close> on ASCII text; bytes outside ASCII are left alone.\<close>

definition lower_char :: "char \<Rightarrow> char" where
  "lower_char c =
     (let n = of_char c :: nat in if 65 \<le> n \<and> n \<le> 90 then char_of (n + 32) else c)"

abbreviation ToLower :: "string \<Rightarrow> string" where
  "ToLower s \<equiv> map lower_char s"

lemma lower_char_0x:
  "lower_char (CHR ''0'') = CHR ''0''" "lower_char (CHR ''x'') = CHR ''x''"
  "lower_char (CHR ''X'') = CHR ''x''"
  by code_simp+

lemma fromHexChar_dig: "fromHexChar c = map_option of_nat (dig 16 c)"
  by (auto simp: fromHexChar_def dig_def digit36_def Let_def)

lemma fromHexChar_less: "fromHexChar c = Some a \<Longrightarrow> unat a < 16"
  by (auto simp: fromHexChar_dig unat_of_nat_byte dest!: dig_less)

lemma fromHexChar_hextable: "n < 16 \<Longrightarrow> fromHexChar (hextable ! n) = Some (of_nat n)"
proof -
  have "list_all (\<lambda>n. fromHexChar (hextable ! n) = Some (of_nat n)) [0..<16]" by code_simp
  then show "n < 16 \<Longrightarrow> ?thesis" by (simp add: list_all_iff)
qed

lemma fromHexChar_chars: "fromHexChar c = Some a \<Longrightarrow> c \<in> set ''0123456789abcdefABCDEF''"
proof -
  assume "fromHexChar c = Some a"
  then have "48 \<le> n \<and> n \<le> 57 \<or> 97 \<le> n \<and> n \<le> 102 \<or> 65 \<le> n \<and> n \<le> 70"
    if "n = of_char c" for n :: nat
    using that by (auto simp: fromHexChar_def Let_def split: if_splits)
  from this[OF refl] have "(of_char c :: nat) \<in> set ([48..<58] @ [97..<103] @ [65..<71])"
    by (simp only: set_append set_upt Un_iff atLeastLessThan_iff) arith
  moreover have "[48..<58] @ [97..<103] @ [65..<71] = map of_char ''0123456789abcdefABCDEF''"
    by code_simp
  ultimately have "(of_char c :: nat) \<in> of_char ` set ''0123456789abcdefABCDEF''"
    by (simp only: list.set_map)
  then show ?thesis by (auto simp only: image_iff of_char_eq_iff)
qed

lemma hextable_fromHexChar: "fromHexChar c = Some a \<Longrightarrow> hextable ! unat a = lower_char c"
proof -
  have "list_all (\<lambda>c. case fromHexChar c of None \<Rightarrow> True
      | Some a \<Rightarrow> hextable ! unat a = lower_char c) ''0123456789abcdefABCDEF''" by code_simp
  then have all: "\<forall>c \<in> set ''0123456789abcdefABCDEF''. case fromHexChar c of None \<Rightarrow> True
      | Some a \<Rightarrow> hextable ! unat a = lower_char c" by (simp only: list_all_iff)
  assume c: "fromHexChar c = Some a"
  from bspec[OF all fromHexChar_chars[OF c]] show ?thesis by (simp only: c option.case)
qed

lemma length_hex_Encode [simp]: "length (hex_Encode bs) = 2 * length bs"
  by (induction bs) simp_all

lemma hex_Encode_eq_Nil [simp]: "hex_Encode bs = [] \<longleftrightarrow> bs = []"
  by (cases bs) simp_all

lemma hex_Decode_Encode [simp, codec_simps]: "hex_Decode (hex_Encode bs) = (bs, None)"
  by (induction bs) (simp_all add: fromHexChar_hextable nibble_bounds byte_nibbles)

lemma hex_Decode_ok_iff:
  "snd (hex_Decode s) = None \<longleftrightarrow> even (length s) \<and> (\<forall>c \<in> set s. fromHexChar c \<noteq> None)"
  by (induction s rule: hex_Decode.induct) (auto split: option.splits prod.splits)

lemma length_hex_Decode: "hex_Decode s = (bs, None) \<Longrightarrow> length s = 2 * length bs"
  by (induction s arbitrary: bs rule: hex_Decode.induct) (auto split: option.splits prod.splits)

lemma nibbles_merge:
  assumes "unat (a :: byte) < 16" and "unat (b :: byte) < 16"
  shows "drop_bit 4 (push_bit 4 a OR b) = a" and "(push_bit 4 a OR b) AND 15 = b"
proof -
  have self: "take_bit 4 x = x" if "unat x < 16" for x :: byte
  proof -
    have "unat (take_bit 4 x) = unat x"
      using that by (simp add: unsigned_take_bit_eq take_bit_nat_eq_self_iff)
    then show ?thesis by (rule unsigned_word_eqI)
  qed
  note a = self[OF assms(1)] and b = self[OF assms(2)]
  have na: "\<not> bit a n" if "4 \<le> n" for n using a that by (metis bit_take_bit_iff not_le)
  have nb: "\<not> bit b n" if "4 \<le> n" for n using b that by (metis bit_take_bit_iff not_le)
  show "drop_bit 4 (push_bit 4 a OR b) = a"
  proof (rule bit_eqI)
    fix n
    show "bit (drop_bit 4 (push_bit 4 a OR b)) n \<longleftrightarrow> bit a n"
      by (cases "n < 4") (auto simp: bit_simps na nb)
  qed
  have "(push_bit 4 a OR b) AND 15 = take_bit 4 (push_bit 4 a OR b)"
    by (simp add: take_bit_eq_mask mask_eq_exp_minus_1)
  also have "\<dots> = b"
    by (rule bit_eqI) (use nb in \<open>force simp: bit_simps\<close>)
  finally show "(push_bit 4 a OR b) AND 15 = b" .
qed

text \<open>Encoding what was decoded gives the text back, in lower case.\<close>

lemma hex_Encode_Decode: "hex_Decode s = (bs, None) \<Longrightarrow> hex_Encode bs = ToLower s"
proof (induction s arbitrary: bs rule: hex_Decode.induct)
  case (3 p q src)
  from 3(2) obtain a b bs' where ab: "fromHexChar p = Some a" "fromHexChar q = Some b"
    and bs': "hex_Decode src = (bs', None)" and bs: "bs = (push_bit 4 a OR b) # bs'"
    by (auto split: option.splits prod.splits)
  from 3(1)[OF ab bs'] ab bs show ?case
    using nibbles_merge[OF fromHexChar_less fromHexChar_less, OF ab]
    by (simp only: hex_Encode.simps list.map hextable_fromHexChar[OF ab(1)] hextable_fromHexChar[OF ab(2)])
qed (auto split: option.splits)

section \<open>math/big\<close>

text \<open>
  A \<open>big.Int\<close> is an integer; its \<open>Bits\<close> are the little-endian 64-bit words of its
  absolute value without zero words at the end, its \<open>Bytes\<close> the big-endian bytes of it
  without leading zeros.
\<close>

fun nat_words :: "nat \<Rightarrow> u64 list" where
  "nat_words n = (if n = 0 then [] else of_nat (n mod 2 ^ 64) # nat_words (n div 2 ^ 64))"

fun words_val :: "u64 list \<Rightarrow> nat" where
  "words_val [] = 0"
| "words_val (w # ws) = unat w + 2 ^ 64 * words_val ws"

fun nat_bytes :: "nat \<Rightarrow> byte list" where
  "nat_bytes n = (if n = 0 then [] else nat_bytes (n div 256) @ [of_nat (n mod 256)])"

fun nat_bitlen :: "nat \<Rightarrow> nat" where
  "nat_bitlen n = (if n = 0 then 0 else Suc (nat_bitlen (n div 2)))"

declare nat_words.simps [simp del] nat_bytes.simps [simp del] nat_bitlen.simps [simp del]

definition big_Bits :: "bigint \<Rightarrow> u64 list" where
  "big_Bits x = nat_words (nat \<bar>x\<bar>)"

definition big_SetBits :: "u64 list \<Rightarrow> bigint" where
  "big_SetBits ws = int (words_val ws)"

definition big_Bytes :: "bigint \<Rightarrow> byte list" where
  "big_Bytes x = nat_bytes (nat \<bar>x\<bar>)"

definition big_SetBytes :: "byte list \<Rightarrow> bigint" where
  "big_SetBytes bs = int (horner 256 (map unat bs))"

definition big_BitLen :: "bigint \<Rightarrow> nat" where
  "big_BitLen x = nat_bitlen (nat \<bar>x\<bar>)"

text \<open>\<open>fmt.Sprintf("%#x", x)\<close> on a \<open>big.Int\<close>: the sign, the prefix, lower-case digits.\<close>

definition big_hex :: "bigint \<Rightarrow> string" where
  "big_hex x = (if x < 0 then ''-'' else []) @ ''0x'' @ map ((!) digits36) (digits 16 (nat \<bar>x\<bar>))"

text \<open>\<open>SetString\<close> with an explicit base: an optional sign and at least one digit.\<close>

definition scan_sign :: "string \<Rightarrow> bool \<times> string" where
  "scan_sign s =
     (case s of [] \<Rightarrow> (False, [])
      | c # cs \<Rightarrow> if c = CHR ''-'' then (True, cs)
                 else if c = CHR ''+'' then (False, cs) else (False, s))"

definition big_SetString :: "string \<Rightarrow> nat \<Rightarrow> bigint option" where
  "big_SetString s base =
     (let (neg, t) = scan_sign s in
      if t = [] then None
      else map_option (\<lambda>ds. if neg then - int (horner base ds) else int (horner base ds))
             (numeral_of base t))"

lemma nat_words_0 [simp]: "nat_words 0 = []"
  by (simp add: nat_words.simps)

lemma words_val_nat_words [simp]: "words_val (nat_words n) = n"
proof (induction n rule: nat_words.induct)
  case (1 n)
  have "unat (of_nat (n mod 2 ^ 64) :: u64) = n mod 2 ^ 64"
    by (rule unat_of_nat_u64) simp
  with 1 show ?case by (cases "n = 0") (simp_all add: nat_words.simps[of n])
qed

lemma words_val_less: "words_val ws < 2 ^ (64 * length ws)"
proof (induction ws)
  case (Cons w ws)
  have "2 ^ 64 * Suc (words_val ws) \<le> 2 ^ 64 * 2 ^ (64 * length ws)"
    using Cons by (intro mult_left_mono) auto
  moreover have "unat w < 2 ^ 64" by (rule unat_u64_less)
  ultimately have "unat w + 2 ^ 64 * words_val ws < 2 ^ 64 * 2 ^ (64 * length ws)" by simp
  then show ?case by (simp add: power_add)
qed simp

lemma big_SetBits_Bits [simp]: "big_SetBits (big_Bits x) = \<bar>x\<bar>"
  by (simp add: big_SetBits_def big_Bits_def)

lemma nat_bytes_0 [simp]: "nat_bytes 0 = []"
  by (simp add: nat_bytes.simps)

lemma horner_nat_bytes [simp]: "horner 256 (map unat (nat_bytes n)) = n"
proof (induction n rule: nat_bytes.induct)
  case (1 n)
  have "unat (of_nat (n mod 256) :: byte) = n mod 256" by (rule unat_of_nat_byte) simp
  with 1 show ?case by (cases "n = 0") (simp_all add: nat_bytes.simps[of n])
qed

lemma length_nat_bytes_le: "n < 256 ^ k \<Longrightarrow> length (nat_bytes n) \<le> k"
proof (induction k arbitrary: n)
  case 0
  then show ?case by (simp add: nat_bytes.simps)
next
  case (Suc k)
  then have "n div 256 < 256 ^ k" by (simp add: less_mult_imp_div_less mult.commute)
  with Suc.IH show ?case by (simp add: nat_bytes.simps[of n])
qed

lemma length_nat_bytes_le_iff: "length (nat_bytes n) \<le> k \<longleftrightarrow> n < 256 ^ k"
proof
  assume le: "length (nat_bytes n) \<le> k"
  have "n < 256 ^ length (nat_bytes n)"
    using horner_less[of "map unat (nat_bytes n)" 256] unat_byte_less by auto
  also have "\<dots> \<le> 256 ^ k" using le by (intro power_increasing) auto
  finally show "n < 256 ^ k" .
qed (rule length_nat_bytes_le)

lemma nat_words_nth:
  "i < length (nat_words n) \<Longrightarrow> unat (nat_words n ! i) = n div 2 ^ (64 * i) mod 2 ^ 64"
proof (induction n arbitrary: i rule: nat_words.induct)
  case (1 n)
  then have n: "n \<noteq> 0" by (auto simp: nat_words.simps[of n] split: if_splits)
  show ?case
  proof (cases i)
    case 0
    have "unat (of_nat (n mod 2 ^ 64) :: u64) = n mod 2 ^ 64" by (rule unat_of_nat_u64) simp
    with 0 n show ?thesis by (simp add: nat_words.simps[of n])
  next
    case (Suc j)
    with 1 n have "unat (nat_words (n div 2 ^ 64) ! j) = n div 2 ^ 64 div 2 ^ (64 * j) mod 2 ^ 64"
      by (simp add: nat_words.simps[of n])
    with Suc n show ?thesis
      by (simp add: nat_words.simps[of n] div_mult2_eq power_add)
  qed
qed

lemma nat_words_beyond: "length (nat_words n) \<le> i \<Longrightarrow> n div 2 ^ (64 * i) = 0"
proof -
  assume "length (nat_words n) \<le> i"
  then have "(2::nat) ^ (64 * length (nat_words n)) \<le> 2 ^ (64 * i)" by (intro power_increasing) auto
  then have "n < 2 ^ (64 * i)"
    using words_val_less[of "nat_words n"] unfolding words_val_nat_words by (rule less_le_trans[rotated])
  then show ?thesis by (rule div_less)
qed

lemma nat_bitlen_le_iff: "nat_bitlen n \<le> k \<longleftrightarrow> n < 2 ^ k"
proof (induction k arbitrary: n)
  case 0
  then show ?case by (simp add: nat_bitlen.simps[of n])
next
  case (Suc k)
  show ?case using Suc[of "n div 2"] by (cases "n = 0") (auto simp: nat_bitlen.simps[of n])
qed

lemma big_BitLen_le_iff: "big_BitLen x \<le> k \<longleftrightarrow> \<bar>x\<bar> < 2 ^ k"
proof -
  have "nat \<bar>x\<bar> < 2 ^ k \<longleftrightarrow> int (nat \<bar>x\<bar>) < int (2 ^ k)" by (simp only: of_nat_less_iff)
  then show ?thesis by (simp add: big_BitLen_def nat_bitlen_le_iff)
qed

lemma big_BitLen_0_iff [simp]: "big_BitLen x = 0 \<longleftrightarrow> x = 0"
  using big_BitLen_le_iff[of x 0] by simp

lemma bytes_eqI:
  assumes "length xs = length (ys :: byte list)" and "horner 256 (map unat xs) = horner 256 (map unat ys)"
  shows "xs = ys"
proof -
  have "map unat xs = map unat ys"
    using assms unat_byte_less by (subst (asm) horner_eq_iff) auto
  then show ?thesis using map_injective[OF _ inj_unsigned] by blast
qed

end
