(* ===== verification/Hexutil.thy ===== *)
theory Hexutil
  imports Go_Std
begin

text \<open>
  Package \<open>hexutil\<close> (src/pkg/common/hexutil): hex encoding with the \<open>0x\<close> prefix and the
  JSON and text marshallers of \<open>Bytes\<close>, \<open>Big\<close>, \<open>Uint64\<close> and \<open>Uint\<close>. Errors are
  values; a method with a pointer receiver takes the value behind the receiver and returns
  the value it leaves there together with the error. The last section relates every parser
  to one specification of the hex quantities.
\<close>

section \<open>hexutil.go\<close>

datatype dec_error =
    ErrEmptyString | ErrSyntax | ErrMissingPrefix | ErrOddLength | ErrEmptyNumber
  | ErrLeadingZero | ErrUint64Range | ErrUintRange | ErrBig256Range

fun dec_error_msg :: "dec_error \<Rightarrow> string" where
  "dec_error_msg ErrEmptyString = ''empty hex string''"
| "dec_error_msg ErrSyntax = ''invalid hex string''"
| "dec_error_msg ErrMissingPrefix = ''hex string without 0x prefix''"
| "dec_error_msg ErrOddLength = ''hex string of odd length''"
| "dec_error_msg ErrEmptyNumber = ''hex string \"0x\"''"
| "dec_error_msg ErrLeadingZero = ''hex number with leading zero digits''"
| "dec_error_msg ErrUint64Range = ''hex number > 64 bits''"
| "dec_error_msg ErrUintRange = ''hex number > 64 bits''"
| "dec_error_msg ErrBig256Range = ''hex number > 256 bits''"

text \<open>The errors of the library calls that \<open>mapError\<close> is applied to.\<close>

datatype lib_error = NumError num_error | HexError hex_error

fun mapError :: "lib_error \<Rightarrow> dec_error" where
  "mapError (NumError ErrRange) = ErrUint64Range"
| "mapError (NumError ErrSyntaxNum) = ErrSyntax"
| "mapError (HexError (InvalidByteError c)) = ErrSyntax"
| "mapError (HexError ErrLength) = ErrOddLength"

definition has0xPrefix :: "string \<Rightarrow> bool" where
  "has0xPrefix input \<longleftrightarrow>
     length input \<ge> 2 \<and> input ! 0 = CHR ''0'' \<and> (input ! 1 = CHR ''x'' \<or> input ! 1 = CHR ''X'')"

definition Decode :: "string \<Rightarrow> byte list \<times> dec_error option" where
  "Decode input =
     (if length input = 0 then ([], Some ErrEmptyString)
      else if \<not> has0xPrefix input then ([], Some ErrMissingPrefix)
      else let (b, err) = hex_Decode (drop 2 input)
           in (b, map_option (\<lambda>e. mapError (HexError e)) err))"

text \<open>The \<open>Must\<close> functions panic with the error: the left summand is the panic.\<close>

definition MustDecode :: "string \<Rightarrow> dec_error + byte list" where
  "MustDecode input =
     (case Decode input of (dec, None) \<Rightarrow> Inr dec | (dec, Some err) \<Rightarrow> Inl err)"

definition Encode :: "byte list \<Rightarrow> string" where
  "Encode b = ''0x'' @ hex_Encode b"

definition checkNumber :: "string \<Rightarrow> dec_error + string" where
  "checkNumber input =
     (if length input = 0 then Inl ErrEmptyString
      else if \<not> has0xPrefix input then Inl ErrMissingPrefix
      else let input = drop 2 input in
           if length input = 0 then Inl ErrEmptyNumber
           else if length input > 1 \<and> input ! 0 = CHR ''0'' then Inl ErrLeadingZero
           else Inr input)"

definition DecodeUint64 :: "string \<Rightarrow> u64 \<times> dec_error option" where
  "DecodeUint64 input =
     (case checkNumber input of
        Inl err \<Rightarrow> (0, Some err)
      | Inr raw \<Rightarrow> let (dec, err) = ParseUint raw 16
                  in (dec, map_option (\<lambda>e. mapError (NumError e)) err))"

definition MustDecodeUint64 :: "string \<Rightarrow> dec_error + u64" where
  "MustDecodeUint64 input =
     (case DecodeUint64 input of (dec, None) \<Rightarrow> Inr dec | (dec, Some err) \<Rightarrow> Inl err)"

definition EncodeUint64 :: "u64 \<Rightarrow> string" where
  "EncodeUint64 i = ''0x'' @ FormatUint 16 i"

text \<open>Computed at start-up from the number of words a 40-bit number has.\<close>

definition bigWordNibbles :: nat where
  "bigWordNibbles = (if length (big_Bits 0xFFFFFFFFFF) = 1 then 16 else 8)"

definition badNibble :: u64 where
  "badNibble = NOT 0"

definition decodeNibble :: "char \<Rightarrow> u64" where
  "decodeNibble c =
     (let n = of_char c :: nat in
      if n \<ge> 48 \<and> n \<le> 57 then of_nat (n - 48)
      else if n \<ge> 65 \<and> n \<le> 70 then of_nat (n - 65 + 10)
      else if n \<ge> 97 \<and> n \<le> 102 then of_nat (n - 97 + 10)
      else badNibble)"

text \<open>
  The loop that accumulates nibbles into one machine word, and the loop of \<open>DecodeBig\<close>
  that fills the words from the end of the text; \<open>None\<close> is the return on a bad nibble.
\<close>

fun nibbles_loop :: "u64 \<Rightarrow> string \<Rightarrow> u64 option" where
  "nibbles_loop dec [] = Some dec"
| "nibbles_loop dec (c # cs) =
     (let nib = decodeNibble c in
      if nib = badNibble then None else nibbles_loop (dec * 16 + nib) cs)"

fun bigWords_loop :: "nat \<Rightarrow> nat \<Rightarrow> string \<Rightarrow> u64 list option" where
  "bigWords_loop 0 endp raw = Some []"
| "bigWords_loop (Suc k) endp raw =
     (let start = endp - bigWordNibbles in
      case nibbles_loop 0 (take (endp - start) (drop start raw)) of
        None \<Rightarrow> None
      | Some w \<Rightarrow> map_option ((#) w) (bigWords_loop k start raw))"

definition DecodeBig :: "string \<Rightarrow> dec_error + bigint" where
  "DecodeBig input =
     (case checkNumber input of
        Inl err \<Rightarrow> Inl err
      | Inr raw \<Rightarrow>
          if length raw > 64 then Inl ErrBig256Range
          else (case bigWords_loop (length raw div bigWordNibbles + 1) (length raw) raw of
                  None \<Rightarrow> Inl ErrSyntax
                | Some ws \<Rightarrow> Inr (big_SetBits ws)))"

definition MustDecodeBig :: "string \<Rightarrow> dec_error + bigint" where
  "MustDecodeBig input = DecodeBig input"

definition EncodeBig :: "bigint \<Rightarrow> string" where
  "EncodeBig b = (if big_BitLen b = 0 then ''0x0'' else big_hex b)"

section \<open>json.go\<close>

text \<open>
  Errors of the text unmarshallers: a \<open>decError\<close>, or the formatted error about a wrong
  length; the JSON unmarshallers turn a \<open>decError\<close> into an \<open>UnmarshalTypeError\<close> with the
  error text and the name of the target type.
\<close>

datatype text_error = DecErr dec_error | FixedLengthErr nat nat string

datatype json_error = UnmarshalTypeError string string | OtherErr text_error

definition wrapTypeError :: "text_error option \<Rightarrow> string \<Rightarrow> json_error option" where
  "wrapTypeError err typ =
     (case err of
        None \<Rightarrow> None
      | Some (DecErr e) \<Rightarrow> Some (UnmarshalTypeError (dec_error_msg e) typ)
      | Some e \<Rightarrow> Some (OtherErr e))"

definition errNonString :: "string \<Rightarrow> json_error" where
  "errNonString typ = UnmarshalTypeError ''non-string'' typ"

definition isString :: "string \<Rightarrow> bool" where
  "isString input \<longleftrightarrow>
     length input \<ge> 2 \<and> input ! 0 = CHR 0x22 \<and> input ! (length input - 1) = CHR 0x22"

definition bytesHave0xPrefix :: "string \<Rightarrow> bool" where
  "bytesHave0xPrefix input \<longleftrightarrow>
     length input \<ge> 2 \<and> input ! 0 = CHR ''0'' \<and> (input ! 1 = CHR ''x'' \<or> input ! 1 = CHR ''X'')"

definition checkText :: "string \<Rightarrow> bool \<Rightarrow> dec_error + string" where
  "checkText input wantPrefix =
     (if length input = 0 then Inr []
      else if \<not> bytesHave0xPrefix input \<and> wantPrefix then Inl ErrMissingPrefix
      else let input = (if bytesHave0xPrefix input then drop 2 input else input) in
           if length input mod 2 \<noteq> 0 then Inl ErrOddLength else Inr input)"

definition checkNumberText :: "string \<Rightarrow> dec_error + string" where
  "checkNumberText input =
     (if length input = 0 then Inr []
      else if \<not> bytesHave0xPrefix input then Inl ErrMissingPrefix
      else let input = drop 2 input in
           if length input = 0 then Inl ErrEmptyNumber
           else if length input > 1 \<and> input ! 0 = CHR ''0'' then Inl ErrLeadingZero
           else Inr input)"

text \<open>The text between the quotes of a JSON string, \<open>input[1:len(input)-1]\<close>.\<close>

definition unquote :: "string \<Rightarrow> string" where
  "unquote input = take (length input - 2) (drop 1 input)"

definition UnmarshalStringJSON ::
  "string \<Rightarrow> string \<Rightarrow> ('a \<Rightarrow> string \<Rightarrow> 'a \<times> text_error option) \<Rightarrow> 'a \<Rightarrow> 'a \<times> json_error option" where
  "UnmarshalStringJSON typ input unmarshal b =
     (if \<not> isString input then (b, Some (errNonString typ))
      else let (b', err) = unmarshal b (unquote input) in (b', wrapTypeError err typ))"

subsection \<open>Bytes\<close>

definition Bytes_MarshalText :: "byte list \<Rightarrow> string" where
  "Bytes_MarshalText b = ''0x'' @ hex_Encode b"

definition Bytes_UnmarshalText :: "byte list \<Rightarrow> string \<Rightarrow> byte list \<times> text_error option" where
  "Bytes_UnmarshalText b input =
     (case checkText input True of
        Inl err \<Rightarrow> (b, Some (DecErr err))
      | Inr raw \<Rightarrow>
          (case hex_Decode raw of
             (dec, Some e) \<Rightarrow> (b, Some (DecErr (mapError (HexError e))))
           | (dec, None) \<Rightarrow> (dec, None)))"

definition Bytes_UnmarshalJSON :: "byte list \<Rightarrow> string \<Rightarrow> byte list \<times> json_error option" where
  "Bytes_UnmarshalJSON b input =
     (if \<not> isString input then (b, Some (errNonString ''hexutil.Bytes''))
      else let (b', err) = Bytes_UnmarshalText b (unquote input)
           in (b', wrapTypeError err ''hexutil.Bytes''))"

definition Bytes_String :: "byte list \<Rightarrow> string" where
  "Bytes_String b = Encode b"

subsection \<open>Fixed-size values\<close>

text \<open>The loop that looks for a bad nibble before anything is written.\<close>

fun syntax_ok :: "string \<Rightarrow> bool" where
  "syntax_ok [] = True"
| "syntax_ok (b # raw) = (if decodeNibble b = badNibble then False else syntax_ok raw)"

text \<open>\<open>hex.Decode(out, raw)\<close> overwrites the start of \<open>out\<close> with the bytes it decodes.\<close>

definition decode_into :: "byte list \<Rightarrow> string \<Rightarrow> byte list" where
  "decode_into out raw = (let dec = fst (hex_Decode raw) in dec @ drop (length dec) out)"

definition unmarshal_fixed ::
  "string \<Rightarrow> bool \<Rightarrow> string \<Rightarrow> byte list \<Rightarrow> byte list \<times> text_error option" where
  "unmarshal_fixed typname wantPrefix input out =
     (case checkText input wantPrefix of
        Inl err \<Rightarrow> (out, Some (DecErr err))
      | Inr raw \<Rightarrow>
          if length raw div 2 \<noteq> length out
          then (out, Some (FixedLengthErr (length raw) (length out * 2) typname))
          else if \<not> syntax_ok raw then (out, Some (DecErr ErrSyntax))
          else (decode_into out raw, None))"

definition UnmarshalFixedText :: "string \<Rightarrow> string \<Rightarrow> byte list \<Rightarrow> byte list \<times> text_error option" where
  "UnmarshalFixedText typname input out = unmarshal_fixed typname True input out"

definition UnmarshalFixedUnprefixedText ::
  "string \<Rightarrow> string \<Rightarrow> byte list \<Rightarrow> byte list \<times> text_error option" where
  "UnmarshalFixedUnprefixedText typname input out = unmarshal_fixed typname False input out"

definition UnmarshalFixedJSON :: "string \<Rightarrow> string \<Rightarrow> byte list \<Rightarrow> byte list \<times> json_error option" where
  "UnmarshalFixedJSON typ input out =
     (if \<not> isString input then (out, Some (errNonString typ))
      else let (out', err) = UnmarshalFixedText typ (unquote input) out
           in (out', wrapTypeError err typ))"

subsection \<open>Big\<close>

definition Big_MarshalText :: "bigint \<Rightarrow> string" where
  "Big_MarshalText b = EncodeBig b"

definition Big_UnmarshalText :: "bigint \<Rightarrow> string \<Rightarrow> bigint \<times> text_error option" where
  "Big_UnmarshalText b input =
     (case checkNumberText input of
        Inl err \<Rightarrow> (b, Some (DecErr err))
      | Inr raw \<Rightarrow>
          if length raw > 64 then (b, Some (DecErr ErrBig256Range))
          else (case bigWords_loop (length raw div bigWordNibbles + 1) (length raw) raw of
                  None \<Rightarrow> (b, Some (DecErr ErrSyntax))
                | Some ws \<Rightarrow> (big_SetBits ws, None)))"

definition Big_UnmarshalJSON :: "bigint \<Rightarrow> string \<Rightarrow> bigint \<times> json_error option" where
  "Big_UnmarshalJSON b input =
     (if \<not> isString input then (b, Some (errNonString ''*hexutil.Big''))
      else let (b', err) = Big_UnmarshalText b (unquote input)
           in (b', wrapTypeError err ''*hexutil.Big''))"

definition Big_String :: "bigint \<Rightarrow> string" where
  "Big_String b = EncodeBig b"

subsection \<open>Uint64 and Uint\<close>

definition Uint64_MarshalText :: "u64 \<Rightarrow> string" where
  "Uint64_MarshalText b = ''0x'' @ FormatUint 16 b"

definition Uint64_UnmarshalText :: "u64 \<Rightarrow> string \<Rightarrow> u64 \<times> text_error option" where
  "Uint64_UnmarshalText b input =
     (case checkNumberText input of
        Inl err \<Rightarrow> (b, Some (DecErr err))
      | Inr raw \<Rightarrow>
          if length raw > 16 then (b, Some (DecErr ErrUint64Range))
          else (case nibbles_loop 0 raw of
                  None \<Rightarrow> (b, Some (DecErr ErrSyntax))
                | Some dec \<Rightarrow> (dec, None)))"

definition Uint64_UnmarshalJSON :: "u64 \<Rightarrow> string \<Rightarrow> u64 \<times> json_error option" where
  "Uint64_UnmarshalJSON b input =
     (if \<not> isString input then (b, Some (errNonString ''hexutil.Uint64''))
      else let (b', err) = Uint64_UnmarshalText b (unquote input)
           in (b', wrapTypeError err ''hexutil.Uint64''))"

definition Uint64_String :: "u64 \<Rightarrow> string" where
  "Uint64_String b = EncodeUint64 b"

text \<open>\<open>uint\<close> has 64 bits, so the conversion from \<open>Uint64\<close> keeps the value.\<close>

definition Uint_MarshalText :: "u64 \<Rightarrow> string" where
  "Uint_MarshalText b = Uint64_MarshalText b"

definition Uint_UnmarshalText :: "u64 \<Rightarrow> string \<Rightarrow> u64 \<times> text_error option" where
  "Uint_UnmarshalText b input =
     (let (w, err) = Uint64_UnmarshalText 0 input in
      if w > NOT 0 \<or> err = Some (DecErr ErrUint64Range) then (b, Some (DecErr ErrUintRange))
      else case err of Some e \<Rightarrow> (b, Some e) | None \<Rightarrow> (w, None))"

definition Uint_UnmarshalJSON :: "u64 \<Rightarrow> string \<Rightarrow> u64 \<times> json_error option" where
  "Uint_UnmarshalJSON b input =
     (if \<not> isString input then (b, Some (errNonString ''hexutil.Uint''))
      else let (b', err) = Uint_UnmarshalText b (unquote input)
           in (b', wrapTypeError err ''hexutil.Uint''))"

definition Uint_String :: "u64 \<Rightarrow> string" where
  "Uint_String b = EncodeUint64 b"

section \<open>The hex quantities\<close>

text \<open>
  The specification of the number parsers: a quantity is the prefix and a non-empty list of
  hex digits, of either case, without superfluous leading zeros; its value is the number
  the digits denote. It says nothing of machine words or of widths.
\<close>

definition quantity_val :: "string \<Rightarrow> nat option" where
  "quantity_val input =
     (case input of
        z # x # raw \<Rightarrow>
          if z = CHR ''0'' \<and> (x = CHR ''x'' \<or> x = CHR ''X'') \<and> raw \<noteq> []
             \<and> (length raw = 1 \<or> hd raw \<noteq> CHR ''0'')
          then map_option (horner 16) (numeral_of 16 raw) else None
      | _ \<Rightarrow> None)"

subsection \<open>Nibbles and words\<close>

lemma decodeNibble_dig:
  "decodeNibble c = (case dig 16 c of None \<Rightarrow> badNibble | Some d \<Rightarrow> of_nat d)"
  by (auto simp: decodeNibble_def dig_def digit36_def Let_def)

lemma decodeNibble_bad_iff: "decodeNibble c = badNibble \<longleftrightarrow> dig 16 c = None"
proof (cases "dig 16 c")
  case (Some d)
  then have "d < 16" by (rule dig_less)
  then have "unat (of_nat d :: u64) = d" by (intro unat_of_nat_u64) simp
  with \<open>d < 16\<close> have "of_nat d \<noteq> badNibble"
    using unat_u64_max by (auto simp: badNibble_def)
  with Some show ?thesis by (simp add: decodeNibble_dig)
qed (simp add: decodeNibble_dig)

lemma dig16_fromHexChar: "dig 16 c = None \<longleftrightarrow> fromHexChar c = None"
  by (simp add: fromHexChar_dig)

lemma nibbles_loop_eq:
  "nibbles_loop w s =
     map_option (\<lambda>ds. w * 16 ^ length ds + of_nat (horner 16 ds)) (numeral_of 16 s)"
proof (induction s arbitrary: w)
  case (Cons c cs)
  show ?case
  proof (cases "dig 16 c")
    case (Some d)
    then have "nibbles_loop w (c # cs) = nibbles_loop (w * 16 + of_nat d) cs"
      using decodeNibble_bad_iff[of c] by (simp add: Let_def decodeNibble_dig)
    with Some Cons.IH show ?thesis
      by (auto simp: option.map_comp comp_def algebra_simps intro!: option.map_cong)
  qed (simp add: decodeNibble_dig)
qed simp

lemma nibbles_loop_word:
  assumes "numeral_of 16 s = Some ds" and "length s \<le> 16"
  shows "nibbles_loop 0 s = Some (of_nat (horner 16 ds))" and "horner 16 ds < 2 ^ 64"
proof -
  show "nibbles_loop 0 s = Some (of_nat (horner 16 ds))"
    using assms(1) by (simp add: nibbles_loop_eq)
  have "horner 16 ds < 16 ^ length ds"
    using numeral_of_less[OF assms(1)] by (rule horner_less)
  also have "\<dots> \<le> 16 ^ 16"
    using assms length_numeral_of[OF assms(1)] by (intro power_increasing) auto
  finally show "horner 16 ds < 2 ^ 64" by simp
qed

lemma bigWordNibbles_eq [simp]: "bigWordNibbles = 16"
proof -
  have "big_Bits 0xFFFFFFFFFF = [0xFFFFFFFFFF]"
    by (simp add: big_Bits_def nat_words.simps[of 1099511627775])
  then show ?thesis by (simp add: bigWordNibbles_def)
qed

lemma bigWords_loop_ok:
  assumes "numeral_of 16 (take endp raw) = Some ds" and "endp \<le> length raw" and "endp \<le> 16 * k"
  shows "\<exists>ws. bigWords_loop k endp raw = Some ws \<and> words_val ws = horner 16 ds"
  using assms
proof (induction k arbitrary: endp ds)
  case 0
  then show ?case by simp
next
  case (Suc k)
  define start where "start = endp - 16"
  let ?chunk = "take (endp - start) (drop start raw)"
  have split: "take endp raw = take start raw @ ?chunk"
    by (metis diff_le_self le_add_diff_inverse start_def take_add)
  from Suc.prems(1) obtain ds1 ds2 where
    ds1: "numeral_of 16 (take start raw) = Some ds1" and ds2: "numeral_of 16 ?chunk = Some ds2"
    and ds: "ds = ds1 @ ds2"
    by (auto simp: split numeral_of_append split: option.splits)
  have len: "length ?chunk = endp - start" using Suc.prems(2) by (simp add: start_def)
  then have "length ?chunk \<le> 16" by (simp add: start_def)
  note w = nibbles_loop_word[OF ds2 this]
  obtain ws where ws: "bigWords_loop k start raw = Some ws" "words_val ws = horner 16 ds1"
  proof -
    have "start \<le> length raw" "start \<le> 16 * k" using Suc.prems(2,3) by (auto simp: start_def)
    from Suc.IH[OF ds1 this] that show ?thesis by blast
  qed
  have "horner 16 ds = horner 16 ds1 * 2 ^ 64 + horner 16 ds2"
  proof (cases "16 \<le> endp")
    case True
    with len length_numeral_of[OF ds2] have "length ds2 = 16" by (simp add: start_def)
    then show ?thesis by (simp add: ds horner_append)
  next
    case False
    with ds1 have "ds1 = []" by (simp add: start_def)
    then show ?thesis by (simp add: ds)
  qed
  then have "bigWords_loop (Suc k) endp raw = Some (of_nat (horner 16 ds2) # ws)
      \<and> words_val (of_nat (horner 16 ds2) # ws) = horner 16 ds"
    using w ws by (simp add: start_def Let_def unat_of_nat_u64 algebra_simps)
  then show ?case by blast
qed

lemma bigWords_loop_bad:
  assumes "numeral_of 16 (take endp raw) = None" and "endp \<le> 16 * k"
  shows "bigWords_loop k endp raw = None"
  using assms
proof (induction k arbitrary: endp)
  case 0
  then show ?case by simp
next
  case (Suc k)
  define start where "start = endp - 16"
  let ?chunk = "take (endp - start) (drop start raw)"
  have split: "take endp raw = take start raw @ ?chunk"
    by (metis diff_le_self le_add_diff_inverse start_def take_add)
  from Suc.prems(1) have "numeral_of 16 (take start raw) = None \<or> numeral_of 16 ?chunk = None"
    by (auto simp: split numeral_of_append split: option.splits)
  moreover have "bigWords_loop k start raw = None" if "numeral_of 16 (take start raw) = None"
    using that Suc.prems(2) by (intro Suc.IH) (auto simp: start_def)
  ultimately show ?case by (auto simp: Let_def start_def nibbles_loop_eq split: option.splits)
qed

lemma bigWords_loop_eq:
  "map_option words_val (bigWords_loop (length raw div 16 + 1) (length raw) raw)
     = map_option (horner 16) (numeral_of 16 raw)"
proof -
  have k: "length raw \<le> 16 * (length raw div 16 + 1)" by simp
  show ?thesis
  proof (cases "numeral_of 16 raw")
    case None
    then show ?thesis using bigWords_loop_bad[OF _ k, of raw] by simp
  next
    case (Some ds)
    then show ?thesis using bigWords_loop_ok[OF _ _ k, of raw ds] by auto
  qed
qed

subsection \<open>The checks on the text\<close>

lemma has0xPrefix_iff:
  "has0xPrefix s \<longleftrightarrow> (\<exists>x r. s = CHR ''0'' # x # r \<and> (x = CHR ''x'' \<or> x = CHR ''X''))"
  by (cases s; cases "tl s") (auto simp: has0xPrefix_def)

lemma bytesHave0xPrefix_eq [simp]: "bytesHave0xPrefix s = has0xPrefix s"
  by (simp add: bytesHave0xPrefix_def has0xPrefix_def)

lemma has0xPrefix_0x [simp]: "has0xPrefix (CHR ''0'' # CHR ''x'' # s)"
  by (simp add: has0xPrefix_def)

lemma quantity_val_checkNumber:
  "quantity_val s =
     (case checkNumber s of Inl e \<Rightarrow> None | Inr raw \<Rightarrow> map_option (horner 16) (numeral_of 16 raw))"
  by (cases s; cases "tl s"; cases "tl (tl s)")
    (auto simp: quantity_val_def checkNumber_def has0xPrefix_def Let_def hd_conv_nth)

lemma checkNumber_Inr:
  "checkNumber s = Inr raw \<Longrightarrow> raw \<noteq> [] \<and> (length raw = 1 \<or> hd raw \<noteq> CHR ''0'')"
  by (auto simp: checkNumber_def Let_def hd_conv_nth split: if_splits)

lemma checkNumberText_eq:
  "s \<noteq> [] \<Longrightarrow> checkNumberText s = checkNumber s"
  by (simp add: checkNumberText_def checkNumber_def)

text \<open>Without leading zeros the number of digits and the size of the number agree.\<close>

lemma dig_0_char: "dig 16 c = Some 0 \<longleftrightarrow> c = CHR ''0''"
proof
  show "dig 16 c = Some 0 \<Longrightarrow> c = CHR ''0''"
    using of_char_eq_iff[of c "CHR ''0''", where 'a = nat]
    by (auto simp: dig_def digit36_def Let_def split: if_splits)
qed (simp add: dig_def digit36_def)

lemma canonical_length:
  assumes "checkNumber s = Inr raw" and "numeral_of 16 raw = Some ds" and "0 < k"
  shows "length raw \<le> k \<longleftrightarrow> horner 16 ds < 16 ^ k"
proof
  assume "length raw \<le> k"
  then have "(16::nat) ^ length ds \<le> 16 ^ k"
    using length_numeral_of[OF assms(2)] by (intro power_increasing) auto
  then show "horner 16 ds < 16 ^ k"
    using horner_less[OF numeral_of_less[OF assms(2)]] by (rule less_le_trans[rotated])
next
  assume less: "horner 16 ds < 16 ^ k"
  show "length raw \<le> k"
  proof (rule ccontr)
    assume long: "\<not> length raw \<le> k"
    with assms(3) checkNumber_Inr[OF assms(1)] obtain c cs where
      raw: "raw = c # cs" and c: "c \<noteq> CHR ''0''"
      by (cases raw) auto
    from assms(2) raw obtain d es where d: "dig 16 c = Some d" and ds: "ds = d # es"
      by (auto split: option.splits)
    have "1 \<le> d" using c d dig_0_char[of c] by (cases d) auto
    moreover have "(16::nat) ^ k \<le> 16 ^ length es"
      using long length_numeral_of[OF assms(2)] by (intro power_increasing) (auto simp: raw ds)
    ultimately have "16 ^ k \<le> d * 16 ^ length es"
      by (metis mult_le_mono mult_1 le_trans)
    with less show False by (simp add: ds)
  qed
qed

section \<open>Correctness of the parsers\<close>

lemma DecodeUint64_iff:
  "DecodeUint64 s = (v, None) \<longleftrightarrow> (\<exists>n. quantity_val s = Some n \<and> n < 2 ^ 64 \<and> v = of_nat n)"
proof (cases "checkNumber s")
  case (Inl e)
  then show ?thesis by (simp add: DecodeUint64_def quantity_val_checkNumber)
next
  case (Inr raw)
  then have "raw \<noteq> []" using checkNumber_Inr by blast
  moreover have "DecodeUint64 s = (v, None) \<longleftrightarrow> ParseUint raw 16 = (v, None)"
    using Inr by (cases "ParseUint raw 16") (auto simp: DecodeUint64_def)
  ultimately show ?thesis
    by (auto simp: Inr quantity_val_checkNumber ParseUint_ok_iff)
qed

text \<open>\<open>DecodeUint64\<close> accepts exactly the hex quantities below \<open>2^64\<close> and returns
  their value: no accepted text wraps around, no representable quantity is rejected.\<close>

theorem DecodeUint64_correct:
  "DecodeUint64 s = (v, None) \<longleftrightarrow> (\<exists>n. quantity_val s = Some n \<and> n < 2 ^ 64 \<and> v = of_nat n)"
  by (rule DecodeUint64_iff)

lemma canonical_bound:
  assumes "checkNumber s = Inr raw" and "numeral_of 16 raw = Some ds"
  shows "64 < length raw \<longleftrightarrow> \<not> horner 16 ds < 2 ^ 256"
    and "16 < length raw \<longleftrightarrow> \<not> horner 16 ds < 2 ^ 64"
proof -
  have p: "(16::nat) ^ 64 = 2 ^ 256" "(16::nat) ^ 16 = 2 ^ 64" by simp_all
  show "64 < length raw \<longleftrightarrow> \<not> horner 16 ds < 2 ^ 256"
    using canonical_length[OF assms, of 64] unfolding p(1) by auto
  show "16 < length raw \<longleftrightarrow> \<not> horner 16 ds < 2 ^ 64"
    using canonical_length[OF assms, of 16] unfolding p(2) by auto
qed

text \<open>The result of the word loop, as an integer.\<close>

lemma bigWords_value:
  "(case bigWords_loop (length raw div 16 + 1) (length raw) raw of
      None \<Rightarrow> Inl e | Some ws \<Rightarrow> Inr (big_SetBits ws)) =
   (case numeral_of 16 raw of None \<Rightarrow> Inl e | Some ds \<Rightarrow> Inr (int (horner 16 ds)))"
  using bigWords_loop_eq[of raw]
  by (auto simp: big_SetBits_def map_option_case split: option.splits)

lemma DecodeBig_iff:
  "DecodeBig s = Inr z \<longleftrightarrow> (\<exists>n. quantity_val s = Some n \<and> n < 2 ^ 256 \<and> z = int n)"
proof (cases "checkNumber s")
  case (Inl e)
  then show ?thesis by (simp add: DecodeBig_def quantity_val_checkNumber)
next
  case (Inr raw)
  show ?thesis
  proof (cases "numeral_of 16 raw")
    case None
    then show ?thesis
      using Inr bigWords_value[where e = ErrSyntax and raw = raw] by (auto simp: DecodeBig_def quantity_val_checkNumber)
  next
    case (Some ds)
    then show ?thesis
      using Inr bigWords_value[where e = ErrSyntax and raw = raw] canonical_bound(1)[OF Inr Some]
      by (auto simp: DecodeBig_def quantity_val_checkNumber)
  qed
qed

text \<open>C33: \<open>DecodeBig\<close>, which fills machine words from the end of the text, accepts exactly
  the hex quantities below \<open>2^256\<close> and returns their value.\<close>

theorem DecodeBig_correct:
  "DecodeBig s = Inr z \<longleftrightarrow> (\<exists>n. quantity_val s = Some n \<and> n < 2 ^ 256 \<and> z = int n)"
  by (rule DecodeBig_iff)

lemma Uint64_UnmarshalText_iff:
  assumes "s \<noteq> []"
  shows "Uint64_UnmarshalText b s = (v, None) \<longleftrightarrow>
      (\<exists>n. quantity_val s = Some n \<and> n < 2 ^ 64 \<and> v = of_nat n)"
proof (cases "checkNumber s")
  case (Inl e)
  with assms show ?thesis
    by (simp add: Uint64_UnmarshalText_def checkNumberText_eq quantity_val_checkNumber)
next
  case (Inr raw)
  show ?thesis
  proof (cases "numeral_of 16 raw")
    case None
    with Inr assms show ?thesis
      by (simp add: Uint64_UnmarshalText_def checkNumberText_eq quantity_val_checkNumber
          nibbles_loop_eq)
  next
    case (Some ds)
    with Inr assms canonical_bound(2)[OF Inr Some] show ?thesis
      by (auto simp: Uint64_UnmarshalText_def checkNumberText_eq quantity_val_checkNumber
          nibbles_loop_eq)
  qed
qed

text \<open>the text unmarshaller of \<open>Uint64\<close> accepts the empty text as zero and otherwise
  exactly what \<open>DecodeUint64\<close> accepts, with the same value; on an error the receiver keeps
  its value.\<close>

theorem Uint64_UnmarshalText_correct:
  "(Uint64_UnmarshalText b s = (v, None) \<longleftrightarrow>
      (if s = [] then v = 0 else DecodeUint64 s = (v, None))) \<and>
   (snd (Uint64_UnmarshalText b s) = None \<or> fst (Uint64_UnmarshalText b s) = b)"
proof (cases "s = []")
  case True
  then show ?thesis by (auto simp: Uint64_UnmarshalText_def checkNumberText_def)
next
  case False
  moreover have "snd (Uint64_UnmarshalText b s) = None \<or> fst (Uint64_UnmarshalText b s) = b"
    by (auto simp: Uint64_UnmarshalText_def split: sum.splits option.splits)
  ultimately show ?thesis by (simp add: Uint64_UnmarshalText_iff DecodeUint64_iff)
qed

text \<open>The same for \<open>Big\<close>.\<close>

lemma Big_UnmarshalText_DecodeBig:
  "s \<noteq> [] \<Longrightarrow> Big_UnmarshalText b s =
     (case DecodeBig s of Inl e \<Rightarrow> (b, Some (DecErr e)) | Inr z \<Rightarrow> (z, None))"
  by (auto simp: Big_UnmarshalText_def DecodeBig_def checkNumberText_eq split: sum.split option.split)

lemma Big_UnmarshalText_Nil [simp]: "Big_UnmarshalText b [] = (0, None)"
  by (simp add: Big_UnmarshalText_def checkNumberText_def big_SetBits_def)

section \<open>Round trips\<close>

lemma hex_digits_checkNumber:
  "checkNumber (''0x'' @ map ((!) digits36) (digits 16 n)) = Inr (map ((!) digits36) (digits 16 n))"
proof -
  let ?t = "map ((!) digits36) (digits 16 n)"
  have "\<not> (length ?t > 1 \<and> ?t ! 0 = CHR ''0'')"
  proof
    assume *: "length ?t > 1 \<and> ?t ! 0 = CHR ''0''"
    then have n: "16 \<le> n" using digits_small[of n 16] by (cases "n < 16") auto
    define d where "d = hd (digits 16 n)"
    have "0 < d" using hd_digits_pos[of 16 n] n by (simp add: d_def)
    moreover have "d < 16" using digits_bound[of 16 n] hd_in_set[of "digits 16 n"]
      by (simp add: d_def)
    moreover have "digits36 ! d = CHR ''0''"
      using * by (simp add: d_def hd_conv_nth)
    ultimately show False using dig_digits36[of d 16] dig_0_char[of "CHR ''0''"] by simp
  qed
  then show ?thesis by (auto simp: checkNumber_def Let_def)
qed

lemma quantity_val_digits [simp]:
  "quantity_val (''0x'' @ map ((!) digits36) (digits 16 n)) = Some n"
  using hex_digits_checkNumber[of n]
  by (simp add: quantity_val_checkNumber numeral_of_digits36 digits_bound)

lemma EncodeUint64_quantity: "quantity_val (EncodeUint64 i) = Some (unat i)"
  using quantity_val_digits[of "unat i"] by (simp only: EncodeUint64_def FormatUint_def)

lemma EncodeBig_nonneg: "0 \<le> x \<Longrightarrow> EncodeBig x = ''0x'' @ map ((!) digits36) (digits 16 (nat x))"
  by (simp add: EncodeBig_def big_hex_def digits_small digits36_def)

text \<open>reading back what was printed: \<open>DecodeUint64\<close> undoes \<open>EncodeUint64\<close>, and
  \<open>Decode\<close> undoes \<open>Encode\<close>; whatever \<open>Decode\<close> accepts is re-encoded to the same text in
  lower case.\<close>

theorem Encode_roundtrip:
  "DecodeUint64 (EncodeUint64 i) = (i, None)
   \<and> Decode (Encode bs) = (bs, None)
   \<and> (Decode s = (ds, None) \<longrightarrow> Encode ds = ToLower s)"
proof (intro conjI impI)
  show "DecodeUint64 (EncodeUint64 i) = (i, None)"
    using unat_u64_less[of i] by (simp add: DecodeUint64_iff EncodeUint64_quantity)
  show "Decode (Encode bs) = (bs, None)"
    by (simp add: Decode_def Encode_def)
  assume "Decode s = (ds, None)"
  then have "has0xPrefix s" and "hex_Decode (drop 2 s) = (ds, None)"
    by (auto simp: Decode_def split: if_splits prod.splits)
  then show "Encode ds = ToLower s"
    using hex_Encode_Decode[of "drop 2 s" ds]
    by (auto simp: Encode_def has0xPrefix_iff lower_char_0x)
qed

text \<open>printing and reading back a \<open>big.Int\<close>: the number itself from zero up to
  \<open>2^256 - 1\<close>, a range error above, and a missing-prefix error for every negative number,
  because \<open>EncodeBig\<close> prints the sign before the prefix.\<close>

theorem EncodeBig_DecodeBig:
  "DecodeBig (EncodeBig x) =
     (if x < 0 then Inl ErrMissingPrefix
      else if x < 2 ^ 256 then Inr x else Inl ErrBig256Range)"
proof (cases "x < 0")
  case True
  then show ?thesis
    by (simp add: EncodeBig_def big_hex_def DecodeBig_def checkNumber_def has0xPrefix_def)
next
  case False
  let ?t = "map ((!) digits36) (digits 16 (nat x))"
  note chk = hex_digits_checkNumber[of "nat x"]
  have num: "numeral_of 16 ?t = Some (digits 16 (nat x))"
    by (simp add: numeral_of_digits36 digits_bound)
  have enc: "EncodeBig x = ''0x'' @ ?t" using False by (intro EncodeBig_nonneg) simp
  have bound: "64 < length ?t \<longleftrightarrow> \<not> x < 2 ^ 256"
  proof -
    have "nat x < 2 ^ 256 \<longleftrightarrow> x < 2 ^ 256" using False by (simp add: nat_less_iff)
    then show ?thesis using canonical_bound(1)[OF chk num] by simp
  qed
  have "DecodeBig (EncodeBig x) = (if 64 < length ?t then Inl ErrBig256Range else Inr x)"
    using False bigWords_value[where e = ErrSyntax and raw = ?t] num
    by (simp only: DecodeBig_def enc chk bigWordNibbles_eq) auto
  with bound False show ?thesis by auto
qed

theorem Encode_roundtrip_witness:
  "Decode ''0xAb'' = ([171], None) \<and> Encode [171] = ''0xab''"
proof -
  have "Decode ''0xAb'' = ([171], None)" by code_simp
  moreover have "ToLower ''0xAb'' = ''0xab''" by code_simp
  ultimately show ?thesis using Encode_roundtrip[of 0 "[]" "''0xAb''" "[171]"] by simp
qed

section \<open>Fixed-size targets\<close>

lemma syntax_ok_iff: "syntax_ok raw \<longleftrightarrow> (\<forall>c \<in> set raw. fromHexChar c \<noteq> None)"
  by (induction raw) (auto simp: decodeNibble_bad_iff dig16_fromHexChar)

lemma hex_Decode_complete:
  "syntax_ok raw \<Longrightarrow> even (length raw) \<Longrightarrow> hex_Decode raw = (fst (hex_Decode raw), None)"
  using hex_Decode_ok_iff[of raw] by (simp add: syntax_ok_iff prod_eq_iff)

lemma checkText_Inr: "checkText s w = Inr raw \<Longrightarrow> even (length raw)"
  by (auto simp: checkText_def Let_def even_iff_mod_2_eq_zero split: if_splits)

text \<open>a fixed-size target is either filled completely from the text or not touched: on
  success the new content is the decoding of the whole text and has the size of the target,
  and on every error path the target keeps its content. The pre-check makes the final
  \<open>hex.Decode\<close>, whose error is ignored, succeed.\<close>

theorem UnmarshalFixedText_all_or_nothing:
  assumes "unmarshal_fixed typ w s out = (out', err)"
  shows "case err of
      Some e \<Rightarrow> out' = out
    | None \<Rightarrow> \<exists>raw. checkText s w = Inr raw \<and> hex_Decode raw = (out', None)
                 \<and> length out' = length out"
proof (cases err)
  case (Some e)
  with assms show ?thesis by (auto simp: unmarshal_fixed_def split: sum.splits if_splits)
next
  case None
  with assms obtain raw where raw: "checkText s w = Inr raw" and len: "length raw div 2 = length out"
    and ok: "syntax_ok raw" and out': "out' = decode_into out raw"
    by (auto simp: unmarshal_fixed_def split: sum.splits if_splits)
  have dec: "hex_Decode raw = (fst (hex_Decode raw), None)"
    using hex_Decode_complete[OF ok checkText_Inr[OF raw]] .
  then have "length (fst (hex_Decode raw)) = length out"
    using length_hex_Decode[OF dec] len by simp
  then have "out' = fst (hex_Decode raw)" by (simp add: out' decode_into_def Let_def)
  with raw dec None len length_hex_Decode[OF dec] show ?thesis by auto
qed

theorem UnmarshalFixedText_all_or_nothing_witness:
  "UnmarshalFixedText ''T'' ''0x0a'' [7] = ([10], None)
   \<and> (\<exists>raw. checkText ''0x0a'' True = Inr raw \<and> hex_Decode raw = ([10], None) \<and> length [10::byte] = 1)
   \<and> unmarshal_fixed ''T'' True ''0x0g'' [7] = ([7], Some (DecErr ErrSyntax))"
proof -
  have ok: "unmarshal_fixed ''T'' True ''0x0a'' [7] = ([10], None)" by code_simp
  have "unmarshal_fixed ''T'' True ''0x0g'' [7] = ([7], Some (DecErr ErrSyntax))" by code_simp
  with ok UnmarshalFixedText_all_or_nothing[OF ok] show ?thesis
    by (simp add: UnmarshalFixedText_def)
qed

section \<open>The marshallers as codecs\<close>

text \<open>
  The interface of the types that marshal to text and to a JSON string: the text codec of
  the prelude, and a JSON decoder that unwraps the quotes, defers to the text decoder and
  turns a decoding error into a type error.
\<close>

definition result_of :: "'a \<times> 'e option \<Rightarrow> 'e + 'a" where
  "result_of r = (case r of (a, None) \<Rightarrow> Inr a | (a, Some e) \<Rightarrow> Inl e)"

definition quote :: "string \<Rightarrow> string" where
  "quote s = CHR 0x22 # s @ [CHR 0x22]"

locale json_text_codec = text_codec enc dec valid
  for enc :: "'a \<Rightarrow> string" and dec :: "string \<Rightarrow> text_error + 'a" and valid :: "'a \<Rightarrow> bool" +
  fixes decJSON :: "string \<Rightarrow> json_error + 'a"
    and tname :: string
  assumes decJSON_quote:
      "decJSON (quote s) =
        (case dec s of Inr a \<Rightarrow> Inr a | Inl e \<Rightarrow> Inl (the (wrapTypeError (Some e) tname)))"
    and decJSON_nonstring: "\<not> isString s \<Longrightarrow> decJSON s = Inl (errNonString tname)"
begin

lemma json_roundtrip: "valid a \<Longrightarrow> decJSON (quote (enc a)) = Inr a"
  by (simp add: decJSON_quote dec_enc)

lemma json_dec_error:
  "dec s = Inl (DecErr e) \<Longrightarrow> decJSON (quote s) = Inl (UnmarshalTypeError (dec_error_msg e) tname)"
  by (simp add: decJSON_quote wrapTypeError_def)

end

lemma result_of_simps [simp]: "result_of (a, None) = Inr a" "result_of (a, Some e) = Inl e"
  by (simp_all add: result_of_def)

lemma isString_quote [simp]: "isString (quote s)"
  by (simp add: isString_def quote_def nth_append)

lemma unquote_quote [simp]: "unquote (quote s) = s"
  by (simp add: unquote_def quote_def)

lemma result_of_wrap:
  "result_of (case r of (b, err) \<Rightarrow> (b, wrapTypeError err t)) =
     (case result_of r of Inr a \<Rightarrow> Inr a | Inl e \<Rightarrow> Inl (the (wrapTypeError (Some e) t)))"
  by (auto simp: result_of_def wrapTypeError_def split: prod.splits option.splits text_error.splits)

lemma Uint64_UnmarshalText_Marshal [codec_simps]:
  "Uint64_UnmarshalText b (Uint64_MarshalText i) = (i, None)"
  using unat_u64_less[of i] Uint64_UnmarshalText_iff[of "Uint64_MarshalText i" b i]
    EncodeUint64_quantity[of i]
  by (simp add: Uint64_MarshalText_def EncodeUint64_def)

lemma Uint_UnmarshalText_Marshal [codec_simps]:
  "Uint_UnmarshalText b (Uint_MarshalText i) = (i, None)"
  by (simp add: Uint_UnmarshalText_def Uint_MarshalText_def codec_simps word_le_nat_alt
      word_less_nat_alt unat_u64_max unat_u64_le not_less)

lemma Bytes_UnmarshalText_Marshal [codec_simps]:
  "Bytes_UnmarshalText b (Bytes_MarshalText bs) = (bs, None)"
  by (simp add: Bytes_UnmarshalText_def Bytes_MarshalText_def checkText_def)

lemma Big_UnmarshalText_Marshal [codec_simps]:
  assumes "0 \<le> x" and "x < 2 ^ 256"
  shows "Big_UnmarshalText b (Big_MarshalText x) = (x, None)"
proof -
  have "DecodeBig (EncodeBig x) = Inr x"
    using assms quantity_val_digits[of "nat x"]
    by (simp add: DecodeBig_iff EncodeBig_nonneg nat_less_iff)
  then show ?thesis
    using EncodeBig_nonneg[OF assms(1)] by (simp add: Big_MarshalText_def Big_UnmarshalText_DecodeBig)
qed

interpretation bytes_codec: json_text_codec Bytes_MarshalText
  "\<lambda>s. result_of (Bytes_UnmarshalText [] s)" "\<lambda>_. True"
  "\<lambda>s. result_of (Bytes_UnmarshalJSON [] s)" "''hexutil.Bytes''"
  by unfold_locales
    (simp_all add: codec_simps Bytes_UnmarshalJSON_def
      result_of_wrap)

interpretation uint64_codec: json_text_codec Uint64_MarshalText
  "\<lambda>s. result_of (Uint64_UnmarshalText 0 s)" "\<lambda>_. True"
  "\<lambda>s. result_of (Uint64_UnmarshalJSON 0 s)" "''hexutil.Uint64''"
  by unfold_locales
    (simp_all add: codec_simps Uint64_UnmarshalJSON_def
      result_of_wrap)

interpretation uint_codec: json_text_codec Uint_MarshalText
  "\<lambda>s. result_of (Uint_UnmarshalText 0 s)" "\<lambda>_. True"
  "\<lambda>s. result_of (Uint_UnmarshalJSON 0 s)" "''hexutil.Uint''"
  by unfold_locales
    (simp_all add: codec_simps Uint_UnmarshalJSON_def
      result_of_wrap)

interpretation big_codec: json_text_codec Big_MarshalText
  "\<lambda>s. result_of (Big_UnmarshalText 0 s)" "\<lambda>x. 0 \<le> x \<and> x < 2 ^ 256"
  "\<lambda>s. result_of (Big_UnmarshalJSON 0 s)" "''*hexutil.Big''"
  by unfold_locales
    (simp_all add: codec_simps Big_UnmarshalJSON_def
      result_of_wrap)

text \<open>C34: every value of the four marshalled types survives the trip through a JSON
  string, from any previous content of the receiver: all byte slices, all \<open>Uint64\<close> and
  \<open>Uint\<close> values, and the \<open>Big\<close> values from zero up to \<open>2^256 - 1\<close>.\<close>

theorem json_roundtrips:
  "result_of (Bytes_UnmarshalJSON [] (quote (Bytes_MarshalText bs))) = Inr bs
   \<and> result_of (Uint64_UnmarshalJSON 0 (quote (Uint64_MarshalText i))) = Inr i
   \<and> result_of (Uint_UnmarshalJSON 0 (quote (Uint_MarshalText i))) = Inr i
   \<and> inj_on Big_MarshalText {0..<2 ^ 256}
   \<and> (\<forall>x \<in> {0..<2 ^ 256}. result_of (Big_UnmarshalJSON 0 (quote (Big_MarshalText x))) = Inr x)"
proof (intro conjI ballI)
  show "inj_on Big_MarshalText {0..<2 ^ 256}"
    using big_codec.enc_inj_on by (simp add: atLeastLessThan_def atLeast_def lessThan_def Int_def)
  show "result_of (Big_UnmarshalJSON 0 (quote (Big_MarshalText x))) = Inr x"
    if "x \<in> {0..<2 ^ 256}" for x
    using that by (intro big_codec.json_roundtrip) simp
qed (rule bytes_codec.json_roundtrip uint64_codec.json_roundtrip uint_codec.json_roundtrip, simp)+

theorem json_roundtrips_witness:
  "Big_MarshalText 255 = ''0xff''
   \<and> result_of (Big_UnmarshalJSON 0 (quote ''0xff'')) = Inr 255"
proof -
  have "Big_MarshalText 255 = ''0xff''" by code_simp
  moreover have "result_of (Big_UnmarshalJSON 0 (quote (Big_MarshalText 255))) = Inr 255"
    using json_roundtrips by (simp add: Ball_def)
  ultimately show ?thesis by simp
qed

end
