(* ===== verification/Byte_Utils.thy ===== *)
theory Byte_Utils
  imports Hexutil
begin

text \<open>
  The byte helpers of package \<open>common\<close> (src/pkg/common/bytes.go): unprefixed hex, padding
  and cropping to a length, big-endian integers. Functions whose slice expressions can fail
  return an option, with \<open>None\<close> for the panic. The lemmas give each helper a reference
  meaning and the round trips between them.
\<close>

section \<open>Operations\<close>

text \<open>\<open>hex.EncodeToString\<close>, and \<open>hex.DecodeString\<close> with its error dropped: what was decoded
  before the first bad character is returned.\<close>

definition Bytes2Hex :: "byte list \<Rightarrow> string" where
  "Bytes2Hex d = hex_Encode d"

definition Hex2Bytes :: "string \<Rightarrow> byte list" where
  "Hex2Bytes str = (let (h, _) = hex_Decode str in h)"

definition ToHex :: "byte list \<Rightarrow> string" where
  "ToHex b = (let hex = Bytes2Hex b; hex = (if length hex = 0 then ''0'' else hex) in ''0x'' @ hex)"

definition FromHex :: "string \<Rightarrow> byte list" where
  "FromHex s =
     (let s = (if length s > 1 \<and> (take 2 s = ''0x'' \<or> take 2 s = ''0X'') then drop 2 s else s);
          s = (if length s mod 2 = 1 then ''0'' @ s else s)
      in Hex2Bytes s)"

text \<open>A nil slice stays nil.\<close>

definition CopyBytes :: "byte list option \<Rightarrow> byte list option" where
  "CopyBytes b = (case b of None \<Rightarrow> None | Some bs \<Rightarrow> Some bs)"

definition hasHexPrefix :: "string \<Rightarrow> bool" where
  "hasHexPrefix str \<longleftrightarrow>
     length str \<ge> 2 \<and> str ! 0 = CHR ''0'' \<and> (str ! 1 = CHR ''x'' \<or> str ! 1 = CHR ''X'')"

definition isHexCharacter :: "char \<Rightarrow> bool" where
  "isHexCharacter c \<longleftrightarrow>
     (let n = of_char c :: nat in
      (48 \<le> n \<and> n \<le> 57) \<or> (97 \<le> n \<and> n \<le> 102) \<or> (65 \<le> n \<and> n \<le> 70))"

definition isHex :: "string \<Rightarrow> bool" where
  "isHex str \<longleftrightarrow> (if length str mod 2 \<noteq> 0 then False else list_all isHexCharacter str)"

text \<open>\<open>copy\<close> into a zeroed slice of the given length, at an offset.\<close>

definition copy_at :: "nat \<Rightarrow> nat \<Rightarrow> byte list \<Rightarrow> byte list" where
  "copy_at len off src =
     (let n = min (len - off) (length src)
      in replicate off 0 @ take n src @ replicate (len - off - n) 0)"

definition Hex2BytesFixed :: "string \<Rightarrow> int \<Rightarrow> byte list option" where
  "Hex2BytesFixed str flen =
     (let h = Hex2Bytes str in
      if int (length h) = flen then Some h
      else if int (length h) > flen then
        (if flen < 0 then None else Some (drop (nat (int (length h) - flen)) h))
      else Some (copy_at (nat flen) (nat flen - length h) h))"

definition RightPadBytes :: "byte list \<Rightarrow> int \<Rightarrow> byte list" where
  "RightPadBytes sl l =
     (if l \<le> int (length sl) then sl else copy_at (nat l) 0 sl)"

definition LeftPadBytes :: "byte list \<Rightarrow> int \<Rightarrow> byte list" where
  "LeftPadBytes sl l =
     (if l \<le> int (length sl) then sl else copy_at (nat l) (nat l - length sl) sl)"

text \<open>
  \<open>binary.BigEndian.Uint64\<close> reads the first eight bytes and panics when there are fewer;
  \<open>PutUint64\<close> stores the eight bytes of the value from its most significant one.
\<close>

definition BytesToUint64 :: "byte list \<Rightarrow> u64 option" where
  "BytesToUint64 b =
     (if length b < 8 then None
      else Some (foldl (\<lambda>w x. push_bit 8 w OR ucast x) 0 (take 8 b)))"

definition Uint64ToBytes :: "u64 \<Rightarrow> byte list" where
  "Uint64ToBytes u = map (\<lambda>i. ucast (drop_bit (56 - 8 * i) u)) [0..<8]"

section \<open>Hex helpers\<close>

lemma Hex2Bytes_Bytes2Hex [simp]: "Hex2Bytes (Bytes2Hex b) = b"
  by (simp add: Hex2Bytes_def Bytes2Hex_def)

lemma isHexCharacter_iff: "isHexCharacter c \<longleftrightarrow> fromHexChar c \<noteq> None"
  by (auto simp: isHexCharacter_def fromHexChar_def Let_def)

lemma isHex_iff: "isHex s \<longleftrightarrow> snd (hex_Decode s) = None"
  by (auto simp: isHex_def hex_Decode_ok_iff isHexCharacter_iff list_all_iff even_iff_mod_2_eq_zero)

lemma FromHex_prefixed: "even (length t) \<Longrightarrow> FromHex (''0x'' @ t) = Hex2Bytes t"
  by (simp add: FromHex_def even_iff_mod_2_eq_zero)

text \<open>the unprefixed helpers: \<open>isHex\<close> holds exactly of the texts that decode without an
  error; \<open>FromHex\<close> undoes \<open>ToHex\<close> except on the empty slice, which \<open>ToHex\<close> prints as
  \<open>0x0\<close> and which reads back as one zero byte.\<close>

theorem hex_helpers_roundtrip:
  "FromHex (ToHex b) = (if b = [] then [0] else b)
   \<and> (isHex s \<longleftrightarrow> hex_Decode s = (Hex2Bytes s, None))"
proof
  show "FromHex (ToHex b) = (if b = [] then [0] else b)"
  proof (cases "b = []")
    case True
    then show ?thesis by (simp add: ToHex_def Bytes2Hex_def) code_simp
  next
    case False
    then have "ToHex b = ''0x'' @ Bytes2Hex b"
      by (simp add: ToHex_def Bytes2Hex_def Let_def)
    with False show ?thesis using FromHex_prefixed[of "Bytes2Hex b"] Hex2Bytes_Bytes2Hex[of b]
      by (simp add: Bytes2Hex_def)
  qed
  show "isHex s \<longleftrightarrow> hex_Decode s = (Hex2Bytes s, None)"
    by (cases "hex_Decode s") (auto simp: isHex_iff Hex2Bytes_def)
qed

section \<open>Padding and cropping\<close>

lemma copy_at_fits:
  "off + length src \<le> len \<Longrightarrow>
     copy_at len off src = replicate off 0 @ src @ replicate (len - off - length src) 0"
  by (auto simp: copy_at_def Let_def min_def)

lemma LeftPadBytes_eq:
  "LeftPadBytes s l = replicate (nat l - length s) 0 @ s"
proof (cases "l \<le> int (length s)")
  case False
  then show ?thesis by (subst LeftPadBytes_def) (simp add: copy_at_fits)
qed (simp add: LeftPadBytes_def)

lemma RightPadBytes_eq:
  "RightPadBytes s l = s @ replicate (nat l - length s) 0"
proof (cases "l \<le> int (length s)")
  case False
  then show ?thesis by (subst RightPadBytes_def) (simp add: copy_at_fits)
qed (simp add: RightPadBytes_def)

text \<open>padding and cropping by reference: left padding prepends zero bytes, so the
  big-endian value is unchanged; right padding appends them; a fixed-length decoding keeps
  the last \<open>flen\<close> bytes of the left-padded decoding, has exactly that length, and panics
  exactly for a negative length.\<close>

theorem padding_spec:
  "LeftPadBytes s l = replicate (nat l - length s) 0 @ s
   \<and> RightPadBytes s l = s @ replicate (nat l - length s) 0
   \<and> big_SetBytes (LeftPadBytes s l) = big_SetBytes s
   \<and> Hex2BytesFixed str flen =
       (if flen < 0 then None
        else let p = LeftPadBytes (Hex2Bytes str) flen in Some (drop (length p - nat flen) p))"
proof (intro conjI)
  show "big_SetBytes (LeftPadBytes s l) = big_SetBytes s"
    by (simp add: LeftPadBytes_eq big_SetBytes_def)
  let ?h = "Hex2Bytes str"
  show "Hex2BytesFixed str flen =
       (if flen < 0 then None
        else let p = LeftPadBytes ?h flen in Some (drop (length p - nat flen) p))"
  proof (cases "int (length ?h) < flen")
    case True
    then have "Hex2BytesFixed str flen = Some (LeftPadBytes ?h flen)"
      by (simp add: Hex2BytesFixed_def LeftPadBytes_def Let_def)
    with True show ?thesis by (simp add: LeftPadBytes_eq)
  next
    case False
    then show ?thesis
      by (auto simp: Hex2BytesFixed_def LeftPadBytes_eq Let_def nat_diff_distrib)
  qed
qed (rule LeftPadBytes_eq RightPadBytes_eq)+

section \<open>Big-endian integers\<close>

lemma unat_or_push: "unat (w :: u64) < 2 ^ 56 \<Longrightarrow>
  unat (push_bit 8 w OR ucast (x :: byte)) = unat w * 256 + unat x"
proof -
  assume w: "unat w < 2 ^ 56"
  have "push_bit 8 w AND ucast x = 0"
    by (rule bit_eqI) (auto simp: bit_simps dest: bit_imp_le_length)
  then have "push_bit 8 w OR ucast x = push_bit 8 w + ucast x"
    by (simp add: disjunctive_add_eq_or)
  moreover have "unat (push_bit 8 w) = unat w * 256"
    using w by (simp add: push_bit_eq_mult unat_word_ariths)
  moreover have "unat (ucast x :: u64) = unat x"
    using unat_byte_less[of x] by (simp add: unsigned_ucast_eq take_bit_nat_eq_self)
  ultimately show ?thesis
    using w unat_byte_less[of x] by (simp add: unat_word_ariths)
qed

lemma fold_bytes_value:
  "length bs \<le> 8 \<Longrightarrow>
     unat (foldl (\<lambda>w x. push_bit 8 w OR ucast x) (0 :: u64) (bs :: byte list)) = horner 256 (map unat bs)"
proof (induction bs rule: rev_induct)
  case (snoc x bs)
  have "horner 256 (map unat bs) < 256 ^ length bs"
    using horner_less[of "map unat bs" 256] unat_byte_less by auto
  also have "(256::nat) ^ length bs \<le> 256 ^ 7" using snoc.prems by (intro power_increasing) auto
  finally have "horner 256 (map unat bs) < 2 ^ 56" by simp
  with snoc show ?case by (simp add: unat_or_push)
qed simp

lemma map_unat_Uint64ToBytes: "map unat (Uint64ToBytes u) = low_digits 256 8 (unat u)"
proof -
  have b: "unat (ucast (drop_bit k u) :: byte) = unat u div 2 ^ k mod 256" for k
    by (simp add: unsigned_ucast_eq take_bit_eq_mod unat_drop_bit)
  show ?thesis
  proof (rule nth_equalityI)
    fix i
    assume "i < length (map unat (Uint64ToBytes u))"
    then have i: "i < 8" by (simp add: Uint64ToBytes_def)
    then have "56 - 8 * i = 8 * (7 - i)" by simp
    then have "(2::nat) ^ (56 - 8 * i) = 256 ^ (7 - i)" by (simp add: power_mult)
    with i show "map unat (Uint64ToBytes u) ! i = low_digits 256 8 (unat u) ! i"
      by (simp add: Uint64ToBytes_def b low_digits_nth)
  qed (simp add: Uint64ToBytes_def)
qed

text \<open>the eight big-endian bytes of a \<open>uint64\<close> determine it and every eight bytes are
  those of one: the two conversions are inverse to each other, and reading fewer than eight
  bytes panics.\<close>

theorem Uint64_bytes_roundtrip:
  "BytesToUint64 (Uint64ToBytes u) = Some u
   \<and> map_option Uint64ToBytes (BytesToUint64 b) = (if length b < 8 then None else Some (take 8 b))"
proof
  have unat_inj: "x = y" if "unat x = unat y" for x y :: u64
    using that by (rule unsigned_word_eqI)
  have len: "length (Uint64ToBytes v) = 8" for v by (simp add: Uint64ToBytes_def)
  have val: "horner 256 (map unat (Uint64ToBytes v)) = unat v" for v
    using unat_u64_less[of v] by (simp add: map_unat_Uint64ToBytes horner_low_digits)
  show "BytesToUint64 (Uint64ToBytes u) = Some u"
    by (simp add: BytesToUint64_def len unat_inj fold_bytes_value val)
  show "map_option Uint64ToBytes (BytesToUint64 b) = (if length b < 8 then None else Some (take 8 b))"
  proof (cases "length b < 8")
    case False
    let ?w = "foldl (\<lambda>w x. push_bit 8 w OR ucast x) (0 :: u64) (take 8 b)"
    have "map unat (Uint64ToBytes ?w) = map unat (take 8 b)"
      using False unat_byte_less low_digits_horner[of "map unat (take 8 b)" 256]
      by (simp add: map_unat_Uint64ToBytes fold_bytes_value)
    then have "Uint64ToBytes ?w = take 8 b"
      using map_injective[OF _ inj_unsigned] by blast
    with False show ?thesis by (simp add: BytesToUint64_def)
  qed (simp add: BytesToUint64_def)
qed

end
