(* ===== verification/Int_Math.thy ===== *)
theory Int_Math
  imports Go_Std
begin

text \<open>
  Package \<open>math\<close> (src/pkg/common/math): overflow-checked 64-bit arithmetic, the
  hex-or-decimal numbers, and the helpers on big integers. A \<open>big.Int\<close> method that writes
  its receiver returns the new value; \<open>Exp\<close>, which writes its argument \<open>base\<close>, returns
  that value too. The lemmas relate the word and byte loops to integer arithmetic.
\<close>

section \<open>integer.go\<close>

definition MaxUint64 :: u64 where
  "MaxUint64 = push_bit 64 1 - 1"

definition ParseUint64 :: "string \<Rightarrow> u64 \<times> bool" where
  "ParseUint64 s =
     (if s = [] then (0, True)
      else if length s \<ge> 2 \<and> (take 2 s = ''0x'' \<or> take 2 s = ''0X'')
      then let (v, err) = ParseUint (drop 2 s) 16 in (v, err = None)
      else let (v, err) = ParseUint s 10 in (v, err = None))"

text \<open>The panic of \<open>MustParseUint64\<close> is \<open>None\<close>.\<close>

definition MustParseUint64 :: "string \<Rightarrow> u64 option" where
  "MustParseUint64 s = (let (v, ok) = ParseUint64 s in if \<not> ok then None else Some v)"

definition HexOrDecimal64_UnmarshalText :: "u64 \<Rightarrow> string \<Rightarrow> u64 \<times> bool" where
  "HexOrDecimal64_UnmarshalText i input =
     (let (v, ok) = ParseUint64 input in if \<not> ok then (i, False) else (v, True))"

definition HexOrDecimal64_MarshalText :: "u64 \<Rightarrow> string" where
  "HexOrDecimal64_MarshalText i = ''0x'' @ FormatUint 16 i"

definition SafeSub :: "u64 \<Rightarrow> u64 \<Rightarrow> u64 \<times> bool" where
  "SafeSub x y = (x - y, x < y)"

definition SafeAdd :: "u64 \<Rightarrow> u64 \<Rightarrow> u64 \<times> bool" where
  "SafeAdd x y = (x + y, y > MaxUint64 - x)"

definition SafeMul :: "u64 \<Rightarrow> u64 \<Rightarrow> u64 \<times> bool" where
  "SafeMul x y = (if x = 0 \<or> y = 0 then (0, False) else (x * y, y > MaxUint64 div x))"

section \<open>big.go\<close>

definition BigPow :: "int \<Rightarrow> int \<Rightarrow> bigint" where
  "BigPow a b = (if b \<le> 0 then 1 else a ^ nat b)"

definition tt255 :: bigint where "tt255 = BigPow 2 255"
definition tt256 :: bigint where "tt256 = BigPow 2 256"
definition tt256m1 :: bigint where "tt256m1 = tt256 - 1"

definition wordBits :: nat where "wordBits = 64"
definition wordBytes :: nat where "wordBytes = wordBits div 8"

definition ParseBig256 :: "string \<Rightarrow> bigint option" where
  "ParseBig256 s =
     (if s = [] then Some 0
      else let bigint =
             (if length s \<ge> 2 \<and> (take 2 s = ''0x'' \<or> take 2 s = ''0X'')
              then big_SetString (drop 2 s) 16 else big_SetString s 10)
           in case bigint of
                None \<Rightarrow> None
              | Some x \<Rightarrow> if big_BitLen x > 256 then None else Some x)"

definition MustParseBig256 :: "string \<Rightarrow> bigint option" where
  "MustParseBig256 s = ParseBig256 s"

definition HexOrDecimal256_UnmarshalText :: "bigint \<Rightarrow> string \<Rightarrow> bigint \<times> bool" where
  "HexOrDecimal256_UnmarshalText i input =
     (case ParseBig256 input of None \<Rightarrow> (i, False) | Some x \<Rightarrow> (x, True))"

text \<open>A nil pointer marshals as zero.\<close>

definition HexOrDecimal256_MarshalText :: "bigint option \<Rightarrow> string" where
  "HexOrDecimal256_MarshalText i = (case i of None \<Rightarrow> ''0x0'' | Some x \<Rightarrow> big_hex x)"

definition BigMax :: "bigint \<Rightarrow> bigint \<Rightarrow> bigint" where
  "BigMax x y = (if x < y then y else x)"

definition BigMin :: "bigint \<Rightarrow> bigint \<Rightarrow> bigint" where
  "BigMin x y = (if x > y then y else x)"

function firstBit_loop :: "bigint \<Rightarrow> nat \<Rightarrow> nat" where
  "firstBit_loop v i =
     (if i < big_BitLen v then (if bit v i then i else firstBit_loop v (i + 1)) else big_BitLen v)"
  by pat_completeness auto
termination
  by (relation "measure (\<lambda>(v, i). big_BitLen v - i)") auto

declare firstBit_loop.simps [simp del]

definition FirstBitSet :: "bigint \<Rightarrow> nat" where
  "FirstBitSet v = firstBit_loop v 0"

text \<open>The two loops of \<open>ReadBits\<close>: the bytes of one word, from index \<open>i - 1\<close> downwards,
  then the words.\<close>

fun readWord :: "nat \<Rightarrow> u64 \<Rightarrow> nat \<Rightarrow> byte list \<Rightarrow> nat \<times> byte list" where
  "readWord 0 d i buf = (i, buf)"
| "readWord (Suc j) d i buf =
     (if i = 0 then (i, buf) else readWord j (drop_bit 8 d) (i - 1) (buf[i - 1 := ucast d]))"

fun readWords :: "u64 list \<Rightarrow> nat \<Rightarrow> byte list \<Rightarrow> byte list" where
  "readWords [] i buf = buf"
| "readWords (d # ds) i buf = (let (i', buf') = readWord wordBytes d i buf in readWords ds i' buf')"

definition ReadBits :: "bigint \<Rightarrow> byte list \<Rightarrow> byte list" where
  "ReadBits x buf = readWords (big_Bits x) (length buf) buf"

definition PaddedBigBytes :: "bigint \<Rightarrow> nat \<Rightarrow> byte list" where
  "PaddedBigBytes x n =
     (if big_BitLen x div 8 \<ge> n then big_Bytes x else ReadBits x (replicate n 0))"

definition bigEndianByteAt :: "bigint \<Rightarrow> nat \<Rightarrow> byte" where
  "bigEndianByteAt x n =
     (let words = big_Bits x; i = n div wordBytes in
      if i \<ge> length words then 0
      else ucast (drop_bit (8 * (n mod wordBytes)) (words ! i)))"

definition Byte :: "bigint \<Rightarrow> int \<Rightarrow> int \<Rightarrow> byte" where
  "Byte x padlength n = (if n \<ge> padlength then 0 else bigEndianByteAt x (nat (padlength - 1 - n)))"

definition U256 :: "bigint \<Rightarrow> bigint" where
  "U256 x = x AND tt256m1"

definition S256 :: "bigint \<Rightarrow> bigint" where
  "S256 x = (if x < tt255 then x else x - tt256)"

text \<open>The loops of \<open>Exp\<close>; the state is the pair of \<open>result\<close> and \<open>base\<close>.\<close>

fun exp_bits :: "nat \<Rightarrow> u64 \<Rightarrow> bigint \<times> bigint \<Rightarrow> bigint \<times> bigint" where
  "exp_bits 0 word s = s"
| "exp_bits (Suc i) word (result, base) =
     exp_bits i (drop_bit 1 word)
       (if word AND 1 = 1 then U256 (result * base) else result, U256 (base * base))"

fun exp_words :: "u64 list \<Rightarrow> bigint \<times> bigint \<Rightarrow> bigint \<times> bigint" where
  "exp_words [] s = s"
| "exp_words (word # words) s = exp_words words (exp_bits wordBits word s)"

definition Exp :: "bigint \<Rightarrow> bigint \<Rightarrow> bigint \<times> bigint" where
  "Exp base exponent = exp_words (big_Bits exponent) (1, base)"

definition MustStringToBigInt :: "string \<Rightarrow> bigint option" where
  "MustStringToBigInt str = big_SetString str 10"

section \<open>Overflow-checked arithmetic\<close>

lemma MaxUint64_eq: "MaxUint64 = - 1"
  by (simp add: MaxUint64_def push_bit_eq_mult)

text \<open>C36: the checked operations return the exact result modulo \<open>2^64\<close> and report an
  overflow exactly when the exact result is not representable.\<close>

theorem Safe_arithmetic_exact:
  "SafeAdd x y = (of_nat (unat x + unat y), 2 ^ 64 \<le> unat x + unat y)
   \<and> SafeSub x y = (of_int (int (unat x) - int (unat y)), int (unat x) - int (unat y) < 0)
   \<and> SafeMul x y = (of_nat (unat x * unat y), 2 ^ 64 \<le> unat x * unat y)"
proof (intro conjI)
  have "unat (MaxUint64 - x) = 18446744073709551615 - unat x"
    using unat_u64_le[of x] by (subst unat_sub) (simp_all add: MaxUint64_eq unat_u64_max word_le_nat_alt)
  then show "SafeAdd x y = (of_nat (unat x + unat y), 2 ^ 64 \<le> unat x + unat y)"
    using unat_u64_le[of x] by (auto simp: SafeAdd_def word_less_nat_alt)
  show "SafeSub x y = (of_int (int (unat x) - int (unat y)), int (unat x) - int (unat y) < 0)"
    by (simp add: SafeSub_def word_less_def)
  show "SafeMul x y = (of_nat (unat x * unat y), 2 ^ 64 \<le> unat x * unat y)"
  proof (cases "x = 0 \<or> y = 0")
    case True
    then show ?thesis by (auto simp: SafeMul_def)
  next
    case False
    then have "0 < unat x" by (simp add: unat_gt_0)
    have "y > MaxUint64 div x \<longleftrightarrow> 18446744073709551615 div unat x < unat y"
      by (simp add: word_less_nat_alt unat_div_distrib MaxUint64_eq unat_u64_max)
    also have "\<dots> \<longleftrightarrow> 18446744073709551615 < unat x * unat y"
      using \<open>0 < unat x\<close> by (simp add: div_less_iff_less_mult mult.commute)
    finally show ?thesis using False by (auto simp: SafeMul_def)
  qed
qed

section \<open>Hex-or-decimal numbers\<close>

abbreviation hex_prefixed :: "string \<Rightarrow> bool" where
  "hex_prefixed s \<equiv> length s \<ge> 2 \<and> (take 2 s = ''0x'' \<or> take 2 s = ''0X'')"

definition hex_or_decimal :: "string \<Rightarrow> nat option" where
  "hex_or_decimal s =
     (if s = [] then Some 0
      else if hex_prefixed s
      then (if drop 2 s = [] then None else map_option (horner 16) (numeral_of 16 (drop 2 s)))
      else map_option (horner 10) (numeral_of 10 s))"

lemma parse_flag_iff:
  "(let (v', err) = r in (v', err = None)) = (v :: u64, True) \<longleftrightarrow> r = (v, None :: num_error option)"
  by (cases r) auto

lemma ParseUint64_iff:
  "ParseUint64 s = (v, True) \<longleftrightarrow> (\<exists>n. hex_or_decimal s = Some n \<and> n < 2 ^ 64 \<and> v = of_nat n)"
proof (cases "s = []")
  case True
  then show ?thesis by (auto simp: ParseUint64_def hex_or_decimal_def)
next
  case False
  show ?thesis
  proof (cases "hex_prefixed s")
    case True
    have "ParseUint64 s = (v, True) \<longleftrightarrow> ParseUint (drop 2 s) 16 = (v, None)"
      by (simp only: ParseUint64_def if_not_P[OF False] if_P[OF True] parse_flag_iff)
    also have "\<dots> \<longleftrightarrow> (\<exists>n. hex_or_decimal s = Some n \<and> n < 2 ^ 64 \<and> v = of_nat n)"
      unfolding hex_or_decimal_def if_not_P[OF False] if_P[OF True] by (auto simp: ParseUint_ok_iff)
    finally show ?thesis .
  next
    case nohex: False
    have "ParseUint64 s = (v, True) \<longleftrightarrow> ParseUint s 10 = (v, None)"
      by (simp only: ParseUint64_def if_not_P[OF False] if_not_P[OF nohex] parse_flag_iff)
    also have "\<dots> \<longleftrightarrow> (\<exists>n. hex_or_decimal s = Some n \<and> n < 2 ^ 64 \<and> v = of_nat n)"
      unfolding hex_or_decimal_def if_not_P[OF False] if_not_P[OF nohex]
      using False by (auto simp: ParseUint_ok_iff)
    finally show ?thesis .
  qed
qed

text \<open>\<open>ParseUint64\<close> accepts exactly the decimal and the \<open>0x\<close> numerals (leading zeros
  allowed, the empty text is zero) below \<open>2^64\<close>, with their value; \<open>HexOrDecimal64\<close> reads
  back every value it prints and keeps its value when the text is rejected.\<close>

theorem ParseUint64_correct:
  "(ParseUint64 s = (v, True) \<longleftrightarrow> (\<exists>n. hex_or_decimal s = Some n \<and> n < 2 ^ 64 \<and> v = of_nat n))
   \<and> HexOrDecimal64_UnmarshalText i (HexOrDecimal64_MarshalText w) = (w, True)
   \<and> (snd (HexOrDecimal64_UnmarshalText i s) \<or> fst (HexOrDecimal64_UnmarshalText i s) = i)"
proof (intro conjI)
  have "hex_or_decimal (HexOrDecimal64_MarshalText w) = Some (unat w)"
    by (simp add: hex_or_decimal_def HexOrDecimal64_MarshalText_def numeral_of_FormatUint)
  then have "ParseUint64 (HexOrDecimal64_MarshalText w) = (w, True)"
    using unat_u64_less[of w] by (simp add: ParseUint64_iff)
  then show "HexOrDecimal64_UnmarshalText i (HexOrDecimal64_MarshalText w) = (w, True)"
    by (simp add: HexOrDecimal64_UnmarshalText_def)
  show "snd (HexOrDecimal64_UnmarshalText i s) \<or> fst (HexOrDecimal64_UnmarshalText i s) = i"
    by (auto simp: HexOrDecimal64_UnmarshalText_def split: prod.splits)
qed (rule ParseUint64_iff)

section \<open>Two's complement\<close>

lemma tt_eqs: "tt255 = 2 ^ 255" "tt256 = 2 ^ 256" "tt256m1 = 2 ^ 256 - 1"
  by (simp_all add: tt255_def tt256_def tt256m1_def BigPow_def)

lemma U256_mod: "U256 x = x mod 2 ^ 256"
proof -
  have "tt256m1 = mask 256" by (simp add: tt_eqs mask_eq_exp_minus_1)
  then have "U256 x = take_bit 256 x" by (simp add: U256_def take_bit_eq_mask)
  then show ?thesis by (simp only: take_bit_eq_mod)
qed

text \<open>\<open>U256\<close> is reduction modulo \<open>2^256\<close> and \<open>S256\<close> after it reads the 256 bits
  as two's complement: the result is congruent to the argument and lies in
  \<open>[-2^255, 2^255)\<close>, so both agree with the unsigned and the signed value of a 256-bit word.\<close>

theorem U256_S256_twos_complement:
  "U256 x = uint (of_int x :: 256 word) \<and> S256 (U256 x) = sint (of_int x :: 256 word)
   \<and> - (2 ^ 255) \<le> S256 (U256 x) \<and> S256 (U256 x) < 2 ^ 255"
proof -
  have u: "U256 x = uint (of_int x :: 256 word)"
    by (simp add: U256_mod uint_word_of_int)
  have s: "S256 (U256 x) = sint (of_int x :: 256 word)"
  proof -
    have "sint (of_int x :: 256 word) = signed_take_bit 255 x"
      by (simp add: signed_of_int)
    also have "\<dots> = (x mod 2 ^ 256 + 2 ^ 255) mod 2 ^ 256 - 2 ^ 255"
      by (simp add: signed_take_bit_eq_take_bit_shift take_bit_eq_mod mod_simps)
    also have "\<dots> = S256 (U256 x)"
    proof (cases "x mod 2 ^ 256 < 2 ^ 255")
      case True
      moreover have "0 \<le> x mod 2 ^ 256" by simp
      ultimately have "(x mod 2 ^ 256 + 2 ^ 255) mod 2 ^ 256 = x mod 2 ^ 256 + 2 ^ 255"
        by (intro mod_pos_pos_trivial) auto
      with True show ?thesis by (simp add: S256_def U256_mod tt_eqs)
    next
      case False
      have "x mod 2 ^ 256 < 2 ^ 256" by simp
      with False have "(x mod 2 ^ 256 + 2 ^ 255 - 2 ^ 256) mod 2 ^ 256 = x mod 2 ^ 256 + 2 ^ 255 - 2 ^ 256"
        by (intro mod_pos_pos_trivial) auto
      then have "(x mod 2 ^ 256 + 2 ^ 255) mod 2 ^ 256 = x mod 2 ^ 256 + 2 ^ 255 - 2 ^ 256"
        by (metis minus_mod_self2)
      with False show ?thesis by (simp add: S256_def U256_mod tt_eqs)
    qed
    finally show ?thesis by simp
  qed
  have "- (2 ^ 255) \<le> sint (of_int x :: 256 word)" "sint (of_int x :: 256 word) < 2 ^ 255"
    using sint_greater_eq[of "of_int x :: 256 word"] sint_less[of "of_int x :: 256 word"] by simp_all
  with u s show ?thesis by simp
qed

section \<open>Exponentiation\<close>

abbreviation M256 :: int where "M256 \<equiv> 2 ^ 256"

lemma mult_power_cong:
  fixes m :: int
  assumes "a mod m = a' mod m" and "b mod m = b' mod m"
  shows "a * b ^ n mod m = a' * b' ^ n mod m"
proof -
  have "b ^ n mod m = b' ^ n mod m" by (metis assms(2) power_mod)
  with assms(1) show ?thesis by (rule mod_mult_cong)
qed

lemma power_cong_mod: "b mod m = b' mod m \<Longrightarrow> b ^ n mod m = b' ^ n mod (m :: int)"
  using mult_power_cong[of 1 m 1 b b' n] by simp

lemma exp_bits_spec:
  "fst (exp_bits k w (r, b)) mod M256 = r * b ^ (unat w mod 2 ^ k) mod M256
   \<and> snd (exp_bits k w (r, b)) mod M256 = b ^ (2 ^ k) mod M256"
proof (induction k arbitrary: w r b)
  case 0
  then show ?case by simp
next
  case (Suc k)
  define r' where "r' = (if w AND 1 = 1 then U256 (r * b) else r)"
  have odd: "w AND 1 = 1 \<longleftrightarrow> odd (unat w)"
  proof -
    have "w AND 1 = 1 \<longleftrightarrow> odd w" by (simp add: and_one_eq mod2_eq_if)
    moreover have "odd w \<longleftrightarrow> odd (unat w)" by (simp add: bit_unsigned_iff flip: bit_0)
    ultimately show ?thesis by simp
  qed
  have e: "unat w mod 2 ^ Suc k = 2 * (unat (drop_bit 1 w) mod 2 ^ k) + unat w mod 2"
    by (simp add: unat_drop_bit mod_mult2_eq)
  have r': "r' mod M256 = r * b ^ (unat w mod 2) mod M256"
    by (auto simp: r'_def odd U256_mod odd_iff_mod_2_eq_one)
  have sq: "U256 (b * b) mod M256 = b ^ 2 mod M256" by (simp add: U256_mod power2_eq_square)
  have step: "exp_bits (Suc k) w (r, b) = exp_bits k (drop_bit 1 w) (r', U256 (b * b))"
    by (simp add: r'_def)
  note IH = Suc[of "drop_bit 1 w" r' "U256 (b * b)", folded step]
  have "r' * U256 (b * b) ^ (unat (drop_bit 1 w) mod 2 ^ k) mod M256
      = (r * b ^ (unat w mod 2)) * (b ^ 2) ^ (unat (drop_bit 1 w) mod 2 ^ k) mod M256"
    by (rule mult_power_cong[OF r' sq])
  also have "\<dots> = r * b ^ (unat w mod 2 ^ Suc k) mod M256"
    by (simp only: e power_add power_mult mult.assoc mult.commute)
  finally have "r' * U256 (b * b) ^ (unat (drop_bit 1 w) mod 2 ^ k) mod M256
      = r * b ^ (unat w mod 2 ^ Suc k) mod M256" .
  moreover have "U256 (b * b) ^ 2 ^ k mod M256 = b ^ (2 ^ Suc k) mod M256"
    using power_cong_mod[OF sq, of "2 ^ k"] by (simp only: power_mult[symmetric] power_Suc)
  ultimately show ?case using IH by (simp only:)
qed

text \<open>Once reduced, both components stay reduced.\<close>

definition reduced :: "bigint \<Rightarrow> bool" where
  "reduced x \<longleftrightarrow> 0 \<le> x \<and> x < M256"

lemma reduced_U256 [simp]: "reduced (U256 x)"
  by (simp add: reduced_def U256_mod)

lemma reduced_mod: "reduced x \<Longrightarrow> x mod M256 = x"
  by (simp add: reduced_def)

lemma exp_bits_reduced:
  "reduced r \<Longrightarrow> reduced (fst (exp_bits k w (r, b)))"
  "0 < k \<Longrightarrow> reduced (snd (exp_bits k w (r, b)))"
proof -
  show "reduced r \<Longrightarrow> reduced (fst (exp_bits k w (r, b)))"
    by (induction k arbitrary: w r b) simp_all
  have keep: "reduced b \<Longrightarrow> reduced (snd (exp_bits k w (r, b)))" for k w r b
    by (induction k arbitrary: w r b) simp_all
  show "0 < k \<Longrightarrow> reduced (snd (exp_bits k w (r, b)))"
    by (cases k) (simp_all add: keep)
qed

lemma exp_words_spec:
  assumes "reduced r"
  shows "reduced (fst (exp_words ws (r, b)))
    \<and> fst (exp_words ws (r, b)) mod M256 = r * b ^ words_val ws mod M256
    \<and> snd (exp_words ws (r, b)) mod M256 = b ^ (2 ^ (64 * length ws)) mod M256
    \<and> (ws \<noteq> [] \<longrightarrow> reduced (snd (exp_words ws (r, b))))"
  using assms
proof (induction ws arbitrary: r b)
  case Nil
  then show ?case by simp
next
  case (Cons w ws)
  obtain r1 b1 where s1: "exp_bits wordBits w (r, b) = (r1, b1)" by fastforce
  have r1: "reduced r1" "reduced b1"
    using exp_bits_reduced(1)[OF Cons.prems, of wordBits w b] exp_bits_reduced(2)[of wordBits w r b] s1
    by (simp_all add: wordBits_def)
  have v1: "r1 mod M256 = r * b ^ unat w mod M256" "b1 mod M256 = b ^ 2 ^ 64 mod M256"
  proof -
    have "unat w mod 2 ^ 64 = unat w" using unat_u64_less[of w] by simp
    with exp_bits_spec[of 64 w r b] s1[unfolded wordBits_def]
    show "r1 mod M256 = r * b ^ unat w mod M256" "b1 mod M256 = b ^ 2 ^ 64 mod M256"
      by (simp_all only: fst_conv snd_conv)
  qed
  note IH = Cons.IH[OF r1(1), of b1]
  have "fst (exp_words (w # ws) (r, b)) mod M256 = r1 * b1 ^ words_val ws mod M256"
    using IH s1 by simp
  also have "\<dots> = (r * b ^ unat w) * (b ^ 2 ^ 64) ^ words_val ws mod M256"
    by (rule mult_power_cong[OF v1])
  also have "\<dots> = r * b ^ words_val (w # ws) mod M256"
    by (simp only: words_val.simps power_add power_mult mult.assoc)
  finally have 1: "fst (exp_words (w # ws) (r, b)) mod M256 = r * b ^ words_val (w # ws) mod M256" .
  have "snd (exp_words (w # ws) (r, b)) mod M256 = (b ^ 2 ^ 64) ^ 2 ^ (64 * length ws) mod M256"
    using IH s1 power_cong_mod[OF v1(2)] by (simp only: exp_words.simps)
  also have "\<dots> = b ^ 2 ^ (64 * length (w # ws)) mod M256"
    by (simp only: power_mult[symmetric] power_add[symmetric] list.size(4)) (simp add: algebra_simps)
  finally have 2: "snd (exp_words (w # ws) (r, b)) mod M256 = b ^ 2 ^ (64 * length (w # ws)) mod M256" .
  have "reduced (snd (exp_words (w # ws) (r, b)))"
    using IH s1 r1 by (cases ws) simp_all
  with 1 2 IH s1 show ?case by simp
qed

text \<open>C35: \<open>Exp\<close> computes \<open>base^|exponent|\<close> modulo \<open>2^256\<close>, for every base and exponent
  and however many words the exponent has. It also overwrites its argument: unless the
  exponent is zero, \<open>base\<close> is left as its \<open>2^(64 n)\<close>-th power modulo \<open>2^256\<close>, where \<open>n\<close>
  is the number of words of the exponent.\<close>

theorem Exp_correct:
  "fst (Exp base e) = base ^ nat \<bar>e\<bar> mod 2 ^ 256
   \<and> snd (Exp base e) =
      (if e = 0 then base else base ^ (2 ^ (64 * length (big_Bits e))) mod 2 ^ 256)"
proof -
  have one: "reduced 1" by (simp add: reduced_def)
  note spec = exp_words_spec[OF one, of "big_Bits e" base]
  have "big_Bits e = [] \<longleftrightarrow> e = 0"
    by (simp add: big_Bits_def nat_words.simps[of "nat \<bar>e\<bar>"])
  then show ?thesis
    using spec reduced_mod[of "fst (Exp base e)"] reduced_mod[of "snd (Exp base e)"]
    by (cases "e = 0") (simp_all add: Exp_def big_Bits_def)
qed

section \<open>Big-endian bytes\<close>

lemma ucast_byte: "(ucast (d :: u64) :: byte) = of_nat (unat d mod 256)"
proof -
  have "unat (ucast d :: byte) = unat d mod 256"
    by (simp add: unsigned_ucast_eq take_bit_eq_mod)
  moreover have "unat (of_nat (unat d mod 256) :: byte) = unat d mod 256"
    by (rule unat_of_nat_byte) simp
  ultimately show ?thesis by (metis unsigned_word_eqI)
qed

lemma map_unat_of_nat: "\<forall>d \<in> set ds. d < 256 \<Longrightarrow> map (unat \<circ> (of_nat :: nat \<Rightarrow> byte)) ds = ds"
  by (induction ds) (simp_all add: unat_of_nat_byte)

text \<open>The inner loop writes the low digits of one word in front of what is already there.\<close>

lemma readWord_eq:
  "readWord j d (length pre) (pre @ suf) =
     (let m = min (length pre) j in
      (length pre - m, take (length pre - m) pre @ map of_nat (low_digits 256 m (unat d)) @ suf))"
proof (induction j arbitrary: d pre suf)
  case 0
  then show ?case by simp
next
  case (Suc j)
  show ?case
  proof (cases pre rule: rev_cases)
    case Nil
    then show ?thesis by simp
  next
    case (snoc p x)
    have "readWord (Suc j) d (length pre) (pre @ suf)
        = readWord j (drop_bit 8 d) (length p) (p @ (ucast d # suf))"
      by (simp add: snoc)
    then show ?thesis
      using Suc[of "drop_bit 8 d" p "ucast d # suf"]
      by (simp add: snoc Let_def ucast_byte unat_drop_bit)
  qed
qed

lemma readWords_eq:
  "readWords ws (length pre) (pre @ suf) =
     (let m = min (length pre) (8 * length ws) in
      take (length pre - m) pre @ map of_nat (low_digits 256 m (words_val ws)) @ suf)"
proof (induction ws arbitrary: pre suf)
  case Nil
  then show ?case by simp
next
  case (Cons d ws)
  let ?n = "unat d + 2 ^ 64 * words_val ws"
  have b: "(256::nat) ^ 8 = 2 ^ 64" by simp
  show ?case
  proof (cases "length pre \<le> 8")
    case True
    have "(2::nat) ^ 64 = 256 ^ length pre * 256 ^ (8 - length pre)"
      using True by (simp only: b[symmetric] power_add[symmetric]) simp
    then have "?n mod 256 ^ length pre = unat d mod 256 ^ length pre"
      by (simp add: mod_mult_right_eq mult.assoc del: power_mult_distrib) (metis mod_mult_self2 mult.assoc)
    then have "low_digits 256 (length pre) ?n = low_digits 256 (length pre) (unat d)"
      by (intro low_digits_cong) auto
    moreover have "readWords ws 0 (xs @ suf) = xs @ suf" for xs
      using Cons[of "[]" "xs @ suf"] by simp
    ultimately show ?thesis
      using True by (simp add: wordBytes_def wordBits_def readWord_eq Let_def)
  next
    case False
    let ?p = "take (length pre - 8) pre" and ?m = "min (length pre - 8) (8 * length ws)"
    have m: "min (length pre) (8 * length (d # ws)) = ?m + 8" using False by simp
    have "unat d < 2 ^ 64" by (rule unat_u64_less)
    then have q: "?n div 256 ^ 8 = words_val ws" and r: "?n mod 256 ^ 8 = unat d mod 256 ^ 8"
      unfolding b by simp_all
    have "low_digits 256 (?m + 8) ?n = low_digits 256 ?m (words_val ws) @ low_digits 256 8 (unat d)"
      using low_digits_cong[OF _ r] by (simp only: low_digits_add q)
    moreover have "readWords (d # ws) (length pre) (pre @ suf)
        = readWords ws (length ?p) (?p @ map of_nat (low_digits 256 8 (unat d)) @ suf)"
      using False by (simp add: wordBytes_def wordBits_def readWord_eq Let_def)
    moreover have "readWords ws (length ?p) (?p @ map of_nat (low_digits 256 8 (unat d)) @ suf)
        = take (length pre - (?m + 8)) pre @ map of_nat (low_digits 256 ?m (words_val ws))
          @ map of_nat (low_digits 256 8 (unat d)) @ suf"
    proof -
      have lp: "length ?p = length pre - 8" by simp
      have "take (length pre - 8 - ?m) ?p = take (length pre - (?m + 8)) pre"
        by (simp add: take_take diff_diff_eq add.commute)
      then show ?thesis
        using Cons[of ?p "map of_nat (low_digits 256 8 (unat d)) @ suf"] by (simp only: lp Let_def)
    qed
    ultimately show ?thesis by (simp only: m Let_def words_val.simps map_append append_assoc)
  qed
qed

lemma ReadBits_eq:
  "ReadBits x buf =
     (let m = min (length buf) (8 * length (big_Bits x)) in
      take (length buf - m) buf @ map of_nat (low_digits 256 m (nat \<bar>x\<bar>)))"
  using readWords_eq[of "big_Bits x" buf "[]"] by (simp add: ReadBits_def big_Bits_def)

lemma ReadBits_zeros: "map unat (ReadBits x (replicate n 0)) = low_digits 256 n (nat \<bar>x\<bar>)"
proof (cases "n \<le> 8 * length (big_Bits x)")
  case True
  then show ?thesis
    by (simp add: ReadBits_eq Let_def map_unat_of_nat low_digits_less)
next
  case False
  let ?k = "8 * length (big_Bits x)"
  have less: "nat \<bar>x\<bar> < 256 ^ ?k"
    using words_val_less[of "big_Bits x"] by (simp add: big_Bits_def power_mult)
  have n: "n = (n - ?k) + ?k" using False by simp
  have "low_digits 256 ((n - ?k) + ?k) (nat \<bar>x\<bar>) = low_digits 256 (n - ?k) 0 @ low_digits 256 ?k (nat \<bar>x\<bar>)"
    using less by (simp add: low_digits_add)
  moreover have "low_digits 256 j 0 = replicate j 0" for j
    by (induction j) (simp_all add: replicate_append_same)
  ultimately show ?thesis
    using False n by (simp add: ReadBits_eq Let_def map_unat_of_nat low_digits_less)
qed

lemma length_PaddedBigBytes: "length (PaddedBigBytes x n) = max n (length (big_Bytes x))"
proof (cases "big_BitLen x div 8 \<ge> n")
  case True
  have "n \<le> length (big_Bytes x)"
  proof (rule ccontr)
    assume short: "\<not> n \<le> length (big_Bytes x)"
    then have "nat \<bar>x\<bar> < 256 ^ (n - 1)"
      unfolding length_nat_bytes_le_iff[symmetric] by (simp add: big_Bytes_def)
    also have "(256::nat) ^ (n - 1) = 2 ^ (8 * (n - 1))" by (simp add: power_mult)
    finally have "big_BitLen x \<le> 8 * (n - 1)" by (simp add: big_BitLen_def nat_bitlen_le_iff)
    with True short show False by linarith
  qed
  with True show ?thesis by (simp add: PaddedBigBytes_def)
next
  case False
  then have "big_BitLen x \<le> 8 * n" by linarith
  then have "nat \<bar>x\<bar> < 2 ^ (8 * n)" by (simp only: big_BitLen_def nat_bitlen_le_iff)
  then have "length (big_Bytes x) \<le> n"
    by (simp add: big_Bytes_def length_nat_bytes_le_iff power_mult)
  with False show ?thesis by (simp add: PaddedBigBytes_def ReadBits_eq Let_def)
qed

lemma PaddedBigBytes_value: "horner 256 (map unat (PaddedBigBytes x n)) = nat \<bar>x\<bar>"
proof (cases "big_BitLen x div 8 \<ge> n")
  case False
  then have "big_BitLen x \<le> 8 * n" by linarith
  then have "nat \<bar>x\<bar> < 256 ^ n" by (simp add: big_BitLen_def nat_bitlen_le_iff power_mult)
  with False show ?thesis by (simp add: PaddedBigBytes_def ReadBits_zeros horner_low_digits)
qed (simp add: PaddedBigBytes_def big_Bytes_def)

lemma byte_of_low_word:
  assumes "s \<le> 56"
  shows "(q :: nat) mod 2 ^ 64 div 2 ^ s mod 256 = q div 2 ^ s mod 256"
proof -
  have "take_bit 8 (drop_bit s (take_bit 64 q)) = take_bit 8 (drop_bit s q)"
    using assms by (simp add: drop_bit_take_bit)
  then show ?thesis by (simp add: take_bit_eq_mod drop_bit_eq_div)
qed

lemma bigEndianByteAt_value: "unat (bigEndianByteAt x k) = nat \<bar>x\<bar> div 256 ^ k mod 256"
proof -
  let ?q = "nat \<bar>x\<bar> div 2 ^ (64 * (k div 8))"
  have e: "8 * k = 64 * (k div 8) + 8 * (k mod 8)" by presburger
  have "(256::nat) ^ k = 2 ^ (8 * k)" by (simp add: power_mult)
  also have "\<dots> = 2 ^ (64 * (k div 8)) * 2 ^ (8 * (k mod 8))" by (subst e) (rule power_add)
  finally have k: "nat \<bar>x\<bar> div 256 ^ k = ?q div 2 ^ (8 * (k mod 8))" by (simp only: div_mult2_eq)
  show ?thesis
  proof (cases "k div 8 \<ge> length (big_Bits x)")
    case True
    then have "?q = 0" by (intro nat_words_beyond) (simp add: big_Bits_def)
    with True k show ?thesis by (simp add: bigEndianByteAt_def wordBytes_def wordBits_def)
  next
    case False
    then have "unat (bigEndianByteAt x k) = ?q mod 2 ^ 64 div 2 ^ (8 * (k mod 8)) mod 256"
      using nat_words_nth[of "k div 8" "nat \<bar>x\<bar>"]
      by (simp add: bigEndianByteAt_def wordBytes_def wordBits_def big_Bits_def unsigned_ucast_eq
          take_bit_eq_mod unat_drop_bit)
    also have "\<dots> = ?q div 2 ^ (8 * (k mod 8)) mod 256" by (rule byte_of_low_word) simp
    finally show ?thesis by (simp only: k)
  qed
qed

text \<open>the byte encodings of a big integer. \<open>PaddedBigBytes\<close> is the minimal big-endian
  encoding of the absolute value with zero bytes in front up to the requested length;
  \<open>ReadBits\<close> into a zeroed buffer of any size stores the value modulo \<open>256^n\<close>, and \<open>Byte\<close>
  indexes the padded encoding from its most significant end.\<close>

theorem big_bytes_spec:
  "PaddedBigBytes x n = replicate (n - length (big_Bytes x)) 0 @ big_Bytes x
   \<and> big_SetBytes (ReadBits x (replicate n 0)) = \<bar>x\<bar> mod 256 ^ n
   \<and> unat (Byte x p i) = (if i \<ge> p then 0 else nat \<bar>x\<bar> div 256 ^ nat (p - 1 - i) mod 256)"
proof (intro conjI)
  show "PaddedBigBytes x n = replicate (n - length (big_Bytes x)) 0 @ big_Bytes x"
    by (rule bytes_eqI)
      (simp_all add: length_PaddedBigBytes PaddedBigBytes_value big_Bytes_def)
  show "big_SetBytes (ReadBits x (replicate n 0)) = \<bar>x\<bar> mod 256 ^ n"
    by (simp add: big_SetBytes_def ReadBits_zeros horner_low_digits zmod_int)
  show "unat (Byte x p i) = (if i \<ge> p then 0 else nat \<bar>x\<bar> div 256 ^ nat (p - 1 - i) mod 256)"
    by (simp add: Byte_def bigEndianByteAt_value)
qed

section \<open>The first bit\<close>

lemma firstBit_loop_eq:
  assumes "bit v k" and "\<forall>j < k. \<not> bit v j" and "k < big_BitLen v" and "i \<le> k"
  shows "firstBit_loop v i = k"
  using assms
proof (induction v i rule: firstBit_loop.induct)
  case (1 v i)
  show ?case
  proof (cases "i = k")
    case True
    with 1(2-5) show ?thesis by (simp add: firstBit_loop.simps[of v k])
  next
    case False
    with 1(2-5) have "i < big_BitLen v" "\<not> bit v i" "i + 1 \<le> k" by auto
    with 1 show ?thesis by (simp add: firstBit_loop.simps[of v i])
  qed
qed

text \<open>The lowest set bit of a non-zero number lies below its bit length, also for negative
  numbers in two's complement.\<close>

lemma lowest_bit:
  assumes "v \<noteq> (0 :: int)"
  shows "\<exists>k < big_BitLen v. bit v k \<and> (\<forall>j < k. \<not> bit v j)"
proof -
  obtain n where "bit v n" using assms by (metis bit_0_eq bit_eqI bot_apply bot_bool_def)
  define k where "k = (LEAST k. bit v k)"
  have k: "bit v k" unfolding k_def using \<open>bit v n\<close> by (rule LeastI)
  have below: "\<forall>j < k. \<not> bit v j" unfolding k_def using not_less_Least by blast
  have "take_bit k v = 0" using below by (auto simp: bit_eq_iff bit_take_bit_iff)
  then have "2 ^ k dvd v" by (simp add: take_bit_eq_0_iff)
  then have "2 ^ k \<le> \<bar>v\<bar>" using assms dvd_imp_le_int[of v "2 ^ k"] by simp
  then have "k < big_BitLen v" using big_BitLen_le_iff[of v k] by linarith
  with k below show ?thesis by blast
qed

text \<open>\<open>FirstBitSet\<close> returns the index of the lowest one bit of every non-zero number,
  and zero for zero.\<close>

theorem FirstBitSet_lowest:
  "if v = 0 then FirstBitSet v = 0
   else bit v (FirstBitSet v) \<and> 2 ^ FirstBitSet v dvd v \<and> \<not> 2 ^ Suc (FirstBitSet v) dvd v"
proof (cases "v = 0")
  case True
  have "big_BitLen 0 = 0" by simp
  with True show ?thesis by (simp only: FirstBitSet_def firstBit_loop.simps[of 0 0]) simp
next
  case False
  then obtain k where k: "k < big_BitLen v" "bit v k" "\<forall>j < k. \<not> bit v j"
    using lowest_bit by blast
  then have "FirstBitSet v = k" by (simp add: FirstBitSet_def firstBit_loop_eq)
  moreover have "2 ^ k dvd v"
    using k(3) by (auto simp: bit_eq_iff bit_take_bit_iff simp flip: take_bit_eq_0_iff)
  moreover have "\<not> 2 ^ Suc k dvd v"
  proof
    assume "2 ^ Suc k dvd v"
    then have "take_bit (Suc k) v = 0" by (simp only: take_bit_eq_0_iff)
    then have "\<not> bit v k" by (metis bit_take_bit_iff bit_0_eq bot_apply bot_bool_def lessI)
    with k(2) show False by simp
  qed
  ultimately show ?thesis using False k(2) by simp
qed

section \<open>The 64-bit numbers as a codec\<close>

interpretation hex_or_decimal64: text_codec HexOrDecimal64_MarshalText
  "\<lambda>s. let (v, ok) = HexOrDecimal64_UnmarshalText 0 s in if ok then Inr v else Inl ()" "\<lambda>_. True"
proof
  fix w :: u64
  have "hex_or_decimal (HexOrDecimal64_MarshalText w) = Some (unat w)"
    by (simp add: hex_or_decimal_def HexOrDecimal64_MarshalText_def numeral_of_FormatUint)
  then have "ParseUint64 (HexOrDecimal64_MarshalText w) = (w, True)"
    using unat_u64_less[of w] by (simp add: ParseUint64_iff)
  then show "(let (v, ok) = HexOrDecimal64_UnmarshalText 0 (HexOrDecimal64_MarshalText w)
      in if ok then Inr v else Inl ()) = Inr w"
    by (simp add: HexOrDecimal64_UnmarshalText_def)
qed

end
