(* ===== verification/Rpc_Types.thy ===== *)
theory Rpc_Types
  imports Hexutil
begin

text \<open>
  Package \<open>types\<close> (src/pkg/types): the RPC errors with their JSON-RPC codes, the raw RPC
  request, the API descriptor, and the 32-byte \<open>Hash\<close> with its conversions. A \<open>Hash\<close> is
  the list of its bytes; \<open>is_hash\<close> is its type invariant.
\<close>

section \<open>error.go\<close>

datatype rpc_error =
    MethodNotFoundError string string
  | InvalidRequestError string
  | InvalidMessageError string
  | InvalidParamsError string
  | CallbackError string
  | ShutdownError

fun ErrorCode :: "rpc_error \<Rightarrow> int" where
  "ErrorCode (MethodNotFoundError service method) = - 32601"
| "ErrorCode (InvalidRequestError m) = - 32600"
| "ErrorCode (InvalidMessageError m) = - 32700"
| "ErrorCode (InvalidParamsError m) = - 32602"
| "ErrorCode (CallbackError m) = - 32000"
| "ErrorCode ShutdownError = - 32000"

fun rpc_error_msg :: "rpc_error \<Rightarrow> string" where
  "rpc_error_msg (MethodNotFoundError service method) =
     ''The method '' @ service @ ''_'' @ method @ '' does not exist/is not available''"
| "rpc_error_msg (InvalidRequestError m) = m"
| "rpc_error_msg (InvalidMessageError m) = m"
| "rpc_error_msg (InvalidParamsError m) = m"
| "rpc_error_msg (CallbackError m) = m"
| "rpc_error_msg ShutdownError = ''server is shutting down''"

section \<open>types.go: requests and descriptors\<close>

text \<open>
  The fields of type \<open>interface{}\<close> are type parameters: the request id, the parameters
  (absent when the interface is nil) and the service receiver.
\<close>

record ('id, 'params) RpcRequest =
  rq_Service :: string
  rq_Method :: string
  rq_Id :: 'id
  rq_IsPubSub :: bool
  rq_Params :: "'params option"
  rq_Err :: "rpc_error option"

record 'rcvr API =
  api_Namespace :: string
  api_Version :: string
  api_Service :: 'rcvr
  api_Public :: bool

section \<open>types.go: Hash\<close>

definition HashLength :: nat where "HashLength = 32"

definition is_hash :: "byte list \<Rightarrow> bool" where
  "is_hash h \<longleftrightarrow> length h = HashLength"

definition zero_hash :: "byte list" where
  "zero_hash = replicate HashLength 0"

definition Hash_SetBytes :: "byte list \<Rightarrow> byte list \<Rightarrow> byte list" where
  "Hash_SetBytes h b =
     (let b = (if length b > length h then drop (length b - HashLength) b else b)
      in take (HashLength - length b) h @ b)"

definition BytesToHash :: "byte list \<Rightarrow> byte list" where
  "BytesToHash b = Hash_SetBytes zero_hash b"

definition BigToHash :: "bigint \<Rightarrow> byte list" where
  "BigToHash b = BytesToHash (big_Bytes b)"

text \<open>\<open>FromHex\<close> of this package drops the prefix and returns the characters themselves.\<close>

definition types_FromHex :: "string \<Rightarrow> byte list" where
  "types_FromHex s =
     (let b = map of_char s in if HasPrefix s ''0x'' then drop 2 b else b)"

definition HexToHash :: "string \<Rightarrow> byte list" where
  "HexToHash s = BytesToHash (types_FromHex s)"

definition Hash_Big :: "byte list \<Rightarrow> bigint" where
  "Hash_Big h = big_SetBytes h"

definition Hash_Hex :: "byte list \<Rightarrow> string" where
  "Hash_Hex h = Encode h"

text \<open>The ellipsis between the two halves is one rune of three bytes.\<close>

definition Hash_TerminalString :: "byte list \<Rightarrow> string" where
  "Hash_TerminalString h =
     hex_Encode (take 3 h) @ [CHR 0xE2, CHR 0x80, CHR 0xA6] @ hex_Encode (drop 29 h)"

definition Hash_String :: "byte list \<Rightarrow> string" where
  "Hash_String h = Hash_Hex h"

definition Hash_UnmarshalText :: "byte list \<Rightarrow> string \<Rightarrow> byte list \<times> text_error option" where
  "Hash_UnmarshalText h input = UnmarshalFixedText ''Hash'' input h"

definition Hash_UnmarshalJSON :: "byte list \<Rightarrow> string \<Rightarrow> byte list \<times> json_error option" where
  "Hash_UnmarshalJSON h input = UnmarshalFixedJSON ''types.Hash'' input h"

definition Hash_MarshalText :: "byte list \<Rightarrow> string" where
  "Hash_MarshalText h = Bytes_MarshalText h"

definition UnprefixedHash_UnmarshalText :: "byte list \<Rightarrow> string \<Rightarrow> byte list \<times> text_error option" where
  "UnprefixedHash_UnmarshalText h input = UnmarshalFixedUnprefixedText ''UnprefixedHash'' input h"

definition UnprefixedHash_MarshalText :: "byte list \<Rightarrow> string" where
  "UnprefixedHash_MarshalText h = hex_Encode h"

text \<open>
  \<open>Generate\<close> overwrites the bytes after position \<open>m\<close> from the end, \<open>m\<close> being the number that the
  generator draws below the length; \<open>rnd j\<close> is the byte of its j-th following draw.
\<close>

fun generate_loop :: "nat \<Rightarrow> nat \<Rightarrow> (nat \<Rightarrow> byte) \<Rightarrow> nat \<Rightarrow> byte list \<Rightarrow> byte list" where
  "generate_loop 0 m rnd j h = h"
| "generate_loop (Suc i) m rnd j h =
     (if Suc i > m then generate_loop i m rnd (Suc j) (h[Suc i := rnd j]) else h)"

definition Hash_Generate :: "nat \<Rightarrow> (nat \<Rightarrow> byte) \<Rightarrow> byte list \<Rightarrow> byte list" where
  "Hash_Generate m rnd h = generate_loop (length h - 1) m rnd 0 h"

definition Hash_Bytes :: "byte list \<Rightarrow> byte list" where
  "Hash_Bytes h = h"

section \<open>Error codes\<close>

fun error_kind :: "rpc_error \<Rightarrow> nat" where
  "error_kind (InvalidMessageError m) = 0"
| "error_kind (InvalidRequestError m) = 1"
| "error_kind (MethodNotFoundError s m) = 2"
| "error_kind (InvalidParamsError m) = 3"
| "error_kind (CallbackError m) = 4"
| "error_kind ShutdownError = 4"

text \<open>the codes keep the kinds of errors apart that a JSON-RPC client must tell apart:
  two errors have the same code exactly when they are of the same kind, except that a failed
  callback and a shutdown share the server-error code; every code lies in the range that
  JSON-RPC reserves.\<close>

theorem ErrorCode_kinds:
  "(ErrorCode e = ErrorCode e' \<longleftrightarrow> error_kind e = error_kind e')
   \<and> - 32768 \<le> ErrorCode e \<and> ErrorCode e \<le> - 32000"
  by (cases e; cases e') simp_all

section \<open>Conversions of hashes\<close>

lemma is_hash_zero [simp]: "is_hash zero_hash"
  by (simp add: is_hash_def zero_hash_def)

lemma is_hash_SetBytes: "is_hash h \<Longrightarrow> is_hash (Hash_SetBytes h b)"
  by (auto simp: is_hash_def Hash_SetBytes_def Let_def)

lemma BytesToHash_eq:
  "BytesToHash b = replicate (32 - length b) 0 @ drop (length b - 32) b"
  by (auto simp: BytesToHash_def Hash_SetBytes_def zero_hash_def HashLength_def Let_def)

lemma horner_drop:
  "horner 256 (map unat (drop (length b - n) b)) = horner 256 (map unat (b :: byte list)) mod 256 ^ n"
proof -
  let ?p = "map unat (take (length b - n) b)" and ?s = "map unat (drop (length b - n) b)"
  have less: "horner 256 ?s < 256 ^ length ?s"
    using unat_byte_less by (intro horner_less) auto
  have "horner 256 (map unat b) = horner 256 (?p @ ?s)"
    by (simp flip: map_append)
  then have v: "horner 256 (map unat b) = horner 256 ?p * 256 ^ length ?s + horner 256 ?s"
    by (simp only: horner_append)
  show ?thesis
  proof (cases "n \<le> length b")
    case True
    with v less show ?thesis by simp
  next
    case False
    then have "(256::nat) ^ length ?s \<le> 256 ^ n" by (intro power_increasing) auto
    with less have "horner 256 ?s < 256 ^ n" by (rule less_le_trans)
    with False show ?thesis by simp
  qed
qed

text \<open>\<open>SetBytes\<close> keeps the size of a hash for input of any length; \<open>BytesToHash\<close> pads
  on the left and crops on the left, so that as a number it is the input modulo \<open>2^256\<close>, and
  \<open>BigToHash\<close> and \<open>Big\<close> are inverse on the numbers below \<open>2^256\<close>.\<close>

theorem Hash_conversions:
  "is_hash (BytesToHash b)
   \<and> Hash_Big (BytesToHash b) = big_SetBytes b mod 2 ^ 256
   \<and> Hash_Big (BigToHash x) = \<bar>x\<bar> mod 2 ^ 256
   \<and> (is_hash h \<longrightarrow> BigToHash (Hash_Big h) = h \<and> is_hash (Hash_SetBytes h b))"
proof (intro conjI impI)
  have val: "Hash_Big (BytesToHash c) = big_SetBytes c mod 2 ^ 256" for c
  proof -
    have "horner 256 (map unat (BytesToHash c)) = horner 256 (map unat c) mod 256 ^ 32"
      by (simp add: BytesToHash_eq horner_drop)
    then show ?thesis by (simp add: Hash_Big_def big_SetBytes_def zmod_int)
  qed
  show hb: "is_hash (BytesToHash c)" for c
    by (simp add: BytesToHash_def is_hash_SetBytes)
  show "Hash_Big (BytesToHash b) = big_SetBytes b mod 2 ^ 256" by (rule val)
  show bb: "Hash_Big (BigToHash y) = \<bar>y\<bar> mod 2 ^ 256" for y
    by (simp only: BigToHash_def val) (simp add: big_SetBytes_def big_Bytes_def)
  assume h: "is_hash h"
  show "is_hash (Hash_SetBytes h b)" using h by (rule is_hash_SetBytes)
  have "horner 256 (map unat h) < 256 ^ 32"
    using h horner_less[of "map unat h" 256] unat_byte_less
    by (auto simp: is_hash_def HashLength_def)
  then have "\<bar>Hash_Big h\<bar> mod 2 ^ 256 = Hash_Big h"
    by (simp add: Hash_Big_def big_SetBytes_def)
  then have "Hash_Big (BigToHash (Hash_Big h)) = Hash_Big h" by (simp only: bb)
  moreover have "length (BigToHash (Hash_Big h)) = length h"
    using hb h by (simp add: BigToHash_def is_hash_def)
  ultimately show "BigToHash (Hash_Big h) = h"
    by (intro bytes_eqI) (simp_all add: Hash_Big_def big_SetBytes_def)
qed

theorem Hash_conversions_witness:
  "is_hash zero_hash \<and> BigToHash (Hash_Big zero_hash) = zero_hash"
  using Hash_conversions[of "[]" 0 zero_hash] by simp

section \<open>Hashes as text\<close>

lemma is_hash_length: "is_hash h \<longleftrightarrow> length h = 32"
  by (simp add: is_hash_def HashLength_def)

lemma hex_Encode_chars: "\<forall>c \<in> set (hex_Encode b). fromHexChar c \<noteq> None"
  using hex_Decode_ok_iff[of "hex_Encode b"] by simp

lemma hex_Encode_unprefixed: "\<not> has0xPrefix (hex_Encode b)"
proof
  assume "has0xPrefix (hex_Encode b)"
  then obtain x r where "hex_Encode b = CHR ''0'' # x # r" and "x = CHR ''x'' \<or> x = CHR ''X''"
    unfolding has0xPrefix_iff by blast
  then have "x \<in> set (hex_Encode b)" and "x = CHR ''x'' \<or> x = CHR ''X''" by simp_all
  moreover have "fromHexChar CHR ''x'' = None" "fromHexChar CHR ''X'' = None" by code_simp+
  ultimately show False using bspec[OF hex_Encode_chars] by metis
qed

lemma unmarshal_fixed_hex:
  assumes "checkText s w = Inr (hex_Encode b)" and "length out = length b"
  shows "unmarshal_fixed t w s out = (b, None)"
  using assms hex_Encode_chars
  by (simp add: unmarshal_fixed_def syntax_ok_iff decode_into_def Let_def)

lemma Hash_UnmarshalText_Marshal [codec_simps]:
  "is_hash a \<Longrightarrow> is_hash h \<Longrightarrow> Hash_UnmarshalText h (Hash_MarshalText a) = (a, None)"
  by (simp add: Hash_UnmarshalText_def UnmarshalFixedText_def unmarshal_fixed_hex is_hash_length
      Hash_MarshalText_def Bytes_MarshalText_def checkText_def)

lemma UnprefixedHash_UnmarshalText_Marshal [codec_simps]:
  "is_hash a \<Longrightarrow> is_hash h \<Longrightarrow> UnprefixedHash_UnmarshalText h (UnprefixedHash_MarshalText a) = (a, None)"
  by (cases "a = []")
    (simp_all add: UnprefixedHash_UnmarshalText_def UnmarshalFixedUnprefixedText_def
      unmarshal_fixed_hex is_hash_length UnprefixedHash_MarshalText_def checkText_def
      hex_Encode_unprefixed)

interpretation hash_codec: text_codec Hash_MarshalText
  "\<lambda>s. result_of (Hash_UnmarshalText zero_hash s)" is_hash
  by unfold_locales (simp add: codec_simps)

interpretation unprefixed_hash_codec: text_codec UnprefixedHash_MarshalText
  "\<lambda>s. result_of (UnprefixedHash_UnmarshalText zero_hash s)" is_hash
  by unfold_locales (simp add: codec_simps)

text \<open>a hash survives a round trip through its text form, with and without prefix, and
  through JSON, whatever the receiver held before; two hashes print alike only when equal.\<close>

theorem Hash_text_roundtrip:
  assumes "is_hash a" and "is_hash h"
  shows "Hash_UnmarshalText h (Hash_MarshalText a) = (a, None)
    \<and> UnprefixedHash_UnmarshalText h (UnprefixedHash_MarshalText a) = (a, None)
    \<and> UnprefixedHash_UnmarshalText h (Hash_MarshalText a) = (a, None)
    \<and> Hash_UnmarshalJSON h (quote (Hash_MarshalText a)) = (a, None)
    \<and> (Hash_MarshalText a = Hash_MarshalText h \<longleftrightarrow> a = h)"
proof (intro conjI)
  show "Hash_UnmarshalText h (Hash_MarshalText a) = (a, None)"
    and "UnprefixedHash_UnmarshalText h (UnprefixedHash_MarshalText a) = (a, None)"
    using assms by (simp_all add: codec_simps)
  show "UnprefixedHash_UnmarshalText h (Hash_MarshalText a) = (a, None)"
    and "Hash_UnmarshalJSON h (quote (Hash_MarshalText a)) = (a, None)"
    using assms
    by (simp_all add: UnprefixedHash_UnmarshalText_def UnmarshalFixedUnprefixedText_def
        Hash_UnmarshalJSON_def UnmarshalFixedJSON_def UnmarshalFixedText_def wrapTypeError_def
        unmarshal_fixed_hex is_hash_length Hash_MarshalText_def Bytes_MarshalText_def checkText_def)
  show "Hash_MarshalText a = Hash_MarshalText h \<longleftrightarrow> a = h"
    using assms by (rule hash_codec.enc_eq_iff)
qed

theorem Hash_text_roundtrip_witness:
  "is_hash (BigToHash 7) \<and> Hash_UnmarshalText zero_hash (Hash_MarshalText (BigToHash 7)) = (BigToHash 7, None)"
proof -
  have "is_hash (BigToHash 7)" by (simp add: BigToHash_def BytesToHash_def is_hash_SetBytes)
  with Hash_text_roundtrip[OF this is_hash_zero] show ?thesis by simp
qed

lemma hex_Encode_append: "hex_Encode (a @ b) = hex_Encode a @ hex_Encode b"
  by (induction a) simp_all

lemma drop_hex_Encode: "drop (2 * n) (hex_Encode b) = hex_Encode (drop n b)"
proof (cases "n \<le> length b")
  case True
  have "hex_Encode b = hex_Encode (take n b) @ hex_Encode (drop n b)"
    by (simp flip: hex_Encode_append)
  with True show ?thesis by simp
qed simp

text \<open>\<open>HexToHash\<close> does not decode its argument: on the text of a hash it yields the codes
  of the last 32 hexadecimal characters (the first 16 bytes are lost), so that already the zero
  hash is not recovered from its own text.\<close>

theorem HexToHash_takes_characters:
  assumes "is_hash h"
  shows "HexToHash (Hash_Hex h) = map of_char (hex_Encode (drop 16 h))
    \<and> HexToHash (Hash_Hex zero_hash) \<noteq> zero_hash"
proof (intro conjI)
  have eq: "HexToHash (Hash_Hex h) = map of_char (hex_Encode (drop 16 h))" if "is_hash h" for h
    using that drop_hex_Encode[of 16 h]
    by (simp add: HexToHash_def Hash_Hex_def Encode_def types_FromHex_def HasPrefix_def
        BytesToHash_eq is_hash_length drop_map)
  then show "HexToHash (Hash_Hex h) = map of_char (hex_Encode (drop 16 h))" using assms .
  have "map of_char (hex_Encode (drop 16 zero_hash)) \<noteq> zero_hash" by code_simp
  then show "HexToHash (Hash_Hex zero_hash) \<noteq> zero_hash" unfolding eq[OF is_hash_zero] .
qed

theorem HexToHash_takes_characters_witness:
  "HexToHash (Hash_Hex zero_hash) = map of_char (hex_Encode (replicate 16 0))"
  using HexToHash_takes_characters[OF is_hash_zero] by (simp add: zero_hash_def HashLength_def)


section \<open>Generated hashes\<close>

lemma generate_loop_nth:
  assumes "i < length h"
  shows "length (generate_loop i m rnd j h) = length h"
    and "x < length h \<Longrightarrow> generate_loop i m rnd j h ! x = (if m < x \<and> x \<le> i then rnd (j + (i - x)) else h ! x)"
proof -
  show "length (generate_loop i m rnd j h) = length h"
    by (induction i arbitrary: j h) auto
  show "generate_loop i m rnd j h ! x = (if m < x \<and> x \<le> i then rnd (j + (i - x)) else h ! x)" if "x < length h"
    using assms that
  proof (induction i arbitrary: j h)
    case (Suc i)
    show ?case
    proof (cases "x = Suc i")
      case True
      with Suc.IH[of "h[Suc i := rnd j]" "Suc j"] Suc.prems show ?thesis by simp
    next
      case False
      with Suc.IH[of "h[Suc i := rnd j]" "Suc j"] Suc.prems show ?thesis by (auto simp: Suc_diff_le)
    qed
  qed auto
qed

text \<open>A generated hash keeps the first bytes, up to the position that was drawn, and takes the others
  from the generator, the last one first.\<close>

lemma Hash_Generate_nth:
  assumes "is_hash h" and "m < HashLength"
  shows "is_hash (Hash_Generate m rnd h)
    \<and> (\<forall>x<HashLength. Hash_Generate m rnd h ! x = (if x \<le> m then h ! x else rnd (HashLength - 1 - x)))"
  using assms generate_loop_nth[where i = "length h - 1" and h = h and m = m and rnd = rnd and j = 0]
  by (simp add: is_hash_def Hash_Generate_def HashLength_def)

end
