(* ===== verification/Go_Json.thy ===== *)
theory Go_Json
  imports Go_Std
begin

text \<open>
  What the program uses of \<open>encoding/json\<close>, \<open>strconv.ParseFloat\<close> and \<open>fmt\<close>. A JSON
  message is a value of type \<open>json\<close>; \<open>json_text\<close> is its text. Number literals keep their
  text, as the program's decoders do (\<open>UseNumber\<close>). A \<open>json.RawMessage\<close> is a
  \<open>json option\<close>, \<open>None\<close> being the empty message. Object keys are compared without regard to
  the case of ASCII letters.
\<close>

section \<open>Values and their text\<close>

datatype json =
    JNull
  | JBool bool
  | JNum string
  | JStr string
  | JArr "json list"
  | JObj "(string \<times> json) list"

type_synonym RawMessage = "json option"

definition is_digit :: "char \<Rightarrow> bool" where
  "is_digit c \<longleftrightarrow> c \<in> set ''0123456789''"

text \<open>
  The number grammar: sign, integer part without leading zeros, fraction, exponent.
  \<open>num_parts\<close> gives the mantissa and the decimal exponent.
\<close>

definition digit_string :: "string \<Rightarrow> bool" where
  "digit_string s \<longleftrightarrow> s \<noteq> [] \<and> list_all is_digit s"

definition dec_value :: "string \<Rightarrow> nat" where
  "dec_value s = horner 10 (map (\<lambda>c. of_char c - 48) s)"

definition exp_part :: "string \<Rightarrow> int option" where
  "exp_part s =
     (case s of
        [] \<Rightarrow> Some 0
      | c # t \<Rightarrow>
          if c = CHR ''e'' \<or> c = CHR ''E'' then
            (case t of
               [] \<Rightarrow> None
             | d # u \<Rightarrow>
                 if d = CHR ''-'' then (if digit_string u then Some (- int (dec_value u)) else None)
                 else if d = CHR ''+'' then (if digit_string u then Some (int (dec_value u)) else None)
                 else if digit_string t then Some (int (dec_value t)) else None)
          else None)"

definition unsigned_parts :: "string \<Rightarrow> (nat \<times> int) option" where
  "unsigned_parts s =
     (let ip = takeWhile is_digit s; r = dropWhile is_digit s in
      if ip = [] \<or> (hd ip = CHR ''0'' \<and> length ip > 1) then None
      else if r \<noteq> [] \<and> hd r = CHR ''.'' then
        (let fr = takeWhile is_digit (tl r) in
         if fr = [] then None
         else map_option (\<lambda>e. (dec_value (ip @ fr), e - int (length fr)))
                (exp_part (dropWhile is_digit (tl r))))
      else map_option (\<lambda>e. (dec_value ip, e)) (exp_part r))"

definition num_parts :: "string \<Rightarrow> (nat \<times> int) option" where
  "num_parts s = (if s \<noteq> [] \<and> hd s = CHR ''-'' then unsigned_parts (tl s) else unsigned_parts s)"

text \<open>
  \<open>ParseFloat(s, 64)\<close> succeeds on a number literal unless rounding to nearest gives infinity,
  that is unless the magnitude reaches the midpoint above the largest double.
\<close>

definition float64_limit :: nat where
  "float64_limit = 2 ^ 1024 - 2 ^ 970"

definition ParseFloat_ok :: "string \<Rightarrow> bool" where
  "ParseFloat_ok s =
     (case num_parts s of
        None \<Rightarrow> False
      | Some (m, e) \<Rightarrow>
          if 0 \<le> e then m * 10 ^ nat e < float64_limit else m < float64_limit * 10 ^ nat (- e))"

fun json_wf :: "json \<Rightarrow> bool" where
  "json_wf (JNum s) = (num_parts s \<noteq> None)"
| "json_wf (JArr js) = list_all json_wf js"
| "json_wf (JObj kvs) = list_all (\<lambda>kv. json_wf (snd kv)) kvs"
| "json_wf _ = True"

definition escape_char :: "char \<Rightarrow> string" where
  "escape_char c =
     (if c = CHR 0x22 then [CHR 0x5C, CHR 0x22]
      else if c = CHR 0x5C then [CHR 0x5C, CHR 0x5C]
      else if c = CHR 0x0A then [CHR 0x5C, CHR ''n'']
      else if c = CHR 0x0D then [CHR 0x5C, CHR ''r'']
      else if c = CHR 0x09 then [CHR 0x5C, CHR ''t'']
      else if of_char c < (32 :: nat) \<or> c = CHR ''<'' \<or> c = CHR ''>'' \<or> c = CHR ''&''
      then CHR 0x5C # ''u00'' @ hex_Encode [of_char c]
      else [c])"

definition string_text :: "string \<Rightarrow> string" where
  "string_text s = CHR 0x22 # concat (map escape_char s) @ [CHR 0x22]"

fun json_text :: "json \<Rightarrow> string" where
  "json_text JNull = ''null''"
| "json_text (JBool b) = (if b then ''true'' else ''false'')"
| "json_text (JNum s) = s"
| "json_text (JStr s) = string_text s"
| "json_text (JArr js) = CHR ''['' # Join (map json_text js) CHR '','' @ '']''"
| "json_text (JObj kvs) =
     CHR ''{'' # Join (map (\<lambda>kv. string_text (fst kv) @ CHR '':'' # json_text (snd kv)) kvs) CHR '',''
     @ ''}''"

section \<open>Formatting and key comparison\<close>

definition fmt_d :: "int \<Rightarrow> string" where
  "fmt_d n = (if n < 0 then ''-'' else []) @ map ((!) digits36) (digits 10 (nat \<bar>n\<bar>))"

lemma dig10_chars: "dig 10 (CHR ''-'') = None" "dig 10 (CHR ''+'') = None" "dig 10 (CHR ''/'') = None"
  by code_simp+

lemma decimal_chars:
  "numeral_of 10 (map ((!) digits36) (digits 10 n)) = Some (digits 10 n)"
  "c \<in> set (map ((!) digits36) (digits 10 n)) \<Longrightarrow> dig 10 c \<noteq> None"
proof -
  show num: "numeral_of 10 (map ((!) digits36) (digits 10 n)) = Some (digits 10 n)"
    using digits_bound[of 10 n] by (simp add: numeral_of_digits36)
  show "c \<in> set (map ((!) digits36) (digits 10 n)) \<Longrightarrow> dig 10 c \<noteq> None"
    using numeral_of_eq_None_iff[of 10 "map ((!) digits36) (digits 10 n)"] num by force
qed

definition EqualFold :: "string \<Rightarrow> string \<Rightarrow> bool" where
  "EqualFold a b \<longleftrightarrow> ToLower a = ToLower b"

section \<open>Unmarshal\<close>

text \<open>
  \<open>Unmarshal\<close> goes on after a type error and reports the first one. A JSON \<open>null\<close> leaves a
  string, a struct, a slice element or an array alone, but is stored in a \<open>RawMessage\<close>.
\<close>

fun json_kind :: "json \<Rightarrow> string" where
  "json_kind JNull = ''null''"
| "json_kind (JBool b) = ''bool''"
| "json_kind (JNum s) = ''number''"
| "json_kind (JStr s) = ''string''"
| "json_kind (JArr js) = ''array''"
| "json_kind (JObj kvs) = ''object''"

definition type_error_msg :: "json \<Rightarrow> string \<Rightarrow> string \<Rightarrow> string" where
  "type_error_msg j place t =
     ''json: cannot unmarshal '' @ json_kind j @ '' into Go '' @ place @ '' of type '' @ t"

definition first_err :: "string option \<Rightarrow> string option \<Rightarrow> string option" where
  "first_err a b = (case a of Some e \<Rightarrow> Some e | None \<Rightarrow> b)"

definition unmarshal_string :: "string \<Rightarrow> string \<Rightarrow> json \<Rightarrow> string \<times> string option" where
  "unmarshal_string place old j =
     (case j of JStr s \<Rightarrow> (s, None) | JNull \<Rightarrow> (old, None)
      | _ \<Rightarrow> (old, Some (type_error_msg j place ''string'')))"

text \<open>Into an array of one string: missing elements are the empty string, others are skipped.\<close>

definition unmarshal_string1 :: "json \<Rightarrow> string \<times> string option" where
  "unmarshal_string1 j =
     (case j of
        JNull \<Rightarrow> ('''', None)
      | JArr [] \<Rightarrow> ('''', None)
      | JArr (x # xs) \<Rightarrow> unmarshal_string ''value'' '''' x
      | _ \<Rightarrow> ('''', Some (type_error_msg j ''value'' ''[1]string'')))"

section \<open>Facts\<close>

lemma first_err_simps [simp]:
  "first_err (Some e) b = Some e" "first_err None b = b" "first_err a None = a"
  by (simp_all add: first_err_def split: option.split)

lemma first_err_None_iff [simp]: "first_err a b = None \<longleftrightarrow> a = None \<and> b = None"
  by (auto simp: first_err_def split: option.splits)

lemma EqualFold_refl [simp]: "EqualFold a a"
  by (simp add: EqualFold_def)

lemma unsigned_parts_first: "unsigned_parts s \<noteq> None \<Longrightarrow> s \<noteq> [] \<and> is_digit (hd s)"
  by (cases s) (auto simp: unsigned_parts_def Let_def split: if_splits)

lemma num_parts_first: "num_parts s \<noteq> None \<Longrightarrow> s \<noteq> [] \<and> (hd s = CHR ''-'' \<or> is_digit (hd s))"
  using unsigned_parts_first by (auto simp: num_parts_def split: if_splits)

text \<open>The first character of a text tells arrays from everything else.\<close>

lemma hd_json_text:
  assumes "json_wf j"
  shows "json_text j \<noteq> [] \<and> hd (json_text j) \<notin> {CHR 0x20, CHR 0x09, CHR 0x0A, CHR 0x0D}
    \<and> (hd (json_text j) = CHR ''['' \<longleftrightarrow> (\<exists>js. j = JArr js))"
proof (cases j)
  case (JNum s)
  with assms num_parts_first[of s] show ?thesis by (auto simp: is_digit_def)
qed (use assms in \<open>auto simp: string_text_def\<close>)

end
