(* ===== verification/Go_Reflect.thy ===== *)
theory Go_Reflect
  imports Go_Json
begin

text \<open>
  What the program uses of \<open>reflect\<close>: types with the attributes its checks read, the methods
  of a type, and the values that method calls take and return.
\<close>

section \<open>Types and methods\<close>

text \<open>
  A type is a pointer to a type, or another type with its name, the path of its package
  (both empty for unnamed types, the path empty for predeclared ones), whether it
  implements \<open>error\<close>, and whether \<open>IsNil\<close> may be called on its values.
\<close>

datatype gtype =
    is_TPtr: TPtr gtype
  | TBase (t_Name: string) (t_PkgPath: string) (t_ImplementsError: bool) (t_Nilable: bool)

text \<open>The loop \<open>for t.Kind() == reflect.Ptr { t = t.Elem() }\<close>.\<close>

fun strip_ptr :: "gtype \<Rightarrow> gtype" where
  "strip_ptr (TPtr t) = strip_ptr t"
| "strip_ptr (TBase n p e k) = TBase n p e k"

fun t_IsNil_ok :: "gtype \<Rightarrow> bool" where
  "t_IsNil_ok (TPtr t) = True"
| "t_IsNil_ok (TBase n p e k) = k"

definition stringType :: gtype where
  "stringType = TBase ''string'' '''' False False"

text \<open>The inputs of a method value include the receiver, as in \<open>Method.Type\<close>.\<close>

record gmethod =
  gm_Name :: string
  gm_PkgPath :: string
  gm_In :: "gtype list"
  gm_Out :: "gtype list"

section \<open>Values\<close>

text \<open>
  The values that pass between the server and the callbacks: strings, the request context,
  the nil of a pointer or interface type, non-nil errors (by their text), non-nil
  subscriptions (by their ID) and everything else, in a type of its own.
\<close>

datatype 'a gval =
    VString string
  | VBool bool
  | VCtx
  | VNil
  | VError string
  | VSub string
  | VRcvr 'a
  | VOther 'a

fun v_IsNil :: "'a gval \<Rightarrow> bool" where
  "v_IsNil VNil = True"
| "v_IsNil _ = False"

section \<open>Facts\<close>

lemma strip_ptr_idem [simp]: "strip_ptr (strip_ptr t) = strip_ptr t"
  by (induction t) simp_all

lemma is_TPtr_strip [simp]: "\<not> is_TPtr (strip_ptr t)"
  by (induction t) simp_all

end
