(* ===== verification/Json_Codec.thy ===== *)
theory Json_Codec
  imports Rpc_Types Go_Reflect
begin

text \<open>
  Package \<open>codec\<close> (src/pkg/codec/jsonc.go, interfaces.go): reading JSON-RPC requests, single
  and batched, parsing positional arguments, building responses, and the codec object with
  its once-only close. Decoding one argument into a type is a parameter (it runs the
  \<open>UnmarshalJSON\<close> methods of the service's own types), and so are the transport's decode
  and encode functions, which appear as the sequences of their results.
\<close>

section \<open>Constants and message types\<close>

definition jsonrpcVersion :: string where "jsonrpcVersion = ''2.0''"
definition serviceMethodSeparator :: char where "serviceMethodSeparator = CHR ''_''"
definition subscribeMethodSuffix :: string where "subscribeMethodSuffix = ''_subscribe''"
definition unsubscribeMethodSuffix :: string where "unsubscribeMethodSuffix = ''_unsubscribe''"
definition notificationMethodSuffix :: string where "notificationMethodSuffix = ''_subscription''"

record JsonRequest =
  jr_Method :: string
  jr_Version :: string
  jr_Id :: RawMessage
  jr_Payload :: RawMessage

text \<open>An \<open>interface{}\<close> that may be nil is an option. An id is the raw message it points to.\<close>

record 'v JsonSuccessResponse =
  sr_Version :: string
  sr_Id :: "RawMessage option"
  sr_Result :: "'v option"

record 'v JsonError =
  je_Code :: int
  je_Message :: string
  je_Data :: "'v option"

record 'v JsonErrResponse =
  er_Version :: string
  er_Id :: "RawMessage option"
  er_Error :: "'v JsonError"

record 'v JsonSubscription =
  js_Subscription :: string
  js_Result :: "'v option"

record 'v JsonNotification =
  jn_Version :: string
  jn_Method :: string
  jn_Params :: "'v JsonSubscription"

datatype 'v message =
    MSuccess "'v JsonSuccessResponse"
  | MError "'v JsonErrResponse"
  | MNotification "'v JsonNotification"
  | MBatch "'v message list"

definition JsonError_Error :: "'v JsonError \<Rightarrow> string" where
  "JsonError_Error err =
     (if je_Message err = [] then ''json-rpc error '' @ fmt_d (je_Code err) else je_Message err)"

definition JsonError_ErrorCode :: "'v JsonError \<Rightarrow> int" where
  "JsonError_ErrorCode err = je_Code err"

section \<open>Reading requests\<close>

fun isBatch :: "string \<Rightarrow> bool" where
  "isBatch [] = False"
| "isBatch (c # msg) =
     (if c = CHR 0x20 \<or> c = CHR 0x09 \<or> c = CHR 0x0A \<or> c = CHR 0x0D then isBatch msg
      else c = CHR ''['')"

text \<open>\<open>json.Unmarshal\<close> into a \<open>JsonRequest\<close>, a key of the object at a time.\<close>

definition zero_request :: JsonRequest where
  "zero_request = \<lparr>jr_Method = '''', jr_Version = '''', jr_Id = None, jr_Payload = None\<rparr>"

definition set_field ::
  "JsonRequest \<times> string option \<Rightarrow> string \<times> json \<Rightarrow> JsonRequest \<times> string option" where
  "set_field acc kv =
     (let (r, err) = acc; (k, v) = kv in
      if EqualFold k ''method'' then
        (let (s, e) = unmarshal_string ''struct field JsonRequest.method'' (jr_Method r) v
         in (r\<lparr>jr_Method := s\<rparr>, first_err err e))
      else if EqualFold k ''jsonrpc'' then
        (let (s, e) = unmarshal_string ''struct field JsonRequest.jsonrpc'' (jr_Version r) v
         in (r\<lparr>jr_Version := s\<rparr>, first_err err e))
      else if EqualFold k ''id'' then (r\<lparr>jr_Id := Some v\<rparr>, err)
      else if EqualFold k ''params'' then (r\<lparr>jr_Payload := Some v\<rparr>, err)
      else (r, err))"

definition unmarshal_request :: "json \<Rightarrow> JsonRequest \<times> string option" where
  "unmarshal_request j =
     (case j of
        JObj kvs \<Rightarrow> foldl set_field (zero_request, None) kvs
      | JNull \<Rightarrow> (zero_request, None)
      | _ \<Rightarrow> (zero_request, Some (type_error_msg j ''value'' ''codec.JsonRequest'')))"

fun unmarshal_elems :: "json list \<Rightarrow> JsonRequest list \<times> string option" where
  "unmarshal_elems [] = ([], None)"
| "unmarshal_elems (j # js) =
     (let (r, e) = unmarshal_request j; (rs, e') = unmarshal_elems js
      in (r # rs, first_err e e'))"

definition unmarshal_requests :: "json \<Rightarrow> JsonRequest list \<times> string option" where
  "unmarshal_requests j =
     (case j of
        JArr js \<Rightarrow> unmarshal_elems js
      | JNull \<Rightarrow> ([], None)
      | _ \<Rightarrow> ([], Some (type_error_msg j ''value'' ''[]codec.JsonRequest'')))"

definition checkReqId :: "RawMessage \<Rightarrow> string option" where
  "checkReqId reqId =
     (case reqId of
        None \<Rightarrow> Some ''missing request id''
      | Some j \<Rightarrow>
          if ParseFloat_ok (json_text j) then None
          else if snd (unmarshal_string ''value'' '''' j) = None then None
          else Some ''invalid request id'')"

type_synonym request = "(RawMessage, RawMessage) RpcRequest"
type_synonym headers = "request list \<times> bool \<times> rpc_error option"

definition zero_rpc :: "RawMessage \<Rightarrow> request" where
  "zero_rpc reqid = \<lparr>rq_Service = '''', rq_Method = '''', rq_Id = reqid, rq_IsPubSub = False,
     rq_Params = None, rq_Err = None\<rparr>"

definition parseRequest :: "json \<Rightarrow> headers" where
  "parseRequest incomingMsg =
     (let (inp, uerr) = unmarshal_request incomingMsg in
      case uerr of
        Some err \<Rightarrow> ([], False, Some (InvalidMessageError err))
      | None \<Rightarrow>
      case checkReqId (jr_Id inp) of
        Some err \<Rightarrow> ([], False, Some (InvalidMessageError err))
      | None \<Rightarrow>
      if HasSuffix (jr_Method inp) subscribeMethodSuffix then
        (case jr_Payload inp of
           Some payload \<Rightarrow>
             (case unmarshal_string1 payload of
                (subscribeMethod, Some err) \<Rightarrow>
                  ([], False, Some (InvalidRequestError ''Unable to parse subscription request''))
              | (subscribeMethod, None) \<Rightarrow>
                  ([(zero_rpc (jr_Id inp))\<lparr>rq_IsPubSub := True,
                      rq_Service := TrimSuffix (jr_Method inp) subscribeMethodSuffix,
                      rq_Method := subscribeMethod, rq_Params := Some (Some payload)\<rparr>], False, None))
         | None \<Rightarrow> ([], False, Some (InvalidRequestError ''Unable to parse subscription request'')))
      else if HasSuffix (jr_Method inp) unsubscribeMethodSuffix then
        ([(zero_rpc (jr_Id inp))\<lparr>rq_IsPubSub := True, rq_Method := jr_Method inp,
            rq_Params := Some (jr_Payload inp)\<rparr>], False, None)
      else
        (let elems = Split (jr_Method inp) serviceMethodSeparator in
         if length elems \<noteq> 2 then ([], False, Some (MethodNotFoundError (jr_Method inp) ''''))
         else if jr_Payload inp = None then
           ([(zero_rpc (jr_Id inp))\<lparr>rq_Service := elems ! 0, rq_Method := elems ! 1\<rparr>], False, None)
         else
           ([(zero_rpc (jr_Id inp))\<lparr>rq_Service := elems ! 0, rq_Method := elems ! 1,
               rq_Params := Some (jr_Payload inp)\<rparr>], False, None)))"

text \<open>The loop of \<open>parseBatchRequest\<close>; an early return drops what was built so far.\<close>

fun batch_loop :: "JsonRequest list \<Rightarrow> request list \<Rightarrow> headers" where
  "batch_loop [] requests = (requests, True, None)"
| "batch_loop (r # rs) requests =
     (case checkReqId (jr_Id r) of
        Some err \<Rightarrow> ([], False, Some (InvalidMessageError err))
      | None \<Rightarrow>
      if HasSuffix (jr_Method r) subscribeMethodSuffix then
        (case jr_Payload r of
           Some payload \<Rightarrow>
             (case unmarshal_string1 payload of
                (subscribeMethod, Some err) \<Rightarrow>
                  ([], False, Some (InvalidRequestError ''Unable to parse subscription request''))
              | (subscribeMethod, None) \<Rightarrow>
                  batch_loop rs (requests @
                    [(zero_rpc (jr_Id r))\<lparr>rq_IsPubSub := True,
                      rq_Service := TrimSuffix (jr_Method r) subscribeMethodSuffix,
                      rq_Method := subscribeMethod, rq_Params := Some (Some payload)\<rparr>]))
         | None \<Rightarrow>
             ([], True, Some (InvalidRequestError ''Unable to parse (un)subscribe request arguments'')))
      else if HasSuffix (jr_Method r) unsubscribeMethodSuffix then
        batch_loop rs (requests @ [(zero_rpc (jr_Id r))\<lparr>rq_IsPubSub := True,
          rq_Method := jr_Method r, rq_Params := Some (jr_Payload r)\<rparr>])
      else
        (let req = (if jr_Payload r = None then zero_rpc (jr_Id r)
                    else (zero_rpc (jr_Id r))\<lparr>rq_Params := Some (jr_Payload r)\<rparr>);
             elem = Split (jr_Method r) serviceMethodSeparator in
         if length elem = 2 then
           batch_loop rs (requests @ [req\<lparr>rq_Service := elem ! 0, rq_Method := elem ! 1\<rparr>])
         else
           batch_loop rs (requests @ [req\<lparr>rq_Err := Some (MethodNotFoundError (jr_Method r) '''')\<rparr>])))"

definition parseBatchRequest :: "json \<Rightarrow> headers" where
  "parseBatchRequest incomingMsg =
     (case unmarshal_requests incomingMsg of
        (inp, Some err) \<Rightarrow> ([], False, Some (InvalidMessageError err))
      | (inp, None) \<Rightarrow> batch_loop inp [])"

section \<open>Arguments\<close>

text \<open>
  \<open>unm t j\<close> is \<open>dec.Decode\<close> of \<open>j\<close> into a fresh variable of type \<open>t\<close>: the text of the error
  or the value. The pointer that \<open>reflect.New\<close> returns is never nil, so that the check of
  the source on it does not fire.
\<close>

definition New_IsNil :: bool where "New_IsNil = False"

fun args_loop ::
  "(gtype \<Rightarrow> json \<Rightarrow> string + 'a gval) \<Rightarrow> gtype list \<Rightarrow> nat \<Rightarrow> json list \<Rightarrow> 'a gval list
   \<Rightarrow> rpc_error + 'a gval list" where
  "args_loop unm types i [] args = Inr args"
| "args_loop unm types i (j # js) args =
     (if i \<ge> length types then
        Inl (InvalidParamsError (''too many arguments, want at most '' @ fmt_d (int (length types))))
      else
        (case unm (types ! i) j of
           Inl err \<Rightarrow> Inl (InvalidParamsError (''invalid argument '' @ fmt_d (int i) @ '': '' @ err))
         | Inr v \<Rightarrow>
             if New_IsNil \<and> \<not> is_TPtr (types ! i) then
               Inl (InvalidParamsError (''missing value for required argument '' @ fmt_d (int i)))
             else args_loop unm types (Suc i) js (args @ [v])))"

function fill_missing :: "gtype list \<Rightarrow> nat \<Rightarrow> 'a gval list \<Rightarrow> rpc_error + 'a gval list" where
  "fill_missing types i args =
     (if i \<ge> length types then Inr args
      else if \<not> is_TPtr (types ! i) then
        Inl (InvalidParamsError (''missing value for required argument '' @ fmt_d (int i)))
      else fill_missing types (Suc i) (args @ [VNil]))"
  by pat_completeness auto

termination
  by (relation "measure (\<lambda>(types, i, args). length types - i)") auto

definition parsePositionalArguments ::
  "(gtype \<Rightarrow> json \<Rightarrow> string + 'a gval) \<Rightarrow> RawMessage \<Rightarrow> gtype list \<Rightarrow> rpc_error + 'a gval list" where
  "parsePositionalArguments unm rawArgs types =
     (case rawArgs of
        Some (JArr js) \<Rightarrow>
          (case args_loop unm types 0 js [] of
             Inl err \<Rightarrow> Inl err
           | Inr args \<Rightarrow> fill_missing types (length args) args)
      | _ \<Rightarrow> Inl (InvalidParamsError ''non-array args''))"

definition ParseRequestArguments ::
  "(gtype \<Rightarrow> json \<Rightarrow> string + 'a gval) \<Rightarrow> gtype list \<Rightarrow> RawMessage option
   \<Rightarrow> rpc_error + 'a gval list" where
  "ParseRequestArguments unm argTypes params =
     (case params of
        None \<Rightarrow> Inl (InvalidParamsError ''Invalid params supplied'')
      | Some args \<Rightarrow> parsePositionalArguments unm args argTypes)"

section \<open>Responses\<close>

definition CreateResponse :: "RawMessage option \<Rightarrow> 'v option \<Rightarrow> 'v message" where
  "CreateResponse reqid reply =
     MSuccess \<lparr>sr_Version = jsonrpcVersion, sr_Id = reqid, sr_Result = reply\<rparr>"

definition CreateErrorResponse :: "RawMessage option \<Rightarrow> rpc_error \<Rightarrow> 'v message" where
  "CreateErrorResponse reqid err =
     MError \<lparr>er_Version = jsonrpcVersion, er_Id = reqid,
       er_Error = \<lparr>je_Code = ErrorCode err, je_Message = rpc_error_msg err, je_Data = None\<rparr>\<rparr>"

definition CreateErrorResponseWithInfo ::
  "RawMessage option \<Rightarrow> rpc_error \<Rightarrow> 'v option \<Rightarrow> 'v message" where
  "CreateErrorResponseWithInfo reqid err info =
     MError \<lparr>er_Version = jsonrpcVersion, er_Id = reqid,
       er_Error = \<lparr>je_Code = ErrorCode err, je_Message = rpc_error_msg err, je_Data = info\<rparr>\<rparr>"

definition CreateNotification :: "string \<Rightarrow> string \<Rightarrow> 'v option \<Rightarrow> 'v message" where
  "CreateNotification subid namespace event =
     MNotification \<lparr>jn_Version = jsonrpcVersion, jn_Method = namespace @ notificationMethodSuffix,
       jn_Params = \<lparr>js_Subscription = subid, js_Result = event\<rparr>\<rparr>"

section \<open>The codec\<close>

text \<open>
  \<open>jc_in\<close>: what the transport's decoder returns, message by message, then end of file.
  \<open>jc_werr\<close>: whether the encoder fails, write by write, then never. \<open>jc_out\<close>: the messages
  written. \<open>jc_closer\<close> is the state of the \<open>sync.Once\<close>, \<open>jc_closes\<close> counts the closes of the
  \<open>closed\<close> channel (a second one would panic).
\<close>

record 'v JsonCodec =
  jc_closer :: bool
  jc_closes :: nat
  jc_in :: "(string + json) list"
  jc_werr :: "string option list"
  jc_out :: "'v message list"

definition NewCodec :: "(string + json) list \<Rightarrow> string option list \<Rightarrow> 'v JsonCodec" where
  "NewCodec inp werr =
     \<lparr>jc_closer = False, jc_closes = 0, jc_in = inp, jc_werr = werr, jc_out = []\<rparr>"

definition ReadRequestHeaders :: "'v JsonCodec \<Rightarrow> 'v JsonCodec \<times> headers" where
  "ReadRequestHeaders c =
     (case jc_in c of
        [] \<Rightarrow> (c, [], False, Some (InvalidRequestError ''EOF''))
      | Inl err # rest \<Rightarrow> (c\<lparr>jc_in := rest\<rparr>, [], False, Some (InvalidRequestError err))
      | Inr incomingMsg # rest \<Rightarrow>
          (c\<lparr>jc_in := rest\<rparr>,
           if isBatch (json_text incomingMsg) then parseBatchRequest incomingMsg
           else parseRequest incomingMsg))"

definition Write :: "'v message \<Rightarrow> 'v JsonCodec \<Rightarrow> 'v JsonCodec \<times> string option" where
  "Write res c =
     (case jc_werr c of
        Some err # rest \<Rightarrow> (c\<lparr>jc_werr := rest\<rparr>, Some err)
      | None # rest \<Rightarrow> (c\<lparr>jc_werr := rest, jc_out := jc_out c @ [res]\<rparr>, None)
      | [] \<Rightarrow> (c\<lparr>jc_out := jc_out c @ [res]\<rparr>, None))"

definition Close :: "'v JsonCodec \<Rightarrow> 'v JsonCodec" where
  "Close c = (if jc_closer c then c else c\<lparr>jc_closer := True, jc_closes := Suc (jc_closes c)\<rparr>)"

definition Closed :: "'v JsonCodec \<Rightarrow> bool" where
  "Closed c \<longleftrightarrow> 0 < jc_closes c"

section \<open>Reading one message\<close>

lemma isBatch_skip:
  "list_all (\<lambda>c. c \<in> {CHR 0x20, CHR 0x09, CHR 0x0A, CHR 0x0D}) ws \<Longrightarrow> isBatch (ws @ s) = isBatch s"
  by (induction ws) auto

lemma isBatch_json_text: "json_wf j \<Longrightarrow> isBatch (json_text j) \<longleftrightarrow> (\<exists>js. j = JArr js)"
  using hd_json_text[of j] by (cases "json_text j") auto

text \<open>\<open>isBatch\<close> recognises exactly the JSON arrays: whatever white space precedes a
  well-formed message, it answers whether the message is an array.\<close>

theorem isBatch_correct:
  assumes "json_wf j" and "list_all (\<lambda>c. c \<in> {CHR 0x20, CHR 0x09, CHR 0x0A, CHR 0x0D}) ws"
  shows "isBatch (ws @ json_text j) \<longleftrightarrow> (\<exists>js. j = JArr js)"
  using assms by (simp only: isBatch_skip isBatch_json_text)

theorem isBatch_correct_witness:
  "isBatch ('' '' @ json_text (JArr [JNum ''1'']))"
proof -
  have "json_wf (JArr [JNum ''1''])" by code_simp
  from isBatch_correct[OF this, of "'' ''"] show ?thesis by simp
qed

lemma ParseFloat_first: "ParseFloat_ok s \<Longrightarrow> s \<noteq> [] \<and> (hd s = CHR ''-'' \<or> is_digit (hd s))"
  using num_parts_first[of s] by (cases "num_parts s") (auto simp: ParseFloat_ok_def)

text \<open>the request ids that are accepted are exactly \<open>null\<close>, the strings, and the numbers
  that fit a double; a missing id is refused.\<close>

theorem checkReqId_correct:
  "(checkReqId reqId = None) \<longleftrightarrow>
     (case reqId of None \<Rightarrow> False | Some JNull \<Rightarrow> True | Some (JStr s) \<Rightarrow> True
      | Some (JNum s) \<Rightarrow> ParseFloat_ok s | _ \<Rightarrow> False)"
proof (cases reqId)
  case (Some j)
  show ?thesis
  proof (cases "ParseFloat_ok (json_text j)")
    case True
    then have "hd (json_text j) = CHR ''-'' \<or> is_digit (hd (json_text j))" using ParseFloat_first by blast
    with True Some show ?thesis
      by (cases j) (auto simp: checkReqId_def is_digit_def string_text_def split: if_splits)
  qed (use Some in \<open>cases j; simp add: checkReqId_def unmarshal_string_def\<close>)
qed (simp add: checkReqId_def)

section \<open>Single requests\<close>

lemma Split_two:
  assumes "length (Split s sep) = 2"
  shows "s = Split s sep ! 0 @ sep # Split s sep ! 1"
    and "sep \<notin> set (Split s sep ! 0)" and "sep \<notin> set (Split s sep ! 1)"
proof -
  from assms obtain a b where ab: "Split s sep = [a, b]"
    by (auto simp: numeral_2_eq_2 length_Suc_conv)
  with Join_Split[of s sep] show "s = Split s sep ! 0 @ sep # Split s sep ! 1" by simp
  show "sep \<notin> set (Split s sep ! 0)" "sep \<notin> set (Split s sep ! 1)"
    using Split_parts[of _ s sep] ab by simp_all
qed

lemma TrimSuffix_glue: "HasSuffix s p \<Longrightarrow> TrimSuffix s p @ p = s"
  by (auto simp: HasSuffix_iff)

text \<open>
  What a request that was read says about the message: its id and parameters are those of
  the message, and service and method reassemble to the method name of the message.
\<close>

definition request_matches :: "JsonRequest \<Rightarrow> request \<Rightarrow> bool" where
  "request_matches inp r \<longleftrightarrow>
     rq_Id r = jr_Id inp \<and> checkReqId (jr_Id inp) = None \<and> rq_Err r = None \<and>
     (if \<not> rq_IsPubSub r then
        jr_Method inp = rq_Service r @ ''_'' @ rq_Method r
        \<and> CHR ''_'' \<notin> set (rq_Service r) \<and> CHR ''_'' \<notin> set (rq_Method r)
        \<and> rq_Params r = map_option Some (jr_Payload inp)
      else if HasSuffix (jr_Method inp) ''_subscribe'' then
        jr_Method inp = rq_Service r @ ''_subscribe''
        \<and> jr_Payload inp \<noteq> None \<and> rq_Params r = Some (jr_Payload inp)
        \<and> unmarshal_string1 (the (jr_Payload inp)) = (rq_Method r, None)
      else
        HasSuffix (jr_Method inp) ''_unsubscribe''
        \<and> rq_Service r = '''' \<and> rq_Method r = jr_Method inp \<and> rq_Params r = Some (jr_Payload inp))"

lemmas suffix_defs = subscribeMethodSuffix_def unsubscribeMethodSuffix_def serviceMethodSeparator_def

text \<open>The cases that both parsers tell apart.\<close>

lemma request_cases:
  obtains (bad_id) e where "checkReqId (jr_Id inp) = Some e"
  | (sub_none) "checkReqId (jr_Id inp) = None" "HasSuffix (jr_Method inp) ''_subscribe''" "jr_Payload inp = None"
  | (sub_bad) p m e where "checkReqId (jr_Id inp) = None" "HasSuffix (jr_Method inp) ''_subscribe''"
      "jr_Payload inp = Some p" "unmarshal_string1 p = (m, Some e)"
  | (sub) p m where "checkReqId (jr_Id inp) = None" "HasSuffix (jr_Method inp) ''_subscribe''"
      "jr_Payload inp = Some p" "unmarshal_string1 p = (m, None)"
  | (uns) "checkReqId (jr_Id inp) = None" "\<not> HasSuffix (jr_Method inp) ''_subscribe''"
      "HasSuffix (jr_Method inp) ''_unsubscribe''"
  | (call) "checkReqId (jr_Id inp) = None" "\<not> HasSuffix (jr_Method inp) ''_subscribe''"
      "\<not> HasSuffix (jr_Method inp) ''_unsubscribe''" "length (Split (jr_Method inp) CHR ''_'') = 2"
  | (other) "checkReqId (jr_Id inp) = None" "\<not> HasSuffix (jr_Method inp) ''_subscribe''"
      "\<not> HasSuffix (jr_Method inp) ''_unsubscribe''" "length (Split (jr_Method inp) CHR ''_'') \<noteq> 2"
  by (metis option.exhaust prod.exhaust)

lemmas parse_simps = parseRequest_def suffix_defs zero_rpc_def Let_def

text \<open>C27: parsing a single message gives either exactly one request, which carries the id and
  the parameters of the message and whose service and method reassemble to the method it
  named, or an error and no request; it is never flagged as a batch.\<close>

theorem parseRequest_sound:
  "case parseRequest j of
     (reqs, b, None) \<Rightarrow> \<not> b \<and> (\<exists>r inp. reqs = [r] \<and> unmarshal_request j = (inp, None)
                                   \<and> request_matches inp r)
   | (reqs, b, Some e) \<Rightarrow> \<not> b \<and> reqs = []"
proof -
  obtain inp uerr where u: "unmarshal_request j = (inp, uerr)" by fastforce
  show ?thesis
  proof (cases uerr)
    case (Some e)
    with u show ?thesis by (simp add: parseRequest_def)
  next
    case None
    note u = u[unfolded None]
    show ?thesis
      by (cases inp rule: request_cases)
        (use u Split_two[of "jr_Method inp" "CHR ''_''"] in
          \<open>auto simp: parse_simps request_matches_def TrimSuffix_glue\<close>)
  qed
qed

section \<open>Batches\<close>

text \<open>
  What one element of a batch becomes when it is parsed alone: the request, or, when only
  the method name cannot be split, a request that carries the error.
\<close>

definition batch_entry :: "json \<Rightarrow> request option" where
  "batch_entry j =
     (let (inp, uerr) = unmarshal_request j in
      case parseRequest j of
        (r # rs, b, None) \<Rightarrow> Some r
      | (rs, b, Some (MethodNotFoundError s m)) \<Rightarrow>
          Some ((zero_rpc (jr_Id inp))\<lparr>rq_Params := map_option Some (jr_Payload inp),
            rq_Err := Some (MethodNotFoundError s m)\<rparr>)
      | _ \<Rightarrow> None)"

lemma batch_loop_step:
  assumes "unmarshal_request j = (inp, None)"
  shows "case batch_entry j of
      Some q \<Rightarrow> batch_loop (inp # rs) acc = batch_loop rs (acc @ [q])
    | None \<Rightarrow> \<exists>b e. batch_loop (inp # rs) acc = ([], b, Some e)"
  by (cases inp rule: request_cases)
    (use assms in \<open>auto simp: parse_simps batch_entry_def\<close>)

lemma batch_loop_map:
  assumes "unmarshal_elems js = (inps, None)"
  shows "case those (map batch_entry js) of
      Some reqs \<Rightarrow> batch_loop inps acc = (acc @ reqs, True, None)
    | None \<Rightarrow> \<exists>b e. batch_loop inps acc = ([], b, Some e)"
  using assms
proof (induction js arbitrary: inps acc)
  case (Cons j js)
  then obtain inp inps' where j: "unmarshal_request j = (inp, None)"
    and js: "unmarshal_elems js = (inps', None)" and inps: "inps = inp # inps'"
    by (auto simp: Let_def split: prod.splits)
  from batch_loop_step[OF j, of inps' acc] Cons.IH[OF js] show ?case
    unfolding inps by (auto split: option.splits)
qed simp

lemma unmarshal_elems_Some:
  "unmarshal_elems js = (inps, Some e) \<Longrightarrow> those (map batch_entry js) = None"
proof (induction js arbitrary: inps e)
  case (Cons j js)
  obtain inp e1 inps' e2 where *: "unmarshal_request j = (inp, e1)" "unmarshal_elems js = (inps', e2)"
    by fastforce
  show ?case
  proof (cases e1)
    case None
    with Cons.prems * have "e2 = Some e" by simp
    with Cons.IH * show ?thesis by (simp split: option.split)
  next
    case (Some d)
    with * have "batch_entry j = None" by (simp add: batch_entry_def parseRequest_def)
    then show ?thesis by simp
  qed
qed simp

text \<open>C26: a batch is parsed element by element as single messages are: the batch is accepted
  exactly when every element is acceptable, with the requests in the order of the elements,
  and otherwise no request at all comes out.\<close>

theorem parseBatchRequest_elementwise:
  "case those (map batch_entry js) of
     Some reqs \<Rightarrow> parseBatchRequest (JArr js) = (reqs, True, None)
   | None \<Rightarrow> \<exists>b e. parseBatchRequest (JArr js) = ([], b, Some e)"
proof -
  obtain inps e where u: "unmarshal_elems js = (inps, e)" by fastforce
  show ?thesis
  proof (cases e)
    case None
    with u batch_loop_map[of js inps "[]"] show ?thesis
      by (simp add: parseBatchRequest_def unmarshal_requests_def split: option.splits)
  next
    case (Some d)
    with u unmarshal_elems_Some[of js inps d] show ?thesis
      by (auto simp: parseBatchRequest_def unmarshal_requests_def)
  qed
qed

text \<open>The message of a call, as a client writes it.\<close>

definition call_object :: "json \<Rightarrow> string \<Rightarrow> json \<Rightarrow> json" where
  "call_object reqid meth params =
     JObj [(''jsonrpc'', JStr ''2.0''), (''id'', reqid), (''method'', JStr meth), (''params'', params)]"

lemma unmarshal_call_object:
  "unmarshal_request (call_object i m p) =
     (\<lparr>jr_Method = m, jr_Version = ''2.0'', jr_Id = Some i, jr_Payload = Some p\<rparr>, None)"
proof -
  have fold: "EqualFold ''jsonrpc'' ''method'' = False" "EqualFold ''id'' ''method'' = False"
    "EqualFold ''id'' ''jsonrpc'' = False" "EqualFold ''params'' ''method'' = False"
    "EqualFold ''params'' ''jsonrpc'' = False" "EqualFold ''params'' ''id'' = False"
    by code_simp+
  show ?thesis
    by (simp add: unmarshal_request_def call_object_def set_field_def zero_request_def fold
        unmarshal_string_def)
qed

lemma HasSuffix_method:
  assumes "CHR ''_'' \<notin> set m" and "CHR ''_'' \<notin> set p"
  shows "HasSuffix (s @ CHR ''_'' # m) (CHR ''_'' # p) \<longleftrightarrow> m = p"
proof
  assume "HasSuffix (s @ CHR ''_'' # m) (CHR ''_'' # p)"
  then obtain r where "s @ CHR ''_'' # m = r @ CHR ''_'' # p" by (auto simp: HasSuffix_iff)
  then have "rev m @ CHR ''_'' # rev s = rev p @ CHR ''_'' # rev r"
    by (metis rev_append rev.simps(2) append_assoc append_Cons append_Nil)
  then have "takeWhile (\<lambda>c. c \<noteq> CHR ''_'') (rev m @ CHR ''_'' # rev s) =
      takeWhile (\<lambda>c. c \<noteq> CHR ''_'') (rev p @ CHR ''_'' # rev r)" by (rule arg_cong)
  moreover have "takeWhile (\<lambda>c. c \<noteq> CHR ''_'') (rev x @ CHR ''_'' # y) = rev x"
    if "CHR ''_'' \<notin> set x" for x y
    using that by (subst takeWhile_append2) auto
  ultimately have "rev m = rev p" using assms by simp
  then show "m = p" by simp
qed simp

lemma method_suffixes:
  assumes "CHR ''_'' \<notin> set x"
  shows "HasSuffix (s @ CHR ''_'' # x) ''_subscribe'' \<longleftrightarrow> x = ''subscribe''"
    and "HasSuffix (s @ CHR ''_'' # x) ''_unsubscribe'' \<longleftrightarrow> x = ''unsubscribe''"
  using assms HasSuffix_method[of x "''subscribe''" s] HasSuffix_method[of x "''unsubscribe''" s]
  by simp_all

lemma parse_call_object:
  assumes "checkReqId (Some i) = None" and "CHR ''_'' \<notin> set s" and "CHR ''_'' \<notin> set m"
    and "m \<noteq> ''subscribe''" and "m \<noteq> ''unsubscribe''"
  shows "parseRequest (call_object i (s @ ''_'' @ m) p) =
      ([(zero_rpc (Some i))\<lparr>rq_Service := s, rq_Method := m, rq_Params := Some (Some p)\<rparr>], False, None)"
proof -
  have "Split (s @ CHR ''_'' # m) CHR ''_'' = [s, m]"
    using assms(2,3) by (simp add: Split_append_sep Split_no_sep)
  then show ?thesis by (simp add: parse_simps unmarshal_call_object assms method_suffixes)
qed

lemma parse_subscribe_object:
  assumes "checkReqId (Some i) = None"
  shows "parseRequest (call_object i (s @ ''_subscribe'') (JArr (JStr name # args))) =
      ([(zero_rpc (Some i))\<lparr>rq_IsPubSub := True, rq_Service := s, rq_Method := name,
          rq_Params := Some (Some (JArr (JStr name # args)))\<rparr>], False, None)"
proof -
  have "TrimSuffix (s @ ''_subscribe'') ''_subscribe'' = s" by (rule TrimSuffix_append)
  then show ?thesis
    by (simp add: parse_simps unmarshal_call_object assms method_suffixes unmarshal_string1_def unmarshal_string_def)
qed

lemma parse_unsubscribe_object:
  assumes "checkReqId (Some i) = None"
  shows "parseRequest (call_object i (s @ ''_unsubscribe'') p) =
      ([(zero_rpc (Some i))\<lparr>rq_IsPubSub := True, rq_Method := s @ ''_unsubscribe'',
          rq_Params := Some (Some p)\<rparr>], False, None)"
  by (simp add: parse_simps unmarshal_call_object assms method_suffixes)

text \<open>C28: a well-formed call is understood: for a service and a method whose names have no
  underscore, a subscription name in the first parameter, or an unsubscribe call, with an
  acceptable id, the parser returns the one request that says so.\<close>

theorem parseRequest_complete:
  assumes "checkReqId (Some i) = None" and "CHR ''_'' \<notin> set s" and "CHR ''_'' \<notin> set m"
    and "m \<noteq> ''subscribe''" and "m \<noteq> ''unsubscribe''"
  shows "parseRequest (call_object i (s @ ''_'' @ m) p) =
      ([(zero_rpc (Some i))\<lparr>rq_Service := s, rq_Method := m, rq_Params := Some (Some p)\<rparr>], False, None)
    \<and> parseRequest (call_object i (s @ ''_subscribe'') (JArr (JStr name # args))) =
      ([(zero_rpc (Some i))\<lparr>rq_IsPubSub := True, rq_Service := s, rq_Method := name,
          rq_Params := Some (Some (JArr (JStr name # args)))\<rparr>], False, None)
    \<and> parseRequest (call_object i (s @ ''_unsubscribe'') p) =
      ([(zero_rpc (Some i))\<lparr>rq_IsPubSub := True, rq_Method := s @ ''_unsubscribe'',
          rq_Params := Some (Some p)\<rparr>], False, None)"
  by (intro conjI parse_call_object[OF assms] parse_subscribe_object[OF assms(1)] parse_unsubscribe_object[OF assms(1)])

theorem parseRequest_complete_witness:
  "parseRequest (call_object JNull ''rpc_modules'' (JArr [])) =
     ([(zero_rpc (Some JNull))\<lparr>rq_Service := ''rpc'', rq_Method := ''modules'',
         rq_Params := Some (Some (JArr []))\<rparr>], False, None)"
proof -
  have "checkReqId (Some JNull) = None" by code_simp
  from parseRequest_complete[OF this, of "''rpc''" "''modules''" "JArr []"] show ?thesis by simp
qed

section \<open>Positional arguments\<close>

lemma args_loop_Inr:
  "i \<le> length types \<Longrightarrow> args_loop unm types i js args = Inr out \<longleftrightarrow>
     i + length js \<le> length types \<and>
     (\<exists>vs. map2 unm (drop i types) js = map Inr vs \<and> out = args @ vs)"
proof (induction js arbitrary: i args)
  case (Cons j js)
  show ?case
  proof (cases "i < length types")
    case True
    then have d: "drop i types = types ! i # drop (Suc i) types" by (simp add: Cons_nth_drop_Suc)
    show ?thesis
    proof (cases "unm (types ! i) j")
      case (Inl e)
      with True d show ?thesis by (auto simp: Cons_eq_map_conv)
    next
      case (Inr v)
      with True d Cons.IH[of "Suc i" "args @ [v]"] show ?thesis
        by (auto simp: New_IsNil_def Cons_eq_map_conv)
    qed
  qed (use Cons.prems in auto)
qed auto

lemma args_loop_Inl: "args_loop unm types i js args = Inl e \<Longrightarrow> \<exists>m. e = InvalidParamsError m"
  by (induction unm types i js args rule: args_loop.induct) (auto split: if_splits sum.splits)

declare fill_missing.simps [simp del]

lemma fill_missing_Inr:
  "fill_missing types i args = Inr out \<longleftrightarrow>
     list_all is_TPtr (drop i types) \<and> out = args @ replicate (length types - i) VNil"
proof (induction types i args rule: fill_missing.induct)
  case (1 types i args)
  show ?case
  proof (cases "i < length types")
    case True
    then have "drop i types = types ! i # drop (Suc i) types"
      and "length types - i = Suc (length types - Suc i)" by (simp_all add: Cons_nth_drop_Suc)
    with True 1 show ?thesis by (subst fill_missing.simps) auto
  qed (subst fill_missing.simps, auto)
qed

lemma fill_missing_Inl: "fill_missing types i args = Inl e \<Longrightarrow> \<exists>m. e = InvalidParamsError m"
  by (induction types i args rule: fill_missing.induct)
    (subst (asm) fill_missing.simps, auto split: if_splits)

lemma parsePositionalArguments_Inr:
  "parsePositionalArguments unm raw types = Inr args \<longleftrightarrow>
     (\<exists>js vs. raw = Some (JArr js) \<and> length js \<le> length types \<and> map2 unm types js = map Inr vs
        \<and> list_all is_TPtr (drop (length js) types)
        \<and> args = vs @ replicate (length types - length js) VNil)"
proof -
  have len: "length vs = length js" if "map2 unm types js = map Inr vs" "length js \<le> length types" for js vs
    using that by (metis length_map length_zip min.absorb2)
  have loop: "args_loop unm types 0 js [] = Inr vs \<longleftrightarrow>
      length js \<le> length types \<and> map2 unm types js = map Inr vs" for js vs
    using args_loop_Inr[of 0 types unm js "[]" vs] by auto
  show ?thesis
  proof (cases "\<exists>js. raw = Some (JArr js)")
    case True
    then obtain js where js: "raw = Some (JArr js)" ..
    show ?thesis
    proof (cases "args_loop unm types 0 js []")
      case (Inl e)
      then have "\<nexists>vs. args_loop unm types 0 js [] = Inr vs" by simp
      with js Inl show ?thesis unfolding loop by (auto simp: parsePositionalArguments_def)
    next
      case (Inr vs)
      with loop[of js vs] have vs: "length js \<le> length types" "map2 unm types js = map Inr vs" by simp_all
      have "inj (Inr :: 'a gval \<Rightarrow> string + 'a gval)" by (simp add: inj_def)
      then have uniq: "map2 unm types js = map Inr us \<longleftrightarrow> us = vs" for us
        unfolding vs(2) by (auto simp: inj_map_eq_map)
      have "parsePositionalArguments unm raw types = fill_missing types (length js) vs"
        using js Inr len[OF vs(2,1)] by (simp add: parsePositionalArguments_def)
      with js vs(1) show ?thesis by (simp add: fill_missing_Inr uniq)
    qed
  next
    case False
    then show ?thesis by (auto simp: parsePositionalArguments_def split: option.splits json.splits)
  qed
qed

lemma parsePositionalArguments_Inl:
  "parsePositionalArguments unm raw types = Inl e \<Longrightarrow> \<exists>m. e = InvalidParamsError m"
  by (auto simp: parsePositionalArguments_def dest: args_loop_Inl fill_missing_Inl
      split: option.splits json.splits sum.splits)

text \<open>C29: positional arguments are accepted exactly when the parameters are an array of at most
  as many values as there are types, each value decodes into its type, and every type
  without a value is a pointer; the result is the decoded values in order, then nils.
  Everything else is refused as invalid parameters.\<close>

theorem parsePositionalArguments_correct:
  "case parsePositionalArguments unm raw types of
     Inr args \<Rightarrow> (\<exists>js vs. raw = Some (JArr js) \<and> length js \<le> length types
       \<and> map2 unm types js = map Inr vs \<and> list_all is_TPtr (drop (length js) types)
       \<and> args = vs @ replicate (length types - length js) VNil)
   | Inl e \<Rightarrow> (\<nexists>js vs. raw = Some (JArr js) \<and> length js \<le> length types
       \<and> map2 unm types js = map Inr vs \<and> list_all is_TPtr (drop (length js) types))
       \<and> (\<exists>m. e = InvalidParamsError m)"
proof (cases "parsePositionalArguments unm raw types")
  case (Inl e)
  then have "\<nexists>args. parsePositionalArguments unm raw types = Inr args" by simp
  with Inl parsePositionalArguments_Inl[OF Inl] show ?thesis
    unfolding parsePositionalArguments_Inr by auto
next
  case (Inr args)
  with parsePositionalArguments_Inr[of unm raw types args] show ?thesis by simp
qed

section \<open>Writing and closing\<close>

inductive codec_step :: "'v JsonCodec \<Rightarrow> 'v JsonCodec \<Rightarrow> bool" where
  codec_read: "codec_step c (fst (ReadRequestHeaders c))"
| codec_write: "codec_step c (fst (Write m c))"
| codec_close: "codec_step c (Close c)"

definition codec_inv :: "'v JsonCodec \<Rightarrow> bool" where
  "codec_inv c \<longleftrightarrow> jc_closes c = (if jc_closer c then 1 else 0)"

lemma Read_frame [simp]:
  "jc_closer (fst (ReadRequestHeaders c)) = jc_closer c"
  "jc_closes (fst (ReadRequestHeaders c)) = jc_closes c"
  "jc_out (fst (ReadRequestHeaders c)) = jc_out c"
  "jc_werr (fst (ReadRequestHeaders c)) = jc_werr c"
  by (simp_all add: ReadRequestHeaders_def split: list.split sum.split)

lemma Write_frame [simp]:
  "jc_closer (fst (Write m c)) = jc_closer c" "jc_closes (fst (Write m c)) = jc_closes c"
  "jc_in (fst (Write m c)) = jc_in c"
  by (simp_all add: Write_def split: list.split option.split)

lemma Write_out: "jc_out (fst (Write m c)) = jc_out c @ (if snd (Write m c) = None then [m] else [])"
  by (simp add: Write_def split: list.split option.split)

lemma Close_frame [simp]: "jc_in (Close c) = jc_in c" "jc_out (Close c) = jc_out c" "jc_werr (Close c) = jc_werr c"
  by (simp_all add: Close_def)

interpretation codec: transition_system "\<lambda>c. \<exists>inp werr. c = NewCodec inp werr" codec_step codec_inv
  by unfold_locales
    (auto simp: codec_inv_def NewCodec_def Close_def elim!: codec_step.cases split: if_splits)

text \<open>whatever is read, written and closed in which order, the channel that announces the
  end of the connection is closed at most once, and it is closed exactly from the first
  \<open>Close\<close> on.\<close>

theorem Close_once:
  assumes "codec_step\<^sup>*\<^sup>* (NewCodec inp werr) c"
  shows "jc_closes c \<le> 1 \<and> Closed (Close c) \<and> Close (Close c) = Close c
    \<and> (codec_step\<^sup>*\<^sup>* c d \<and> Closed c \<longrightarrow> Closed d)"
proof (intro conjI impI)
  have inv: "codec_inv c" using assms by (rule codec.reachable_inv[rotated]) blast
  then show "jc_closes c \<le> 1" "Closed (Close c)" "Close (Close c) = Close c"
    by (simp_all add: codec_inv_def Closed_def Close_def)
  assume "codec_step\<^sup>*\<^sup>* c d \<and> Closed c"
  then have "codec_step\<^sup>*\<^sup>* c d" "Closed c" by simp_all
  then show "Closed d"
    by (induction rule: rtranclp_induct) (auto simp: Closed_def Close_def elim!: codec_step.cases)
qed

theorem Close_once_witness:
  "jc_closes (Close (Close (NewCodec [] [] :: nat JsonCodec))) \<le> 1"
proof -
  have "codec_step\<^sup>*\<^sup>* (NewCodec [] [] :: nat JsonCodec) (Close (Close (NewCodec [] [])))"
    by (meson codec_close rtranclp.rtrancl_into_rtrancl rtranclp.rtrancl_refl)
  from Close_once[OF this] show ?thesis by blast
qed

section \<open>The interface of codecs\<close>

text \<open>
  What the server relies on when it uses a \<open>ServerCodec\<close> (interfaces.go): a message that is
  not a batch yields exactly one request (the server takes element 0), an error comes with
  no request, and parsed arguments are as many as the types they were asked for (the server
  passes them to a method with that many parameters).
\<close>

locale server_codec =
  fixes read :: "'c \<Rightarrow> 'c \<times> headers"
    and parse_args :: "gtype list \<Rightarrow> RawMessage option \<Rightarrow> rpc_error + 'a gval list"
  assumes read_single: "read c = (c', reqs, False, None) \<Longrightarrow> length reqs = 1"
    and read_error: "read c = (c', reqs, b, Some e) \<Longrightarrow> reqs = []"
    and parse_args_length: "parse_args types params = Inr args \<Longrightarrow> length args = length types"

lemma parseRequest_single: "parseRequest j = (reqs, b, None) \<Longrightarrow> length reqs = 1"
  and parseRequest_error: "parseRequest j = (reqs, b, Some e) \<Longrightarrow> reqs = []"
  by (auto simp: parse_simps split: prod.splits option.splits if_splits)

lemma batch_loop_flag: "batch_loop inps acc = (reqs, b, None) \<Longrightarrow> b"
  and batch_loop_error: "batch_loop inps acc = (reqs, b, Some e) \<Longrightarrow> reqs = []"
proof (induction inps arbitrary: acc)
  case (Cons inp inps)
  { case 1 with Cons.IH(1) show ?case
      by (cases inp rule: request_cases) (auto simp: suffix_defs Let_def split: if_splits) }
  { case 2 with Cons.IH(2) show ?case
      by (cases inp rule: request_cases) (auto simp: suffix_defs Let_def split: if_splits) }
qed auto

lemma parseBatchRequest_flag: "parseBatchRequest j = (reqs, b, None) \<Longrightarrow> b"
  and parseBatchRequest_error: "parseBatchRequest j = (reqs, b, Some e) \<Longrightarrow> reqs = []"
  using batch_loop_flag batch_loop_error
  by (fastforce simp: parseBatchRequest_def split: prod.splits option.splits)+

lemma ParseRequestArguments_length:
  assumes "ParseRequestArguments unm types params = Inr args"
  shows "length args = length types"
proof -
  from assms obtain raw where "parsePositionalArguments unm raw types = Inr args"
    by (auto simp: ParseRequestArguments_def split: option.splits)
  then obtain js vs where "length js \<le> length types" "map2 unm types js = map Inr vs"
    "args = vs @ replicate (length types - length js) VNil"
    unfolding parsePositionalArguments_Inr by blast
  moreover from this have "length vs = length js" by (metis length_map length_zip min.absorb2)
  ultimately show ?thesis by simp
qed

interpretation json_codec: server_codec ReadRequestHeaders "ParseRequestArguments unm" for unm
proof
  fix c c' :: "'v JsonCodec" and reqs b e
  show "length reqs = 1" if "ReadRequestHeaders c = (c', reqs, False, None)"
    using that parseRequest_single parseBatchRequest_flag
    by (fastforce simp: ReadRequestHeaders_def split: list.splits sum.splits if_splits)
  show "reqs = []" if "ReadRequestHeaders c = (c', reqs, b, Some e)"
    using that parseRequest_error parseBatchRequest_error
    by (fastforce simp: ReadRequestHeaders_def split: list.splits sum.splits if_splits)
qed (rule ParseRequestArguments_length)

end
