(* ===== verification/Rpc_Service.thy ===== *)
theory Rpc_Service
  imports Json_Codec "HOL-Library.AList"
begin

text \<open>
  Services (src/pkg/server/utils.go and the registration part of server.go): which methods of
  a receiver become RPC callbacks or subscriptions, and the registry of services. Identifiers
  are ASCII: a first byte outside \<open>A..Z\<close> is not upper case.

  The maps of the source are association lists with unique keys, of which only the lookup
  and the emptiness matter.
\<close>

section \<open>utils.go: types\<close>

definition is_upper :: "char \<Rightarrow> bool" where
  "is_upper c \<longleftrightarrow> 65 \<le> (of_char c :: nat) \<and> of_char c \<le> (90 :: nat)"

definition isExported :: "string \<Rightarrow> bool" where
  "isExported name = (case name of [] \<Rightarrow> False | c # cs \<Rightarrow> is_upper c)"

definition isExportedOrBuiltinType :: "gtype \<Rightarrow> bool" where
  "isExportedOrBuiltinType t =
     (let t = strip_ptr t in isExported (t_Name t) \<or> t_PkgPath t = '''')"

definition contextType :: gtype where
  "contextType = TBase ''Context'' ''context'' False True"

definition isContextType :: "gtype \<Rightarrow> bool" where
  "isContextType t \<longleftrightarrow> strip_ptr t = contextType"

definition isErrorType :: "gtype \<Rightarrow> bool" where
  "isErrorType t \<longleftrightarrow> t_ImplementsError (strip_ptr t)"

definition subscriptionType :: gtype where
  "subscriptionType = TBase ''Subscription'' ''airman.com/airfk/pkg/server'' False False"

definition isSubscriptionType :: "gtype \<Rightarrow> bool" where
  "isSubscriptionType t \<longleftrightarrow> strip_ptr t = subscriptionType"

definition isPubSub :: "gmethod \<Rightarrow> bool" where
  "isPubSub m =
     (if length (gm_In m) < 2 \<or> length (gm_Out m) \<noteq> 2 then False
      else isContextType (gm_In m ! 1) \<and> isSubscriptionType (gm_Out m ! 0)
           \<and> isErrorType (gm_Out m ! 1))"

definition formatName :: "string \<Rightarrow> string" where
  "formatName name = (case name of [] \<Rightarrow> [] | c # cs \<Rightarrow> lower_char c # cs)"

section \<open>server.go: callbacks and services\<close>

record 'a Callback =
  cb_Rcvr :: 'a
  cb_Method :: gmethod
  cb_ArgTypes :: "gtype list"
  cb_HasCtx :: bool
  cb_ErrPos :: int
  cb_IsSubscribe :: bool

type_synonym 'a Callbacks = "(string \<times> 'a Callback) list"

record 'a Service =
  svc_Name :: string
  svc_Typ :: gtype
  svc_Callbacks :: "'a Callbacks"
  svc_Subscriptions :: "'a Callbacks"

type_synonym 'a ServiceRegistry = "(string \<times> 'a Service) list"

text \<open>A service receiver: the value, its type, the type's text and its methods.\<close>

record 'a receiver =
  rc_Value :: 'a
  rc_Type :: gtype
  rc_String :: string
  rc_Methods :: "gmethod list"

section \<open>utils.go: suitableCallbacks\<close>

fun first_error :: "gtype list \<Rightarrow> nat \<Rightarrow> int" where
  "first_error [] i = - 1"
| "first_error (t # ts) i = (if isErrorType t then int i else first_error ts (Suc i))"

definition add_method ::
  "'a \<Rightarrow> 'a Callbacks \<times> 'a Callbacks \<Rightarrow> gmethod \<Rightarrow> 'a Callbacks \<times> 'a Callbacks" where
  "add_method rcvr acc m =
     (let (callbacks, subscriptions) = acc;
          mname = formatName (gm_Name m);
          numIn = length (gm_In m);
          numOut = length (gm_Out m);
          hasCtx = (numIn \<ge> 2 \<and> gm_In m ! 1 = contextType);
          firstArg = (if hasCtx then 2 else 1);
          argTypes = drop firstArg (gm_In m);
          h = \<lparr>cb_Rcvr = rcvr, cb_Method = m, cb_ArgTypes = argTypes, cb_HasCtx = hasCtx,
               cb_ErrPos = - 1, cb_IsSubscribe = isPubSub m\<rparr>
      in
      if gm_PkgPath m \<noteq> '''' then acc
      else if isPubSub m then
        (if list_all isExportedOrBuiltinType argTypes
         then (callbacks, AList.update mname h subscriptions) else acc)
      else if \<not> list_all isExportedOrBuiltinType argTypes then acc
      else if \<not> list_all isExportedOrBuiltinType (gm_Out m) then acc
      else
        (let errPos = first_error (gm_Out m) 0 in
         if errPos \<ge> 0 \<and> errPos \<noteq> int numOut - 1 then acc
         else if numOut = 0 \<or> numOut = 1 \<or> numOut = 2 then
           (if numOut = 2 \<and> errPos = - 1 then acc
            else (AList.update mname (h\<lparr>cb_ErrPos := errPos\<rparr>) callbacks, subscriptions))
         else acc))"

definition suitableCallbacks :: "'a \<Rightarrow> gmethod list \<Rightarrow> 'a Callbacks \<times> 'a Callbacks" where
  "suitableCallbacks rcvr methods = foldl (add_method rcvr) ([], []) methods"

section \<open>server.go: registration\<close>

text \<open>\<open>reflect.Indirect\<close> removes one pointer; a pointer type has no name.\<close>

definition indirect_name :: "gtype \<Rightarrow> string" where
  "indirect_name t =
     (case t of TPtr (TPtr u) \<Rightarrow> '''' | TPtr (TBase n p e k) \<Rightarrow> n | TBase n p e k \<Rightarrow> n)"

definition merge_callbacks :: "'a Callbacks \<Rightarrow> 'a Callbacks \<Rightarrow> 'a Callbacks" where
  "merge_callbacks old new =
     foldl (\<lambda>acc (k, m). AList.update (formatName (gm_Name (cb_Method m))) m acc) old new"

definition RegisterName ::
  "string \<Rightarrow> 'a receiver \<Rightarrow> 'a ServiceRegistry \<Rightarrow> 'a ServiceRegistry \<times> string option" where
  "RegisterName name rcvr services =
     (if name = '''' then (services, Some (''no service name for type '' @ rc_String rcvr))
      else if \<not> isExported (indirect_name (rc_Type rcvr)) then
        (services, Some (indirect_name (rc_Type rcvr) @ '' is not exported''))
      else
        (let (methods, subscriptions) = suitableCallbacks (rc_Value rcvr) (rc_Methods rcvr);
             nothing = Some (''Service '' @ rc_String rcvr @
               '' doesn't have any suitable methods/Subscriptions to expose'')
         in case map_of services name of
           Some regsvc \<Rightarrow>
             if methods = [] \<and> subscriptions = [] then (services, nothing)
             else (AList.update name
                     (regsvc\<lparr>svc_Callbacks := merge_callbacks (svc_Callbacks regsvc) methods,
                        svc_Subscriptions := merge_callbacks (svc_Subscriptions regsvc) subscriptions\<rparr>)
                     services, None)
         | None \<Rightarrow>
             if methods = [] \<and> subscriptions = [] then (services, nothing)
             else (AList.update name
                     \<lparr>svc_Name = name, svc_Typ = rc_Type rcvr, svc_Callbacks = methods,
                      svc_Subscriptions = subscriptions\<rparr> services, None)))"

text \<open>The metadata service that every server registers about itself.\<close>

definition MetadataApi :: string where "MetadataApi = ''rpc''"

definition Modules :: "'a ServiceRegistry \<Rightarrow> (string \<times> string) list" where
  "Modules services = map (\<lambda>(name, svc). (name, ''1.0'')) services"

definition RPCService :: "'a \<Rightarrow> 'a receiver" where
  "RPCService server =
     (let t = TPtr (TBase ''RPCService'' ''airman.com/airfk/pkg/server'' False False) in
      \<lparr>rc_Value = server, rc_Type = t, rc_String = ''*server.RPCService'',
       rc_Methods = [\<lparr>gm_Name = ''Modules'', gm_PkgPath = '''', gm_In = [t],
                      gm_Out = [TBase '''' '''' False True]\<rparr>]\<rparr>)"

definition NewServer_services :: "'a \<Rightarrow> 'a ServiceRegistry" where
  "NewServer_services server = fst (RegisterName MetadataApi (RPCService server) [])"

section \<open>Which methods become callbacks\<close>

text \<open>The documented criteria, method by method.\<close>

definition arg_types :: "gmethod \<Rightarrow> gtype list" where
  "arg_types m =
     (if length (gm_In m) \<ge> 2 \<and> gm_In m ! 1 = contextType then drop 2 (gm_In m) else drop 1 (gm_In m))"

definition good_results :: "gtype list \<Rightarrow> bool" where
  "good_results out =
     (case out of [] \<Rightarrow> True | [t] \<Rightarrow> True
      | [t, e] \<Rightarrow> \<not> isErrorType t \<and> isErrorType e | _ \<Rightarrow> False)"

definition is_callback :: "gmethod \<Rightarrow> bool" where
  "is_callback m \<longleftrightarrow>
     gm_PkgPath m = '''' \<and> \<not> isPubSub m \<and> list_all isExportedOrBuiltinType (arg_types m)
     \<and> list_all isExportedOrBuiltinType (gm_Out m) \<and> good_results (gm_Out m)"

definition is_subscription :: "gmethod \<Rightarrow> bool" where
  "is_subscription m \<longleftrightarrow>
     gm_PkgPath m = '''' \<and> isPubSub m \<and> list_all isExportedOrBuiltinType (arg_types m)"

definition callback_of :: "'a \<Rightarrow> gmethod \<Rightarrow> 'a Callback" where
  "callback_of rcvr m =
     \<lparr>cb_Rcvr = rcvr, cb_Method = m, cb_ArgTypes = arg_types m,
      cb_HasCtx = (length (gm_In m) \<ge> 2 \<and> gm_In m ! 1 = contextType),
      cb_ErrPos = (if isPubSub m then - 1 else first_error (gm_Out m) 0),
      cb_IsSubscribe = isPubSub m\<rparr>"

lemma good_results_iff:
  "good_results out \<longleftrightarrow>
     \<not> (first_error out 0 \<ge> 0 \<and> first_error out 0 \<noteq> int (length out) - 1)
     \<and> (length out = 0 \<or> length out = 1 \<or> length out = 2)
     \<and> \<not> (length out = 2 \<and> first_error out 0 = - 1)"
proof -
  consider "out = []" | t where "out = [t]" | t e where "out = [t, e]"
    | t e u us where "out = t # e # u # us"
    by (metis neq_Nil_conv)
  then show ?thesis by cases (auto simp: good_results_def)
qed

lemma add_method_eq:
  "add_method rcvr (cbs, subs) m =
     (if is_callback m then AList.update (formatName (gm_Name m)) (callback_of rcvr m) cbs else cbs,
      if is_subscription m then AList.update (formatName (gm_Name m)) (callback_of rcvr m) subs else subs)"
  by (simp add: add_method_def is_callback_def is_subscription_def good_results_iff arg_types_def
      callback_of_def Let_def)

definition method_for :: "(gmethod \<Rightarrow> bool) \<Rightarrow> string \<Rightarrow> gmethod list \<Rightarrow> gmethod option" where
  "method_for P k methods = find (\<lambda>m. P m \<and> formatName (gm_Name m) = k) (rev methods)"

lemma method_for_snoc:
  "method_for P k (ms @ [m]) = (if P m \<and> formatName (gm_Name m) = k then Some m else method_for P k ms)"
  by (simp add: method_for_def)

lemma map_of_update: "map_of (AList.update k v al) k' = (if k' = k then Some v else map_of al k')"
  by (simp add: update_conv')

definition keyed :: "'a Callbacks \<Rightarrow> bool" where
  "keyed cbs \<longleftrightarrow> distinct (map fst cbs) \<and> (\<forall>(k, h) \<in> set cbs. k = formatName (gm_Name (cb_Method h)))"

lemma keyed_Nil [simp]: "keyed []"
  by (simp add: keyed_def)

lemma keyed_map_of: "keyed cbs \<Longrightarrow> map_of cbs k = Some h \<Longrightarrow> k = formatName (gm_Name (cb_Method h))"
  by (auto simp: keyed_def dest: map_of_SomeD)

lemma keyed_iff: "keyed cbs \<longleftrightarrow> distinct (map fst cbs)
    \<and> (\<forall>k h. map_of cbs k = Some h \<longrightarrow> k = formatName (gm_Name (cb_Method h)))"
  by (auto simp: keyed_def dest: map_of_SomeD map_of_is_SomeI)

lemma keyed_update: "keyed cbs \<Longrightarrow> keyed (AList.update (formatName (gm_Name (cb_Method h))) h cbs)"
  by (auto simp: keyed_iff distinct_update map_of_update split: if_splits)

lemma cb_Method_callback_of [simp]: "cb_Method (callback_of rcvr m) = m"
  by (simp add: callback_of_def)

lemma suitable_snoc:
  "suitableCallbacks rcvr (ms @ [m]) = add_method rcvr (suitableCallbacks rcvr ms) m"
  by (simp add: suitableCallbacks_def)

lemma suitable_lookup:
  "map_of (fst (suitableCallbacks rcvr ms)) k = map_option (callback_of rcvr) (method_for is_callback k ms)"
  "map_of (snd (suitableCallbacks rcvr ms)) k = map_option (callback_of rcvr) (method_for is_subscription k ms)"
proof (induction ms rule: rev_induct)
  case Nil
  { case 1 show ?case by (simp add: suitableCallbacks_def method_for_def) }
  { case 2 show ?case by (simp add: suitableCallbacks_def method_for_def) }
next
  case (snoc m ms)
  obtain cbs subs where acc: "suitableCallbacks rcvr ms = (cbs, subs)" by fastforce
  { case 1 with snoc acc show ?case
      by (simp add: suitable_snoc add_method_eq method_for_snoc map_of_update) }
  { case 2 with snoc acc show ?case
      by (simp add: suitable_snoc add_method_eq method_for_snoc map_of_update) }
qed

lemma suitable_keyed:
  "keyed (fst (suitableCallbacks rcvr ms))" "keyed (snd (suitableCallbacks rcvr ms))"
proof (induction ms rule: rev_induct)
  case (snoc m ms)
  obtain cbs subs where acc: "suitableCallbacks rcvr ms = (cbs, subs)" by fastforce
  { case 1 with snoc acc keyed_update[of cbs "callback_of rcvr m"] show ?case
      by (simp add: suitable_snoc add_method_eq) }
  { case 2 with snoc acc keyed_update[of subs "callback_of rcvr m"] show ?case
      by (simp add: suitable_snoc add_method_eq) }
qed (simp_all add: suitableCallbacks_def)

text \<open>C24: a method is offered as an RPC method under its name with a lower-case first letter
  exactly when it is exported, takes exported or builtin types after the optional context
  and returns nothing, one value, one error, or a value and an error; it is offered as a
  subscription exactly when it takes a context and returns a subscription and an error.
  Of two methods with the same formatted name the later one is offered.\<close>

theorem suitableCallbacks_correct:
  "map_of (fst (suitableCallbacks rcvr ms)) k =
     map_option (callback_of rcvr) (find (\<lambda>m. is_callback m \<and> formatName (gm_Name m) = k) (rev ms))
   \<and> map_of (snd (suitableCallbacks rcvr ms)) k =
     map_option (callback_of rcvr) (find (\<lambda>m. is_subscription m \<and> formatName (gm_Name m) = k) (rev ms))"
  using suitable_lookup[of rcvr ms k] by (simp add: method_for_def)

section \<open>Registration\<close>

lemma merge_lookup:
  assumes "keyed new"
  shows "map_of (merge_callbacks old new) k = (case map_of new k of Some h \<Rightarrow> Some h | None \<Rightarrow> map_of old k)"
  using assms
proof (induction new arbitrary: old)
  case (Cons kh new)
  obtain k' h where kh: "kh = (k', h)" by fastforce
  with Cons.prems have new: "keyed new" "k' = formatName (gm_Name (cb_Method h))" "k' \<notin> fst ` set new"
    by (auto simp: keyed_def)
  then have "map_of new k' = None" by (simp add: map_of_eq_None_iff)
  moreover have "merge_callbacks old (kh # new) = merge_callbacks (AList.update k' h old) new"
    by (simp add: merge_callbacks_def kh new(2))
  ultimately show ?case using Cons.IH[OF new(1)] by (auto simp: kh map_of_update split: option.split)
qed (simp add: merge_callbacks_def)

definition callback_at :: "'a ServiceRegistry \<Rightarrow> string \<Rightarrow> string \<Rightarrow> 'a Callback option" where
  "callback_at services s k = Option.bind (map_of services s) (\<lambda>svc. map_of (svc_Callbacks svc) k)"

definition subscription_at :: "'a ServiceRegistry \<Rightarrow> string \<Rightarrow> string \<Rightarrow> 'a Callback option" where
  "subscription_at services s k = Option.bind (map_of services s) (\<lambda>svc. map_of (svc_Subscriptions svc) k)"

definition registry_inv :: "'a ServiceRegistry \<Rightarrow> bool" where
  "registry_inv services \<longleftrightarrow> (\<forall>s svc. map_of services s = Some svc \<longrightarrow>
     s \<noteq> '''' \<and> svc_Name svc = s \<and> (svc_Callbacks svc \<noteq> [] \<or> svc_Subscriptions svc \<noteq> []))"

lemma update_not_Nil [simp]: "AList.update k v al \<noteq> []"
  by (cases al) (auto split: if_splits)

lemma merge_Cons:
  "merge_callbacks old (kh # new) =
     merge_callbacks (AList.update (formatName (gm_Name (cb_Method (snd kh)))) (snd kh) old) new"
  by (simp add: merge_callbacks_def case_prod_beta)

lemma merge_Nil [simp]: "merge_callbacks old [] = old"
  by (simp add: merge_callbacks_def)

lemma merge_not_Nil: "old \<noteq> [] \<Longrightarrow> merge_callbacks old new \<noteq> []"
  by (induction new arbitrary: old) (simp_all add: merge_Cons)

lemma merge_Nil_iff: "merge_callbacks old new = [] \<longleftrightarrow> old = [] \<and> new = []"
  by (cases new) (simp_all add: merge_Cons merge_not_Nil)

lemma RegisterName_lookup:
  assumes "RegisterName name rcvr services = (services', None)"
  shows "callback_at services' s k =
      (if s = name then
         case method_for is_callback k (rc_Methods rcvr) of
           Some m \<Rightarrow> Some (callback_of (rc_Value rcvr) m) | None \<Rightarrow> callback_at services s k
       else callback_at services s k)"
    and "subscription_at services' s k =
      (if s = name then
         case method_for is_subscription k (rc_Methods rcvr) of
           Some m \<Rightarrow> Some (callback_of (rc_Value rcvr) m) | None \<Rightarrow> subscription_at services s k
       else subscription_at services s k)"
proof -
  obtain cbs subs where s: "suitableCallbacks (rc_Value rcvr) (rc_Methods rcvr) = (cbs, subs)" by fastforce
  have look: "map_of cbs k = map_option (callback_of (rc_Value rcvr)) (method_for is_callback k (rc_Methods rcvr))"
    "map_of subs k = map_option (callback_of (rc_Value rcvr)) (method_for is_subscription k (rc_Methods rcvr))"
    and key: "keyed cbs" "keyed subs"
    using suitable_lookup[of "rc_Value rcvr" "rc_Methods rcvr" k]
      suitable_keyed[of "rc_Value rcvr" "rc_Methods rcvr"] s by simp_all
  from assms s show "callback_at services' s k = (if s = name then
         case method_for is_callback k (rc_Methods rcvr) of
           Some m \<Rightarrow> Some (callback_of (rc_Value rcvr) m) | None \<Rightarrow> callback_at services s k
       else callback_at services s k)"
    and "subscription_at services' s k = (if s = name then
         case method_for is_subscription k (rc_Methods rcvr) of
           Some m \<Rightarrow> Some (callback_of (rc_Value rcvr) m) | None \<Rightarrow> subscription_at services s k
       else subscription_at services s k)"
    by (auto simp: RegisterName_def Let_def callback_at_def subscription_at_def map_of_update look
        merge_lookup[OF key(1)] merge_lookup[OF key(2)] split: if_splits option.splits)
qed

lemma RegisterName_error: "RegisterName name rcvr services = (services', Some e) \<Longrightarrow> services' = services"
  by (auto simp: RegisterName_def Let_def split: if_splits option.splits prod.splits)

lemma registry_inv_RegisterName:
  assumes "registry_inv services"
  shows "registry_inv (fst (RegisterName name rcvr services))"
  using assms
  by (auto simp: registry_inv_def RegisterName_def Let_def map_of_update merge_Nil_iff
      split: if_splits option.splits prod.splits)

lemma suitable_Nil_iff:
  "fst (suitableCallbacks rcvr ms) = [] \<longleftrightarrow> list_all (\<lambda>m. \<not> is_callback m) ms"
  "snd (suitableCallbacks rcvr ms) = [] \<longleftrightarrow> list_all (\<lambda>m. \<not> is_subscription m) ms"
proof (induction ms rule: rev_induct)
  case (snoc m ms)
  obtain cbs subs where acc: "suitableCallbacks rcvr ms = (cbs, subs)" by fastforce
  { case 1 with snoc acc show ?case by (simp add: suitable_snoc add_method_eq) }
  { case 2 with snoc acc show ?case by (simp add: suitable_snoc add_method_eq) }
qed (simp_all add: suitableCallbacks_def)

text \<open>What registration asks of a name and a receiver.\<close>

definition registrable :: "string \<Rightarrow> 'a receiver \<Rightarrow> bool" where
  "registrable name rcvr \<longleftrightarrow> name \<noteq> '''' \<and> isExported (indirect_name (rc_Type rcvr))
     \<and> list_ex (\<lambda>m. is_callback m \<or> is_subscription m) (rc_Methods rcvr)"

lemma RegisterName_ok_iff: "snd (RegisterName name rcvr services) = None \<longleftrightarrow> registrable name rcvr"
proof -
  obtain cbs subs where s: "suitableCallbacks (rc_Value rcvr) (rc_Methods rcvr) = (cbs, subs)" by fastforce
  have "registrable name rcvr \<longleftrightarrow>
      \<not> (name = '''' \<or> \<not> isExported (indirect_name (rc_Type rcvr)) \<or> cbs = [] \<and> subs = [])"
    using suitable_Nil_iff[of "rc_Value rcvr" "rc_Methods rcvr"] s
    by (auto simp: registrable_def list_all_iff list_ex_iff)
  then show ?thesis by (auto simp: s RegisterName_def Let_def split: option.splits)
qed

text \<open>C25: registering a receiver fails, and then changes nothing, exactly when the name is empty,
  the receiver's type is not exported or none of its methods is suitable. When it succeeds,
  the methods and subscriptions of the receiver are offered under that name, those registered
  before under the name stay unless the receiver has one of the same name, and every other
  service is as before.\<close>

theorem RegisterName_correct:
  "case RegisterName name rcvr services of
     (services', Some e) \<Rightarrow>
       services' = services \<and> \<not> registrable name rcvr
   | (services', None) \<Rightarrow>
       registrable name rcvr
       \<and> (\<forall>s k. callback_at services' s k =
             (case (if s = name then method_for is_callback k (rc_Methods rcvr) else None) of
                Some m \<Rightarrow> Some (callback_of (rc_Value rcvr) m) | None \<Rightarrow> callback_at services s k)
           \<and> subscription_at services' s k =
             (case (if s = name then method_for is_subscription k (rc_Methods rcvr) else None) of
                Some m \<Rightarrow> Some (callback_of (rc_Value rcvr) m) | None \<Rightarrow> subscription_at services s k))"
proof -
  obtain services' err where r: "RegisterName name rcvr services = (services', err)" by fastforce
  note ok = RegisterName_ok_iff[of name rcvr services, unfolded r]
  show ?thesis
  proof (cases err)
    case (Some e)
    with r ok RegisterName_error[of name rcvr services services' e] show ?thesis by simp
  next
    case None
    with r ok RegisterName_lookup[OF r[unfolded None]] show ?thesis by simp
  qed
qed

fun register_all :: "(string \<times> 'a receiver) list \<Rightarrow> 'a ServiceRegistry \<Rightarrow> 'a ServiceRegistry" where
  "register_all [] services = services"
| "register_all ((name, rcvr) # rs) services = register_all rs (fst (RegisterName name rcvr services))"

lemma registry_inv_Nil [simp]: "registry_inv []"
  by (simp add: registry_inv_def)

lemma registry_inv_all: "registry_inv services \<Longrightarrow> registry_inv (register_all rs services)"
  by (induction rs services rule: register_all.induct) (simp_all add: registry_inv_RegisterName)

text \<open>the registries that any sequence of registrations builds from a new server hold no
  empty name and no empty service, and name every service as it is registered.\<close>

theorem registry_invariant:
  "registry_inv (register_all rs (NewServer_services server))
   \<and> callback_at (NewServer_services server) ''rpc'' ''modules'' \<noteq> None"
proof
  show "registry_inv (register_all rs (NewServer_services server))"
    by (simp add: registry_inv_all registry_inv_RegisterName NewServer_services_def)
  show "callback_at (NewServer_services server) ''rpc'' ''modules'' \<noteq> None"
  proof -
    have "isExported ''RPCService''" "formatName ''Modules'' = ''modules''" by code_simp+
    then show ?thesis
      by (simp add: NewServer_services_def RegisterName_def RPCService_def MetadataApi_def
          indirect_name_def suitableCallbacks_def add_method_eq callback_at_def is_callback_def
          isPubSub_def arg_types_def good_results_def isExportedOrBuiltinType_def Let_def)
  qed
qed

end
