(* ===== verification/Rpc_Notifier.thy ===== *)
theory Rpc_Notifier
  imports Json_Codec
begin

text \<open>
  Subscriptions of a connection (src/pkg/server/subscription.go): the notifier with its maps
  of inactive and active subscriptions, its operations, and the generation of IDs.

  A \<open>*Subscription\<close> is an address in \<open>nt_heap\<close>; the two maps share the objects, as the
  pointers of the source do. Every operation holds the notifier's lock throughout and is one
  step. The panic of closing a channel twice is the result \<open>None\<close>.
\<close>

section \<open>State and operations\<close>

record Subscription =
  sb_ID :: string
  sb_namespace :: string
  sb_err_closed :: bool

record 'v Notifier =
  nt_codec :: "'v JsonCodec"
  nt_heap :: "Subscription list"
  nt_active :: "string \<rightharpoonup> nat"
  nt_inactive :: "string \<rightharpoonup> nat"

definition ErrNotificationsUnsupported :: string where
  "ErrNotificationsUnsupported = ''notifications not supported''"

definition ErrSubscriptionNotFound :: string where
  "ErrSubscriptionNotFound = ''subscription not found''"

definition newNotifier :: "'v JsonCodec \<Rightarrow> 'v Notifier" where
  "newNotifier codec =
     \<lparr>nt_codec = codec, nt_heap = [], nt_active = Map.empty, nt_inactive = Map.empty\<rparr>"

text \<open>
  \<open>vals\<close> are the numbers that successive calls of \<open>Int63\<close> return; each supplies up to seven
  bytes, the lowest first.
\<close>

fun id_chunk :: "u64 \<Rightarrow> nat \<Rightarrow> byte list" where
  "id_chunk val 0 = []"
| "id_chunk val (Suc n) = ucast val # id_chunk (drop_bit 8 val) n"

function id_bytes :: "nat \<Rightarrow> (nat \<Rightarrow> u64) \<Rightarrow> nat \<Rightarrow> byte list" where
  "id_bytes i vals len =
     (if i < len then id_chunk (vals i) (min 7 (len - i)) @ id_bytes (i + 7) vals len else [])"
  by pat_completeness auto

termination
  by (relation "measure (\<lambda>(i, vals, len). len - i)") auto

declare id_bytes.simps [simp del]

definition NewID :: "(nat \<Rightarrow> u64) \<Rightarrow> string" where
  "NewID vals =
     (let rpcId = dropWhile (\<lambda>c. c = CHR ''0'') (hex_Encode (id_bytes 0 vals 16));
          rpcId = (if rpcId = [] then ''0'' else rpcId)
      in ''0x'' @ rpcId)"

definition CreateSubscription :: "(nat \<Rightarrow> u64) \<Rightarrow> 'v Notifier \<Rightarrow> 'v Notifier \<times> nat" where
  "CreateSubscription vals n =
     (let s = \<lparr>sb_ID = NewID vals, sb_namespace = '''', sb_err_closed = False\<rparr>;
          a = length (nt_heap n)
      in (n\<lparr>nt_heap := nt_heap n @ [s], nt_inactive := (nt_inactive n)(sb_ID s \<mapsto> a)\<rparr>, a))"

definition Notify :: "string \<Rightarrow> 'v option \<Rightarrow> 'v Notifier \<Rightarrow> 'v Notifier \<times> string option" where
  "Notify subid data n =
     (case nt_active n subid of
        Some a \<Rightarrow>
          (case Write (CreateNotification subid (sb_namespace (nt_heap n ! a)) data) (nt_codec n) of
             (c, Some err) \<Rightarrow> (n\<lparr>nt_codec := Close c\<rparr>, Some err)
           | (c, None) \<Rightarrow> (n\<lparr>nt_codec := c\<rparr>, None))
      | None \<Rightarrow> (n, None))"

definition Notifier_Closed :: "'v Notifier \<Rightarrow> bool" where
  "Notifier_Closed n = Closed (nt_codec n)"

definition unsubscribe :: "string \<Rightarrow> 'v Notifier \<Rightarrow> ('v Notifier \<times> string option) option" where
  "unsubscribe subid n =
     (case nt_active n subid of
        Some a \<Rightarrow>
          if sb_err_closed (nt_heap n ! a) then None
          else Some (n\<lparr>nt_heap := (nt_heap n)[a := (nt_heap n ! a)\<lparr>sb_err_closed := True\<rparr>],
                       nt_active := (nt_active n)(subid := None)\<rparr>, None)
      | None \<Rightarrow> Some (n, Some ErrSubscriptionNotFound))"

definition activate :: "string \<Rightarrow> string \<Rightarrow> 'v Notifier \<Rightarrow> 'v Notifier" where
  "activate subid namespace n =
     (case nt_inactive n subid of
        Some a \<Rightarrow>
          n\<lparr>nt_heap := (nt_heap n)[a := (nt_heap n ! a)\<lparr>sb_namespace := namespace\<rparr>],
            nt_active := (nt_active n)(subid \<mapsto> a),
            nt_inactive := (nt_inactive n)(subid := None)\<rparr>
      | None \<Rightarrow> n)"

section \<open>The IDs\<close>

lemma digits_horner:
  assumes "\<forall>d \<in> set ds. d < b" and "ds \<noteq> []" and "hd ds \<noteq> 0" and "1 < b"
  shows "digits b (horner b ds) = ds"
  using assms
proof (induction ds rule: rev_induct)
  case (snoc d ds)
  show ?case
  proof (cases "ds = []")
    case True
    with snoc.prems show ?thesis by (simp add: digits_small)
  next
    case False
    with snoc have IH: "digits b (horner b ds) = ds" by simp
    have "0 < horner b ds"
    proof (rule ccontr)
      assume "\<not> 0 < horner b ds"
      then have "ds = [0]" using IH snoc.prems(4) by (simp add: digits_small)
      with False snoc.prems(3) show False by simp
    qed
    then have "b \<le> horner b ds * b + d" by (cases "horner b ds") auto
    with snoc.prems IH show ?thesis by (simp add: digits_step)
  qed
qed simp

fun byte_nibs :: "byte list \<Rightarrow> nat list" where
  "byte_nibs [] = []"
| "byte_nibs (v # vs) = unat (drop_bit 4 v) # unat (v AND 15) # byte_nibs vs"

lemma length_byte_nibs [simp]: "length (byte_nibs bs) = 2 * length bs"
  by (induction bs) simp_all

lemma byte_nibs_less: "\<forall>d \<in> set (byte_nibs bs). d < 16"
  by (induction bs) (simp_all add: nibble_bounds)

lemma hex_Encode_nibs: "hex_Encode bs = map ((!) digits36) (byte_nibs bs)"
proof (induction bs)
  case (Cons v vs)
  have "hextable ! k = digits36 ! k" if "k < 16" for k
  proof -
    have "hextable = take 16 digits36" by code_simp
    then have "hextable ! k = take 16 digits36 ! k" by (rule arg_cong)
    then show ?thesis using that by (simp only: nth_take)
  qed
  with Cons show ?case by (simp add: nibble_bounds)
qed simp

lemma unat_nibs: "unat (v :: byte) = unat (drop_bit 4 v) * 16 + unat (v AND 15)"
proof -
  have "unat (v AND 15) = unat v mod 16"
  proof -
    have "v AND 15 = take_bit 4 v" by (simp add: take_bit_eq_mask mask_eq_exp_minus_1)
    then have "unat (v AND 15) = take_bit 4 (unat v)" by (simp only: unsigned_take_bit_eq)
    then show ?thesis by (simp only: take_bit_eq_mod) simp
  qed
  then show ?thesis by (simp add: unat_drop_bit)
qed

lemma horner_nibs: "horner 16 (byte_nibs bs) = horner 256 (map unat bs)"
proof (induction bs)
  case (Cons v vs)
  have "(16::nat) ^ (2 * length vs) = 256 ^ length vs" by (simp add: power_mult)
  then show ?case using Cons by (simp add: unat_nibs[of v] algebra_simps)
qed simp

lemma horner_dropWhile_0: "horner b (dropWhile (\<lambda>d. d = 0) ds) = horner b ds"
  by (induction ds) simp_all

lemma digits36_0_iff: "d < 16 \<Longrightarrow> digits36 ! d = CHR ''0'' \<longleftrightarrow> d = 0"
  using dig_digits36[of d 16] dig_0_char[of "digits36 ! d"] by auto

lemma trim_hex_Encode:
  "dropWhile (\<lambda>c. c = CHR ''0'') (hex_Encode bs) =
     map ((!) digits36) (dropWhile (\<lambda>d. d = 0) (byte_nibs bs))"
proof -
  have "dropWhile (\<lambda>c. c = CHR ''0'') (map ((!) digits36) ds) =
      map ((!) digits36) (dropWhile (\<lambda>d. d = 0) ds)" if "\<forall>d \<in> set ds. d < 16" for ds
    using that by (induction ds) (auto simp: digits36_0_iff)
  then show ?thesis by (simp add: hex_Encode_nibs byte_nibs_less)
qed

definition id_value :: "(nat \<Rightarrow> u64) \<Rightarrow> nat" where
  "id_value vals = horner 256 (map unat (id_bytes 0 vals 16))"

lemma NewID_digits: "NewID vals = ''0x'' @ map ((!) digits36) (digits 16 (id_value vals))"
proof -
  let ?bs = "id_bytes 0 vals 16" and ?z = "\<lambda>d. d = (0 :: nat)"
  let ?ds = "dropWhile ?z (byte_nibs ?bs)"
  have v: "id_value vals = horner 16 ?ds"
    by (simp add: id_value_def horner_nibs horner_dropWhile_0)
  show ?thesis
  proof (cases "?ds = []")
    case True
    then have "digits 16 (id_value vals) = [0]" unfolding v by (simp only: horner_Nil digits_small)
    with True show ?thesis by (simp add: NewID_def trim_hex_Encode digits36_def)
  next
    case False
    have "\<forall>d \<in> set ?ds. d < 16" using byte_nibs_less set_dropWhileD by fast
    with False hd_dropWhile[OF False] have "digits 16 (horner 16 ?ds) = ?ds"
      by (intro digits_horner) auto
    with False show ?thesis by (auto simp: NewID_def trim_hex_Encode v)
  qed
qed

lemma id_chunk_eq_iff:
  "8 * n \<le> 64 \<Longrightarrow> id_chunk v n = id_chunk w n \<longleftrightarrow> take_bit (8 * n) v = take_bit (8 * n) w"
proof (induction n arbitrary: v w)
  case (Suc n)
  have lt: "k < 64" if "k < 8" for k :: nat using that by simp
  have low: "(ucast v :: byte) = ucast w \<longleftrightarrow> take_bit 8 v = take_bit 8 w"
    by (simp add: bit_eq_iff bit_simps) (metis lt)
  have bits: "bit (take_bit (8 * Suc n) x) k \<longleftrightarrow>
      bit (take_bit 8 x) k \<or> (8 \<le> k \<and> bit (take_bit (8 * n) (drop_bit 8 x)) (k - 8))" for x :: u64 and k
    by (auto simp: bit_simps not_less add.commute)
  have "take_bit (8 * Suc n) v = take_bit (8 * Suc n) w \<longleftrightarrow>
      take_bit 8 v = take_bit 8 w \<and> take_bit (8 * n) (drop_bit 8 v) = take_bit (8 * n) (drop_bit 8 w)"
    (is "?l \<longleftrightarrow> ?r1 \<and> ?r2")
  proof
    assume l: ?l
    have ?r1 using arg_cong[OF l, of "take_bit 8"] by (simp add: min_def)
    moreover have ?r2
      using arg_cong[OF l, of "drop_bit 8"] by (simp add: drop_bit_take_bit)
    ultimately show "?r1 \<and> ?r2" ..
  next
    assume "?r1 \<and> ?r2"
    then show ?l by (intro bit_eqI) (simp only: bits)
  qed
  with Suc low show ?case by simp
qed simp

lemma length_id_chunk [simp]: "length (id_chunk v n) = n"
  by (induction n arbitrary: v) simp_all

lemma id_bytes_16:
  "id_bytes 0 vals 16 = id_chunk (vals 0) 7 @ id_chunk (vals 7) 7 @ id_chunk (vals 14) 2"
  by (simp add: id_bytes.simps)

lemma id_value_less: "id_value vals < 2 ^ 128"
proof -
  have "id_value vals < 256 ^ length (map unat (id_bytes 0 vals 16))"
    unfolding id_value_def using unat_byte_less by (intro horner_less) auto
  then show ?thesis by (simp add: id_bytes_16)
qed

text \<open>C32: a new ID is a well-formed RPC quantity of at most 128 bits: it is the text that
  \<open>EncodeBig\<close> prints for its value and \<open>DecodeBig\<close> reads it back. Two IDs are equal exactly
  when the generator returned the same 56, 56 and 16 low bits.\<close>

theorem NewID_quantity:
  "NewID vals = EncodeBig (int (id_value vals)) \<and> id_value vals < 2 ^ 128
   \<and> DecodeBig (NewID vals) = Inr (int (id_value vals))
   \<and> (NewID vals = NewID vals' \<longleftrightarrow>
        take_bit 56 (vals 0) = take_bit 56 (vals' 0) \<and> take_bit 56 (vals 7) = take_bit 56 (vals' 7)
        \<and> take_bit 16 (vals 14) = take_bit 16 (vals' 14))"
proof (intro conjI)
  have q: "quantity_val (NewID v) = Some (id_value v)" for v
    by (simp only: NewID_digits quantity_val_digits)
  show "NewID vals = EncodeBig (int (id_value vals))" by (simp add: NewID_digits EncodeBig_nonneg)
  show "id_value vals < 2 ^ 128" by (rule id_value_less)
  also have "(2::nat) ^ 128 \<le> 2 ^ 256" by (rule power_increasing) auto
  finally show "DecodeBig (NewID vals) = Inr (int (id_value vals))" by (simp add: DecodeBig_iff q)
  have "NewID vals = NewID vals' \<longleftrightarrow> id_value vals = id_value vals'"
    using q[of vals] q[of vals'] by (metis NewID_digits option.inject)
  also have "\<dots> \<longleftrightarrow> id_bytes 0 vals 16 = id_bytes 0 vals' 16"
    unfolding id_value_def by (metis bytes_eqI id_bytes_16 length_append length_id_chunk)
  also have "\<dots> \<longleftrightarrow> take_bit 56 (vals 0) = take_bit 56 (vals' 0)
      \<and> take_bit 56 (vals 7) = take_bit 56 (vals' 7) \<and> take_bit 16 (vals 14) = take_bit 16 (vals' 14)"
    using id_chunk_eq_iff[of 7] id_chunk_eq_iff[of 2] by (simp add: id_bytes_16)
  finally show "NewID vals = NewID vals' \<longleftrightarrow> take_bit 56 (vals 0) = take_bit 56 (vals' 0)
      \<and> take_bit 56 (vals 7) = take_bit 56 (vals' 7) \<and> take_bit 16 (vals 14) = take_bit 16 (vals' 14)" .
qed

section \<open>The invariant\<close>

text \<open>
  Both maps point to live objects that carry the key as their ID and whose error channel is
  still open, and they share no object.
\<close>

definition entry_ok :: "Subscription list \<Rightarrow> string \<Rightarrow> nat \<Rightarrow> bool" where
  "entry_ok heap subid a \<longleftrightarrow>
     a < length heap \<and> sb_ID (heap ! a) = subid \<and> \<not> sb_err_closed (heap ! a)"

definition notifier_inv :: "'v Notifier \<Rightarrow> bool" where
  "notifier_inv n \<longleftrightarrow>
     (\<forall>i a. nt_active n i = Some a \<longrightarrow> entry_ok (nt_heap n) i a) \<and>
     (\<forall>i a. nt_inactive n i = Some a \<longrightarrow> entry_ok (nt_heap n) i a) \<and>
     (\<forall>i a. nt_active n i = Some a \<longrightarrow> nt_inactive n i \<noteq> Some a)"

inductive notifier_step :: "'v Notifier \<Rightarrow> 'v Notifier \<Rightarrow> bool" where
  step_create: "notifier_step n (fst (CreateSubscription vals n))"
| step_notify: "notifier_step n (fst (Notify subid data n))"
| step_unsubscribe: "unsubscribe subid n = Some (n', r) \<Longrightarrow> notifier_step n n'"
| step_activate: "notifier_step n (activate subid ns n)"

lemma entry_ok_frame:
  "entry_ok heap i a \<Longrightarrow> entry_ok (heap @ [s]) i a"
  "entry_ok heap i a \<Longrightarrow> i \<noteq> sb_ID (heap ! b) \<Longrightarrow> entry_ok (heap[b := x]) i a"
  "entry_ok heap i a \<Longrightarrow> entry_ok (heap[b := (heap ! b)\<lparr>sb_namespace := ns\<rparr>]) i a"
  by (cases "a = b"; auto simp: entry_ok_def nth_append)+

lemma inv_new [simp]: "notifier_inv (newNotifier c)"
  by (simp add: notifier_inv_def newNotifier_def)

lemma inv_create: "notifier_inv n \<Longrightarrow> notifier_inv (fst (CreateSubscription vals n))"
  by (auto simp: notifier_inv_def CreateSubscription_def Let_def entry_ok_frame)
    (auto simp: entry_ok_def)

lemma Notify_frame [simp]:
  "nt_heap (fst (Notify i d n)) = nt_heap n" "nt_active (fst (Notify i d n)) = nt_active n"
  "nt_inactive (fst (Notify i d n)) = nt_inactive n"
  by (simp_all add: Notify_def split: option.split prod.split)

lemma inv_notify: "notifier_inv n \<Longrightarrow> notifier_inv (fst (Notify i d n))"
  by (simp add: notifier_inv_def)

lemma unsubscribe_active:
  assumes "notifier_inv n" and "nt_active n i = Some a"
  shows "unsubscribe i n =
    Some (n\<lparr>nt_heap := (nt_heap n)[a := (nt_heap n ! a)\<lparr>sb_err_closed := True\<rparr>],
            nt_active := (nt_active n)(i := None)\<rparr>, None)"
  using assms by (auto simp: unsubscribe_def notifier_inv_def entry_ok_def)

lemma unsubscribe_inactive: "nt_active n i = None \<Longrightarrow> unsubscribe i n = Some (n, Some ErrSubscriptionNotFound)"
  by (simp add: unsubscribe_def)

lemma inv_unsubscribe:
  assumes inv: "notifier_inv n" and un: "unsubscribe i n = Some (n', r)"
  shows "notifier_inv n'"
proof (cases "nt_active n i")
  case None
  with assms show ?thesis by (simp add: unsubscribe_inactive)
next
  case (Some a)
  let ?h = "(nt_heap n)[a := (nt_heap n ! a)\<lparr>sb_err_closed := True\<rparr>]"
  have a: "entry_ok (nt_heap n) i a" "nt_inactive n i \<noteq> Some a"
    using inv Some by (auto simp: notifier_inv_def)
  have keep: "entry_ok ?h k b" if "entry_ok (nt_heap n) k b" "b \<noteq> a" for k b
    using that by (simp add: entry_ok_def)
  have ne: "b \<noteq> a" if "entry_ok (nt_heap n) k b" "k \<noteq> i" for k b
    using that a(1) by (auto simp: entry_ok_def)
  have n': "n' = n\<lparr>nt_heap := ?h, nt_active := (nt_active n)(i := None)\<rparr>"
    using un by (simp add: unsubscribe_active[OF inv Some])
  have "entry_ok ?h k b" if "nt_inactive n k = Some b" for k b
  proof -
    have b: "entry_ok (nt_heap n) k b" using inv that by (simp add: notifier_inv_def)
    moreover have "b \<noteq> a" using that a(2) ne[OF b] by (cases "k = i") auto
    ultimately show ?thesis by (rule keep)
  qed
  moreover have "entry_ok ?h k b" if "nt_active n k = Some b" "k \<noteq> i" for k b
    using that inv ne[of k b] keep[of k b] by (simp add: notifier_inv_def)
  ultimately show ?thesis using inv by (auto simp: n' notifier_inv_def)
qed

lemma inv_activate: "notifier_inv n \<Longrightarrow> notifier_inv (activate i ns n)"
  by (auto simp: notifier_inv_def activate_def entry_ok_frame split: option.split)

lemmas inv_intros = inv_create inv_notify inv_unsubscribe inv_activate

interpretation notifier: transition_system "\<lambda>n. \<exists>c. n = newNotifier c" notifier_step notifier_inv
  by unfold_locales (auto elim!: notifier_step.cases intro: inv_intros)

text \<open>C31: whatever subscriptions are created, activated, notified and cancelled, also with
  colliding IDs, unsubscribing never closes an error channel twice: it returns, and it
  succeeds exactly for the active IDs, whose subscription is then closed and gone.\<close>

theorem unsubscribe_safe:
  assumes "notifier_step\<^sup>*\<^sup>* (newNotifier c) n"
  shows "case nt_active n i of
      Some a \<Rightarrow> \<exists>n'. unsubscribe i n = Some (n', None) \<and> nt_active n' i = None
        \<and> sb_ID (nt_heap n' ! a) = i \<and> sb_err_closed (nt_heap n' ! a)
    | None \<Rightarrow> unsubscribe i n = Some (n, Some ErrSubscriptionNotFound)"
proof -
  have inv: "notifier_inv n" using assms by (rule notifier.reachable_inv[rotated]) blast
  then show ?thesis
    by (auto simp: unsubscribe_active unsubscribe_inactive notifier_inv_def entry_ok_def
        split: option.split)
qed

theorem unsubscribe_safe_witness:
  "\<exists>n'. unsubscribe (NewID (\<lambda>_. 0)) (activate (NewID (\<lambda>_. 0)) ''eth''
      (fst (CreateSubscription (\<lambda>_. 0) (newNotifier (NewCodec [] [] :: nat JsonCodec))))) = Some (n', None)"
proof -
  let ?start = "newNotifier (NewCodec [] [] :: nat JsonCodec)" and ?i = "NewID (\<lambda>_. 0)"
  let ?n = "activate ?i ''eth'' (fst (CreateSubscription (\<lambda>_. 0) ?start))"
  have steps: "notifier_step\<^sup>*\<^sup>* ?start ?n"
    by (meson rtranclp.intros step_create step_activate)
  have "nt_active ?n ?i = Some 0"
    by (simp add: activate_def CreateSubscription_def newNotifier_def)
  with unsubscribe_safe[OF steps, of ?i] show ?thesis by auto
qed

section \<open>Refinement\<close>

text \<open>
  The contract of the notifier without objects and addresses: the namespaces of the active
  subscriptions by ID, and the IDs that wait for activation.
\<close>

record sub_spec =
  sp_active :: "string \<rightharpoonup> string"
  sp_pending :: "string set"

definition abs_notifier :: "'v Notifier \<Rightarrow> sub_spec" where
  "abs_notifier n =
     \<lparr>sp_active = (\<lambda>i. map_option (\<lambda>a. sb_namespace (nt_heap n ! a)) (nt_active n i)),
      sp_pending = dom (nt_inactive n)\<rparr>"

definition spec_create :: "string \<Rightarrow> sub_spec \<Rightarrow> sub_spec" where
  "spec_create i s = s\<lparr>sp_pending := insert i (sp_pending s)\<rparr>"

definition spec_activate :: "string \<Rightarrow> string \<Rightarrow> sub_spec \<Rightarrow> sub_spec" where
  "spec_activate i ns s =
     (if i \<in> sp_pending s
      then \<lparr>sp_active = (sp_active s)(i \<mapsto> ns), sp_pending = sp_pending s - {i}\<rparr> else s)"

definition spec_unsubscribe :: "string \<Rightarrow> sub_spec \<Rightarrow> sub_spec \<times> string option" where
  "spec_unsubscribe i s =
     (if sp_active s i = None then (s, Some ErrSubscriptionNotFound)
      else (s\<lparr>sp_active := (sp_active s)(i := None)\<rparr>, None))"

definition spec_notify :: "string \<Rightarrow> 'v option \<Rightarrow> sub_spec \<Rightarrow> 'v message list" where
  "spec_notify i data s =
     (case sp_active s i of None \<Rightarrow> [] | Some ns \<Rightarrow> [CreateNotification i ns data])"

lemma inv_activeD: "notifier_inv n \<Longrightarrow> nt_active n i = Some a \<Longrightarrow> entry_ok (nt_heap n) i a"
  and inv_inactiveD: "notifier_inv n \<Longrightarrow> nt_inactive n i = Some a \<Longrightarrow> entry_ok (nt_heap n) i a"
  by (simp_all add: notifier_inv_def)

lemma abs_create:
  assumes "notifier_inv n"
  shows "abs_notifier (fst (CreateSubscription vals n)) = spec_create (NewID vals) (abs_notifier n)"
  using inv_activeD[OF assms]
  by (auto simp: abs_notifier_def CreateSubscription_def Let_def spec_create_def entry_ok_def nth_append
      fun_eq_iff map_option_case split: option.split)

lemma abs_activate:
  assumes "notifier_inv n"
  shows "abs_notifier (activate i ns n) = spec_activate i ns (abs_notifier n)"
proof (cases "nt_inactive n i")
  case None
  then show ?thesis by (auto simp: abs_notifier_def spec_activate_def activate_def)
next
  case (Some a)
  have a: "entry_ok (nt_heap n) i a" using inv_inactiveD[OF assms Some] .
  have "b \<noteq> a" if "nt_active n k = Some b" "k \<noteq> i" for k b
    using inv_activeD[OF assms that(1)] that(2) a by (auto simp: entry_ok_def)
  with Some a show ?thesis
    by (auto simp: abs_notifier_def spec_activate_def activate_def entry_ok_def fun_eq_iff
        map_option_case split: option.split; metis nth_list_update_neq)
qed

lemma abs_unsubscribe:
  assumes "notifier_inv n" and "unsubscribe i n = Some (n', r)"
  shows "(abs_notifier n', r) = spec_unsubscribe i (abs_notifier n)"
proof (cases "nt_active n i")
  case None
  with assms show ?thesis by (auto simp: unsubscribe_inactive spec_unsubscribe_def abs_notifier_def)
next
  case (Some a)
  have "b \<noteq> a" if "nt_active n k = Some b" "k \<noteq> i" for k b
    using inv_activeD[OF assms(1) that(1)] inv_activeD[OF assms(1) Some] that(2)
    by (auto simp: entry_ok_def)
  with assms Some show ?thesis
    by (auto simp: unsubscribe_active spec_unsubscribe_def abs_notifier_def fun_eq_iff
        map_option_case split: option.split if_splits; metis nth_list_update_neq)
qed

lemma Notify_out:
  "jc_out (nt_codec (fst (Notify i d n))) =
     jc_out (nt_codec n) @ (if snd (Notify i d n) = None then spec_notify i d (abs_notifier n) else [])"
proof (cases "nt_active n i")
  case (Some a)
  then show ?thesis
    using Write_out[of "CreateNotification i (sb_namespace (nt_heap n ! a)) d" "nt_codec n"]
    by (auto simp: Notify_def spec_notify_def abs_notifier_def split: prod.split option.split)
qed (simp add: Notify_def spec_notify_def abs_notifier_def)

text \<open>C30: on every reachable state the notifier with its shared objects behaves as the contract
  says: creation, activation and cancellation commute with the abstraction, a notification
  goes to the client exactly when its ID is active, under the namespace it was activated
  with, and notifying changes no subscription.\<close>

theorem notifier_refines:
  assumes "notifier_step\<^sup>*\<^sup>* (newNotifier c) n"
  shows "abs_notifier (fst (CreateSubscription vals n)) = spec_create (NewID vals) (abs_notifier n)
    \<and> abs_notifier (activate i ns n) = spec_activate i ns (abs_notifier n)
    \<and> (\<exists>n' r. unsubscribe i n = Some (n', r) \<and> (abs_notifier n', r) = spec_unsubscribe i (abs_notifier n))
    \<and> abs_notifier (fst (Notify i d n)) = abs_notifier n
    \<and> jc_out (nt_codec (fst (Notify i d n))) = jc_out (nt_codec n)
      @ (if snd (Notify i d n) = None then spec_notify i d (abs_notifier n) else [])"
proof (intro conjI)
  have inv: "notifier_inv n" using assms by (rule notifier.reachable_inv[rotated]) blast
  show "abs_notifier (fst (CreateSubscription vals n)) = spec_create (NewID vals) (abs_notifier n)"
    and "abs_notifier (activate i ns n) = spec_activate i ns (abs_notifier n)"
    using inv by (rule abs_create, rule abs_activate)
  obtain n' r where un: "unsubscribe i n = Some (n', r)"
    using unsubscribe_active[OF inv, of i] unsubscribe_inactive[of n i] by (cases "nt_active n i") auto
  with abs_unsubscribe[OF inv un]
  show "\<exists>n' r. unsubscribe i n = Some (n', r) \<and> (abs_notifier n', r) = spec_unsubscribe i (abs_notifier n)"
    by blast
  show "abs_notifier (fst (Notify i d n)) = abs_notifier n" by (simp add: abs_notifier_def)
qed (rule Notify_out)

theorem notifier_refines_witness:
  "abs_notifier (activate (NewID (\<lambda>_. 0)) ''eth''
      (fst (CreateSubscription (\<lambda>_. 0) (newNotifier (NewCodec [] [] :: nat JsonCodec))))) =
     spec_activate (NewID (\<lambda>_. 0)) ''eth''
      (abs_notifier (fst (CreateSubscription (\<lambda>_. 0) (newNotifier (NewCodec [] [] :: nat JsonCodec)))))"
proof -
  let ?start = "newNotifier (NewCodec [] [] :: nat JsonCodec)"
  have "notifier_step\<^sup>*\<^sup>* ?start (fst (CreateSubscription (\<lambda>_. 0) ?start))"
    by (rule r_into_rtranclp) (rule step_create)
  from notifier_refines[OF this] show ?thesis by blast
qed

end
