(* ===== verification/Rpc_Server.thy ===== *)
theory Rpc_Server
  imports Rpc_Service Rpc_Notifier
begin

text \<open>
  The server proper (src/pkg/server/server.go): resolving requests to callbacks, executing
  them, writing the responses, serving a codec, and stopping.

  The methods of services are code outside the program: \<open>call cb args conn\<close> is the effect of
  \<open>Method.Func.Call\<close>, which may use the notifier of the connection (create subscriptions,
  notify) and returns the values of the method. A panic is the result \<open>None\<close>.
\<close>

section \<open>Requests and connections\<close>

record 'a ServerRequest =
  sv_Id :: RawMessage
  sv_Svcname :: string
  sv_Callb :: "'a Callback option"
  sv_Args :: "'a gval list"
  sv_IsUnsubscribe :: bool
  sv_Err :: "rpc_error option"

definition zero_sreq :: "RawMessage \<Rightarrow> 'a ServerRequest" where
  "zero_sreq reqid = \<lparr>sv_Id = reqid, sv_Svcname = '''', sv_Callb = None, sv_Args = [],
     sv_IsUnsubscribe = False, sv_Err = None\<rparr>"

text \<open>
  A connection: the notifier with the codec it shares with the server, and whether the
  context carries the notifier (the codec option for subscriptions).
\<close>

record 'a conn =
  cn_notifier :: "'a gval Notifier"
  cn_supported :: bool

type_synonym 'a call = "'a Callback \<Rightarrow> 'a gval list \<Rightarrow> 'a conn \<Rightarrow> ('a conn \<times> 'a gval list) option"

definition cn_codec :: "'a conn \<Rightarrow> 'a gval JsonCodec" where
  "cn_codec cn = nt_codec (cn_notifier cn)"

definition set_codec :: "'a gval JsonCodec \<Rightarrow> 'a conn \<Rightarrow> 'a conn" where
  "set_codec c cn = cn\<lparr>cn_notifier := (cn_notifier cn)\<lparr>nt_codec := c\<rparr>\<rparr>"

section \<open>readRequest\<close>

definition verify_request ::
  "(gtype list \<Rightarrow> RawMessage option \<Rightarrow> rpc_error + 'a gval list) \<Rightarrow> 'a ServiceRegistry
   \<Rightarrow> request \<Rightarrow> 'a ServerRequest" where
  "verify_request parse services r =
     (case rq_Err r of
        Some err \<Rightarrow> (zero_sreq (rq_Id r))\<lparr>sv_Err := Some err\<rparr>
      | None \<Rightarrow>
      if rq_IsPubSub r \<and> HasSuffix (rq_Method r) unsubscribeMethodSuffix then
        (case parse [stringType] (rq_Params r) of
           Inr args \<Rightarrow> (zero_sreq (rq_Id r))\<lparr>sv_IsUnsubscribe := True, sv_Args := args\<rparr>
         | Inl err \<Rightarrow> (zero_sreq (rq_Id r))\<lparr>sv_IsUnsubscribe := True,
             sv_Err := Some (InvalidParamsError (rpc_error_msg err))\<rparr>)
      else
      (case map_of services (rq_Service r) of
        None \<Rightarrow> (zero_sreq (rq_Id r))\<lparr>sv_Err := Some (MethodNotFoundError (rq_Service r) (rq_Method r))\<rparr>
      | Some svc \<Rightarrow>
      if rq_IsPubSub r then
        (case map_of (svc_Subscriptions svc) (rq_Method r) of
           Some callb \<Rightarrow>
             (let req = (zero_sreq (rq_Id r))\<lparr>sv_Svcname := svc_Name svc, sv_Callb := Some callb\<rparr> in
              if rq_Params r \<noteq> None \<and> cb_ArgTypes callb \<noteq> [] then
                (case parse (stringType # cb_ArgTypes callb) (rq_Params r) of
                   Inr args \<Rightarrow> req\<lparr>sv_Args := drop 1 args\<rparr>
                 | Inl err \<Rightarrow> req\<lparr>sv_Err := Some (InvalidParamsError (rpc_error_msg err))\<rparr>)
              else req)
         | None \<Rightarrow> (zero_sreq (rq_Id r))\<lparr>sv_Err := Some (MethodNotFoundError (rq_Service r) (rq_Method r))\<rparr>)
      else
      (case map_of (svc_Callbacks svc) (rq_Method r) of
        Some callb \<Rightarrow>
          (let req = (zero_sreq (rq_Id r))\<lparr>sv_Svcname := svc_Name svc, sv_Callb := Some callb\<rparr> in
           if rq_Params r \<noteq> None \<and> cb_ArgTypes callb \<noteq> [] then
             (case parse (cb_ArgTypes callb) (rq_Params r) of
                Inr args \<Rightarrow> req\<lparr>sv_Args := args\<rparr>
              | Inl err \<Rightarrow> req\<lparr>sv_Err := Some (InvalidParamsError (rpc_error_msg err))\<rparr>)
           else req)
      | None \<Rightarrow>
          (zero_sreq (rq_Id r))\<lparr>sv_Err := Some (MethodNotFoundError (rq_Service r) (rq_Method r))\<rparr>)))"

definition readRequest ::
  "('c \<Rightarrow> 'c \<times> headers) \<Rightarrow> (gtype list \<Rightarrow> RawMessage option \<Rightarrow> rpc_error + 'a gval list)
   \<Rightarrow> 'a ServiceRegistry \<Rightarrow> 'c \<Rightarrow> 'c \<times> 'a ServerRequest list \<times> bool \<times> rpc_error option" where
  "readRequest read parse services c =
     (case read c of
        (c', reqs, batch, Some err) \<Rightarrow> (c', [], batch, Some err)
      | (c', reqs, batch, None) \<Rightarrow> (c', map (verify_request parse services) reqs, batch, None))"

section \<open>handle\<close>

text \<open>\<open>reflect.Value.Call\<close> panics unless it gets as many arguments as the method takes.\<close>

definition reflect_Call :: "'a call \<Rightarrow> 'a call" where
  "reflect_Call call cb args cn =
     (if length args = length (gm_In (cb_Method cb)) then call cb args cn else None)"

text \<open>\<open>v.IsNil()\<close> on the value returned at position \<open>i\<close>: a panic where the type has no nil.\<close>

definition reply_IsNil :: "'a Callback \<Rightarrow> 'a gval list \<Rightarrow> nat \<Rightarrow> bool option" where
  "reply_IsNil cb reply i =
     (if i < length reply \<and> i < length (gm_Out (cb_Method cb)) \<and> t_IsNil_ok (gm_Out (cb_Method cb) ! i)
      then Some (v_IsNil (reply ! i)) else None)"

fun as_error :: "'a gval \<Rightarrow> string option" where
  "as_error (VError e) = Some e"
| "as_error _ = None"

fun as_subscription :: "'a gval \<Rightarrow> string option" where
  "as_subscription (VSub i) = Some i"
| "as_subscription _ = None"

definition createSubscription ::
  "'a call \<Rightarrow> 'a Callback \<Rightarrow> 'a gval list \<Rightarrow> 'a conn \<Rightarrow> ('a conn \<times> (string + string)) option" where
  "createSubscription call cb reqargs cn =
     do {
       (cn', reply) \<leftarrow> reflect_Call call cb ([VRcvr (cb_Rcvr cb), VCtx] @ reqargs) cn;
       isnil \<leftarrow> reply_IsNil cb reply 1;
       if \<not> isnil then do { e \<leftarrow> as_error (reply ! 1); Some (cn', Inl e) }
       else do { i \<leftarrow> as_subscription (reply ! 0); Some (cn', Inr i) }
     }"

text \<open>The result of \<open>handle\<close>: the response, and for a subscription the ID and namespace that
  the returned function activates.\<close>

type_synonym 'a handled = "'a conn \<times> 'a gval message \<times> (string \<times> string) option"

definition handle :: "'a call \<Rightarrow> 'a ServerRequest \<Rightarrow> 'a conn \<Rightarrow> 'a handled option" where
  "handle call req cn =
     (case sv_Err req of
        Some err \<Rightarrow> Some (cn, CreateErrorResponse (Some (sv_Id req)) err, None)
      | None \<Rightarrow>
      if sv_IsUnsubscribe req then
        (case sv_Args req of
           VString subid # _ \<Rightarrow>
             if \<not> cn_supported cn then
               Some (cn, CreateErrorResponse (Some (sv_Id req))
                 (CallbackError ErrNotificationsUnsupported), None)
             else
               do {
                 (n, err) \<leftarrow> unsubscribe subid (cn_notifier cn);
                 Some (cn\<lparr>cn_notifier := n\<rparr>,
                   case err of
                     Some e \<Rightarrow> CreateErrorResponse (Some (sv_Id req)) (CallbackError e)
                   | None \<Rightarrow> CreateResponse (Some (sv_Id req)) (Some (VBool True)), None)
               }
         | _ \<Rightarrow> Some (cn, CreateErrorResponse (Some (sv_Id req))
             (InvalidParamsError ''Expected subscription id as first argument''), None))
      else
      (case sv_Callb req of
        None \<Rightarrow> None
      | Some cb \<Rightarrow>
      if cb_IsSubscribe cb then
        do {
          (cn', r) \<leftarrow> createSubscription call cb (sv_Args req) cn;
          (case r of
             Inl e \<Rightarrow> Some (cn', CreateErrorResponse (Some (sv_Id req)) (CallbackError e), None)
           | Inr subid \<Rightarrow>
               Some (cn', CreateResponse (Some (sv_Id req)) (Some (VString subid)),
                 Some (subid, sv_Svcname req)))
        }
      else if length (sv_Args req) \<noteq> length (cb_ArgTypes cb) then
        Some (cn, CreateErrorResponse (Some (sv_Id req))
          (InvalidParamsError (sv_Svcname req @ ''_'' @ gm_Name (cb_Method cb) @ '' expects '' @
             fmt_d (int (length (cb_ArgTypes cb))) @ '' parameters, got '' @
             fmt_d (int (length (sv_Args req))))), None)
      else
        do {
          (cn', reply) \<leftarrow> reflect_Call call cb
             ([VRcvr (cb_Rcvr cb)] @ (if cb_HasCtx cb then [VCtx] else []) @ sv_Args req) cn;
          if reply = [] then Some (cn', CreateResponse (Some (sv_Id req)) None, None)
          else if cb_ErrPos cb \<ge> 0 then
            do {
              isnil \<leftarrow> reply_IsNil cb reply (nat (cb_ErrPos cb));
              if \<not> isnil then
                do {
                  e \<leftarrow> as_error (reply ! nat (cb_ErrPos cb));
                  Some (cn', CreateErrorResponse (Some (sv_Id req)) (CallbackError e), None)
                }
              else Some (cn', CreateResponse (Some (sv_Id req)) (Some (reply ! 0)), None)
            }
          else Some (cn', CreateResponse (Some (sv_Id req)) (Some (reply ! 0)), None)
        }))"

section \<open>exec and execBatch\<close>

text \<open>Writing a response closes the codec on a write error.\<close>

definition write_response :: "'a gval message \<Rightarrow> 'a conn \<Rightarrow> 'a conn" where
  "write_response response cn =
     (let (c, err) = Write response (cn_codec cn)
      in set_codec (if err \<noteq> None then Close c else c) cn)"

text \<open>The function that \<open>handle\<close> returns; without notifier it is called on a nil pointer.\<close>

definition activateSub :: "string \<times> string \<Rightarrow> 'a conn \<Rightarrow> 'a conn option" where
  "activateSub act cn =
     (if cn_supported cn
      then Some (cn\<lparr>cn_notifier := activate (fst act) (snd act) (cn_notifier cn)\<rparr>) else None)"

fun run_callbacks :: "(string \<times> string) list \<Rightarrow> 'a conn \<Rightarrow> 'a conn option" where
  "run_callbacks [] cn = Some cn"
| "run_callbacks (a # as) cn = do { cn' \<leftarrow> activateSub a cn; run_callbacks as cn' }"

definition respond :: "'a call \<Rightarrow> 'a ServerRequest \<Rightarrow> 'a conn \<Rightarrow> 'a handled option" where
  "respond call req cn =
     (case sv_Err req of
        Some err \<Rightarrow> Some (cn, CreateErrorResponse (Some (sv_Id req)) err, None)
      | None \<Rightarrow> handle call req cn)"

definition exec :: "'a call \<Rightarrow> 'a ServerRequest \<Rightarrow> 'a conn \<Rightarrow> 'a conn option" where
  "exec call req cn =
     do {
       (cn', response, callback) \<leftarrow> respond call req cn;
       run_callbacks (case callback of None \<Rightarrow> [] | Some a \<Rightarrow> [a]) (write_response response cn')
     }"

fun respond_all ::
  "'a call \<Rightarrow> 'a ServerRequest list \<Rightarrow> 'a conn
   \<Rightarrow> ('a conn \<times> 'a gval message list \<times> (string \<times> string) list) option" where
  "respond_all call [] cn = Some (cn, [], [])"
| "respond_all call (req # reqs) cn =
     do {
       (cn1, response, callback) \<leftarrow> respond call req cn;
       (cn2, responses, callbacks) \<leftarrow> respond_all call reqs cn1;
       Some (cn2, response # responses, (case callback of None \<Rightarrow> [] | Some a \<Rightarrow> [a]) @ callbacks)
     }"

definition execBatch :: "'a call \<Rightarrow> 'a ServerRequest list \<Rightarrow> 'a conn \<Rightarrow> 'a conn option" where
  "execBatch call reqs cn =
     do {
       (cn', responses, callbacks) \<leftarrow> respond_all call reqs cn;
       run_callbacks callbacks (write_response (MBatch responses) cn')
     }"

section \<open>Resolved requests\<close>

text \<open>The registry as built by registrations: every callback comes from a suitable method.\<close>

definition sound_registry :: "(gmethod \<Rightarrow> bool) \<Rightarrow> 'a ServiceRegistry \<Rightarrow> bool" where
  "sound_registry P services \<longleftrightarrow>
     (\<forall>s k cb. callback_at services s k = Some cb
        \<longrightarrow> (\<exists>rv m. P m \<and> is_callback m \<and> cb = callback_of rv m)) \<and>
     (\<forall>s k cb. subscription_at services s k = Some cb
        \<longrightarrow> (\<exists>rv m. P m \<and> is_subscription m \<and> cb = callback_of rv m))"

lemma method_for_SomeD: "method_for P k ms = Some m \<Longrightarrow> P m \<and> m \<in> set ms"
  by (auto simp: method_for_def find_Some_iff in_set_conv_nth rev_nth)
    (metis diff_Suc_less length_greater_0_conv length_pos_if_in_set nth_mem)

lemma sound_registry_Nil [simp]: "sound_registry P []"
  by (simp add: sound_registry_def callback_at_def subscription_at_def)

lemma sound_registry_RegisterName:
  assumes "sound_registry P services" and "list_all P (rc_Methods rcvr)"
  shows "sound_registry P (fst (RegisterName name rcvr services))"
proof -
  obtain services' err where r: "RegisterName name rcvr services = (services', err)" by fastforce
  show ?thesis
  proof (cases err)
    case (Some e)
    with r assms(1) RegisterName_error[of name rcvr services services' e] show ?thesis by simp
  next
    case None
    note look = RegisterName_lookup[OF r[unfolded None]]
    have "\<exists>rv m. P m \<and> is_callback m \<and> cb = callback_of rv m" if "callback_at services' s k = Some cb" for s k cb
      using that assms method_for_SomeD[of is_callback k "rc_Methods rcvr"]
      unfolding look(1) sound_registry_def list_all_iff by (fastforce split: if_splits option.splits)
    moreover have "\<exists>rv m. P m \<and> is_subscription m \<and> cb = callback_of rv m"
      if "subscription_at services' s k = Some cb" for s k cb
      using that assms method_for_SomeD[of is_subscription k "rc_Methods rcvr"]
      unfolding look(2) sound_registry_def list_all_iff by (fastforce split: if_splits option.splits)
    ultimately show ?thesis by (simp add: r sound_registry_def)
  qed
qed

lemma sound_registry_all:
  "sound_registry P services \<Longrightarrow> list_all (\<lambda>nr. list_all P (rc_Methods (snd nr))) rs
   \<Longrightarrow> sound_registry P (register_all rs services)"
  by (induction rs services rule: register_all.induct) (simp_all add: sound_registry_RegisterName)

text \<open>
  What resolving a request gives: its id is kept, and a request without error is an
  unsubscribe request with one argument or names a registered callback, with no arguments or
  as many as the callback's types.
\<close>

definition resolved :: "(gmethod \<Rightarrow> bool) \<Rightarrow> 'a ServerRequest \<Rightarrow> bool" where
  "resolved P req \<longleftrightarrow> sv_Err req \<noteq> None
     \<or> (sv_IsUnsubscribe req \<and> length (sv_Args req) = 1)
     \<or> (\<not> sv_IsUnsubscribe req \<and> (\<exists>rv m. sv_Callb req = Some (callback_of rv m) \<and> P m \<and>
          (is_callback m \<and> (sv_Args req = [] \<or> length (sv_Args req) = length (arg_types m))
           \<or> is_subscription m \<and> length (sv_Args req) = length (arg_types m))))"

lemma cb_ArgTypes_callback_of [simp]: "cb_ArgTypes (callback_of rv m) = arg_types m"
  by (simp add: callback_of_def)

context server_codec
begin

lemma verify_request_Id: "sv_Id (verify_request parse_args services r) = rq_Id r"
  by (simp add: verify_request_def zero_sreq_def Let_def split: option.split sum.split)

lemma verify_request_resolved:
  assumes "sound_registry P services" and pub: "rq_IsPubSub r \<Longrightarrow> rq_Params r \<noteq> None"
  shows "resolved P (verify_request parse_args services r)"
proof (cases "rq_Err r \<noteq> None \<or> (rq_IsPubSub r \<and> HasSuffix (rq_Method r) unsubscribeMethodSuffix)
    \<or> map_of services (rq_Service r) = None")
  case True
  then show ?thesis
    by (auto simp: verify_request_def zero_sreq_def resolved_def dest!: parse_args_length
        split: option.split sum.split)
next
  case False
  then obtain svc where svc: "map_of services (rq_Service r) = Some svc" and err: "rq_Err r = None"
    and notun: "\<not> (rq_IsPubSub r \<and> HasSuffix (rq_Method r) unsubscribeMethodSuffix)" by auto
  show ?thesis
  proof (cases "rq_IsPubSub r")
    case True
    note P = this
    show ?thesis
    proof (cases "map_of (svc_Subscriptions svc) (rq_Method r)")
      case None
      with P svc err notun show ?thesis by (simp add: verify_request_def zero_sreq_def resolved_def)
    next
      case (Some cb)
      then have "subscription_at services (rq_Service r) (rq_Method r) = Some cb"
        by (simp add: subscription_at_def svc)
      then obtain rv m where m: "P m" "is_subscription m" "cb = callback_of rv m"
        using assms(1) unfolding sound_registry_def by blast
      show ?thesis
      proof (cases "parse_args (stringType # arg_types m) (rq_Params r)")
        case (Inr args)
        have "length args = Suc (length (arg_types m))" using parse_args_length[OF Inr] by simp
        with Inr P svc err notun Some m pub[OF P] show ?thesis
          by (auto simp: verify_request_def zero_sreq_def resolved_def Let_def)
      qed (use P svc err notun Some m pub[OF P] in
          \<open>auto simp: verify_request_def zero_sreq_def resolved_def Let_def\<close>)
    qed
  next
    case False
    note P = this
    show ?thesis
    proof (cases "map_of (svc_Callbacks svc) (rq_Method r)")
      case None
      with P svc err notun show ?thesis by (simp add: verify_request_def zero_sreq_def resolved_def)
    next
      case (Some cb)
      then have "callback_at services (rq_Service r) (rq_Method r) = Some cb"
        by (simp add: callback_at_def svc)
      then obtain rv m where m: "P m" "is_callback m" "cb = callback_of rv m"
        using assms(1) unfolding sound_registry_def by blast
      with P svc err notun Some show ?thesis
        by (auto simp: verify_request_def zero_sreq_def resolved_def Let_def
            dest!: parse_args_length split: sum.split)
    qed
  qed
qed

lemma readRequest_Ids:
  "readRequest read parse_args services c = (c', reqs, b, None) \<Longrightarrow>
     \<exists>hs. read c = (c', hs, b, None) \<and> map sv_Id reqs = map rq_Id hs \<and> length reqs = length hs"
  by (auto simp: readRequest_def verify_request_Id split: prod.splits option.splits)

lemma readRequest_single:
  "readRequest read parse_args services c = (c', reqs, False, None) \<Longrightarrow> \<exists>r. reqs = [r]"
  using readRequest_Ids[of services c c' reqs False] read_single by (fastforce simp: length_Suc_conv)

end

section \<open>Responses\<close>

fun response_ids :: "'v message \<Rightarrow> RawMessage option list" where
  "response_ids (MSuccess r) = [sr_Id r]"
| "response_ids (MError r) = [er_Id r]"
| "response_ids (MNotification n) = []"
| "response_ids (MBatch ms) = concat (map response_ids ms)"

fun announced_ids :: "'a gval message \<Rightarrow> string list" where
  "announced_ids (MSuccess r) = (case sr_Result r of Some (VString i) \<Rightarrow> [i] | _ \<Rightarrow> [])"
| "announced_ids (MBatch ms) = concat (map announced_ids ms)"
| "announced_ids _ = []"

lemma response_ids_create [simp]:
  "response_ids (CreateResponse i v) = [i]" "response_ids (CreateErrorResponse i e) = [i]"
  by (simp_all add: CreateResponse_def CreateErrorResponse_def)

lemma announced_create [simp]:
  "announced_ids (CreateResponse i (Some (VString s))) = [s]"
  "announced_ids (CreateErrorResponse i e) = []"
  by (simp_all add: CreateResponse_def CreateErrorResponse_def)

text \<open>One case per way through \<open>handle\<close>.\<close>

lemma respond_response:
  assumes "respond call req cn = Some (cn', msg, act)"
  shows "response_ids msg = [Some (sv_Id req)]"
    and "act = Some (i, ns) \<Longrightarrow> i \<in> set (announced_ids msg)"
proof -
  have "response_ids msg = [Some (sv_Id req)] \<and> (\<forall>i ns. act = Some (i, ns) \<longrightarrow> i \<in> set (announced_ids msg))"
  proof (cases "sv_Err req")
    case (Some e)
    with assms show ?thesis by (auto simp: respond_def)
  next
    case None
    with assms have h: "handle call req cn = Some (cn', msg, act)" by (simp add: respond_def)
    show ?thesis
    proof (cases "sv_IsUnsubscribe req")
      case True
      with h None show ?thesis
        by (auto simp: handle_def split: list.splits gval.splits if_splits option.splits Option.bind_splits)
    next
      case False
      with h None obtain cb where cb: "sv_Callb req = Some cb" by (auto simp: handle_def split: option.splits)
      show ?thesis
      proof (cases "cb_IsSubscribe cb")
        case True
        with h None False cb show ?thesis
          by (auto simp: handle_def split: sum.splits Option.bind_splits)
      next
        case nosub: False
        with h None False cb show ?thesis
          by (auto simp: handle_def split: if_splits Option.bind_splits)
      qed
    qed
  qed
  then show "response_ids msg = [Some (sv_Id req)]" "act = Some (i, ns) \<Longrightarrow> i \<in> set (announced_ids msg)"
    by blast+
qed

lemma respond_all_response:
  assumes "respond_all call reqs cn = Some (cn', msgs, acts)"
  shows "response_ids (MBatch msgs) = map (\<lambda>r. Some (sv_Id r)) reqs \<and> length msgs = length reqs
    \<and> list_all (\<lambda>a. fst a \<in> set (announced_ids (MBatch msgs))) acts"
  using assms
proof (induction reqs arbitrary: cn cn' msgs acts)
  case (Cons req reqs)
  then obtain cn1 m act cn2 ms as where r: "respond call req cn = Some (cn1, m, act)"
    and rs: "respond_all call reqs cn1 = Some (cn2, ms, as)"
    and eq: "msgs = m # ms" "acts = (case act of None \<Rightarrow> [] | Some a \<Rightarrow> [a]) @ as"
    by (auto split: Option.bind_splits)
  show ?case using respond_response[OF r] Cons.IH[OF rs]
    by (cases act) (auto simp: eq list_all_iff)
qed simp

section \<open>What service code may do\<close>

text \<open>
  Service code reaches the connection through the exported methods of the notifier: it may
  create subscriptions and notify, any number of times.
\<close>

inductive user_step :: "'v Notifier \<Rightarrow> 'v Notifier \<Rightarrow> bool" where
  user_create: "user_step n (fst (CreateSubscription vals n))"
| user_notify: "user_step n (fst (Notify i d n))"

definition uses_notifier :: "'a call \<Rightarrow> bool" where
  "uses_notifier call \<longleftrightarrow> (\<forall>cb args cn cn' vs. call cb args cn = Some (cn', vs) \<longrightarrow>
     user_step\<^sup>*\<^sup>* (cn_notifier cn) (cn_notifier cn') \<and> cn_supported cn' = cn_supported cn)"

text \<open>
  How a connection evolves while a request is handled: nothing is read, the output only
  grows, a closed codec stays closed, no subscription becomes active.
\<close>

definition conn_ext :: "'a conn \<Rightarrow> 'a conn \<Rightarrow> bool" where
  "conn_ext cn cn' \<longleftrightarrow>
     cn_supported cn' = cn_supported cn
     \<and> jc_in (cn_codec cn') = jc_in (cn_codec cn)
     \<and> (\<exists>ext. jc_out (cn_codec cn') = jc_out (cn_codec cn) @ ext)
     \<and> (Closed (cn_codec cn) \<longrightarrow> Closed (cn_codec cn'))
     \<and> dom (nt_active (cn_notifier cn')) \<subseteq> dom (nt_active (cn_notifier cn))
     \<and> (notifier_inv (cn_notifier cn) \<longrightarrow> notifier_inv (cn_notifier cn'))
     \<and> (codec_inv (cn_codec cn) \<longrightarrow> codec_inv (cn_codec cn'))"

lemma conn_ext_refl [simp]: "conn_ext cn cn"
  by (simp add: conn_ext_def)

lemma conn_ext_trans: "conn_ext a b \<Longrightarrow> conn_ext b c \<Longrightarrow> conn_ext a c"
  unfolding conn_ext_def by (metis append_assoc order_trans)

lemma Closed_Close [simp]: "Closed c \<Longrightarrow> Closed (Close c)"
  by (simp add: Closed_def Close_def)

lemma Closed_Write [simp]: "Closed (fst (Write m c)) = Closed c"
  by (simp add: Closed_def)

lemma codec_inv_Write [simp]: "codec_inv (fst (Write m c)) = codec_inv c"
  by (simp add: codec_inv_def)

lemma codec_inv_Close [simp]: "codec_inv c \<Longrightarrow> codec_inv (Close c)"
  by (simp add: codec_inv_def Close_def)

lemma Notify_codec:
  "jc_in (nt_codec (fst (Notify i d n))) = jc_in (nt_codec n)"
  "Closed (nt_codec n) \<Longrightarrow> Closed (nt_codec (fst (Notify i d n)))"
  "codec_inv (nt_codec n) \<Longrightarrow> codec_inv (nt_codec (fst (Notify i d n)))"
proof -
  have w: "jc_in c' = jc_in c" "Closed c' = Closed c" "codec_inv c' = codec_inv c"
    if "Write m c = (c', r)" for m r and c c' :: "'a JsonCodec"
    using Write_frame[of m c] Closed_Write[of m c] codec_inv_Write[of m c] that by simp_all
  show "jc_in (nt_codec (fst (Notify i d n))) = jc_in (nt_codec n)"
    and "Closed (nt_codec n) \<Longrightarrow> Closed (nt_codec (fst (Notify i d n)))"
    and "codec_inv (nt_codec n) \<Longrightarrow> codec_inv (nt_codec (fst (Notify i d n)))"
    by (auto simp: Notify_def w split: option.split prod.split)
qed

lemma CreateSubscription_frame [simp]:
  "nt_codec (fst (CreateSubscription vals n)) = nt_codec n"
  "nt_active (fst (CreateSubscription vals n)) = nt_active n"
  by (simp_all add: CreateSubscription_def Let_def)

lemma user_step_frame:
  assumes "user_step n n'"
  shows "jc_in (nt_codec n') = jc_in (nt_codec n)" "\<exists>ext. jc_out (nt_codec n') = jc_out (nt_codec n) @ ext"
    "Closed (nt_codec n) \<Longrightarrow> Closed (nt_codec n')" "nt_active n' = nt_active n"
    "notifier_inv n \<Longrightarrow> notifier_inv n'" "codec_inv (nt_codec n) \<Longrightarrow> codec_inv (nt_codec n')"
  using assms by (auto elim!: user_step.cases simp: Notify_codec Notify_out inv_create inv_notify)

lemma user_steps_frame:
  assumes "user_step\<^sup>*\<^sup>* n n'"
  shows "jc_in (nt_codec n') = jc_in (nt_codec n) \<and> (\<exists>ext. jc_out (nt_codec n') = jc_out (nt_codec n) @ ext)
    \<and> (Closed (nt_codec n) \<longrightarrow> Closed (nt_codec n')) \<and> nt_active n' = nt_active n
    \<and> (notifier_inv n \<longrightarrow> notifier_inv n') \<and> (codec_inv (nt_codec n) \<longrightarrow> codec_inv (nt_codec n'))"
  using assms
proof (induction rule: rtranclp_induct)
  case (step m k)
  with user_step_frame[OF step.hyps(2)] show ?case by (metis append_assoc)
qed simp

lemma call_ext: "uses_notifier call \<Longrightarrow> reflect_Call call cb args cn = Some (cn', vs) \<Longrightarrow> conn_ext cn cn'"
proof -
  assume "uses_notifier call" "reflect_Call call cb args cn = Some (cn', vs)"
  then have "user_step\<^sup>*\<^sup>* (cn_notifier cn) (cn_notifier cn')" and "cn_supported cn' = cn_supported cn"
    unfolding uses_notifier_def reflect_Call_def by (simp_all split: if_splits) blast+
  with user_steps_frame[of "cn_notifier cn" "cn_notifier cn'"] show "conn_ext cn cn'"
    by (simp add: conn_ext_def cn_codec_def)
qed

lemma unsubscribe_ext:
  assumes "unsubscribe i (cn_notifier cn) = Some (n, r)"
  shows "conn_ext cn (cn\<lparr>cn_notifier := n\<rparr>)"
  using assms inv_unsubscribe[of "cn_notifier cn" i n r]
  by (auto simp: conn_ext_def cn_codec_def unsubscribe_def split: option.splits if_splits)

lemma respond_ext:
  assumes call: "uses_notifier call" and r: "respond call req cn = Some (cn', msg, act)"
  shows "conn_ext cn cn'"
proof (cases "sv_Err req")
  case (Some e)
  with r show ?thesis by (simp add: respond_def)
next
  case None
  with r have h: "handle call req cn = Some (cn', msg, act)" by (simp add: respond_def)
  show ?thesis
  proof (cases "sv_IsUnsubscribe req")
    case True
    with h None show ?thesis
      by (auto simp: handle_def intro: unsubscribe_ext
          split: list.splits gval.splits if_splits option.splits Option.bind_splits)
  next
    case False
    with h None obtain cb where cb: "sv_Callb req = Some cb" by (auto simp: handle_def split: option.splits)
    with h None False show ?thesis
      by (auto simp: handle_def createSubscription_def intro: call_ext[OF call]
          split: if_splits Option.bind_splits sum.splits)
  qed
qed

lemma respond_all_ext:
  "uses_notifier call \<Longrightarrow> respond_all call reqs cn = Some (cn', msgs, acts) \<Longrightarrow> conn_ext cn cn'"
proof (induction reqs arbitrary: cn cn' msgs acts)
  case (Cons req reqs)
  then obtain cn1 m act ms as where "respond call req cn = Some (cn1, m, act)"
    and "respond_all call reqs cn1 = Some (cn', ms, as)"
    by (auto split: Option.bind_splits)
  with Cons.IH Cons.prems(1) respond_ext show ?case by (blast intro: conn_ext_trans)
qed simp

section \<open>Writing and activating\<close>

lemma cn_codec_set [simp]: "cn_codec (set_codec c cn) = c"
  by (simp add: cn_codec_def set_codec_def)

lemma set_codec_frame [simp]:
  "cn_supported (set_codec c cn) = cn_supported cn"
  "nt_active (cn_notifier (set_codec c cn)) = nt_active (cn_notifier cn)"
  "nt_inactive (cn_notifier (set_codec c cn)) = nt_inactive (cn_notifier cn)"
  "notifier_inv (cn_notifier (set_codec c cn)) = notifier_inv (cn_notifier cn)"
  by (simp_all add: set_codec_def notifier_inv_def)

text \<open>A message is delivered: it was appended to the output, or the codec was closed.\<close>

definition delivered :: "'a gval message \<Rightarrow> 'a conn \<Rightarrow> bool" where
  "delivered msg cn \<longleftrightarrow> msg \<in> set (jc_out (cn_codec cn)) \<or> Closed (cn_codec cn)"

lemma delivered_ext: "conn_ext cn cn' \<Longrightarrow> delivered m cn \<Longrightarrow> delivered m cn'"
  by (auto simp: delivered_def conn_ext_def)

lemma Closed_of_Close: "codec_inv c \<Longrightarrow> Closed (Close c)"
  by (simp add: codec_inv_def Closed_def Close_def)

lemma write_response_ext: "conn_ext cn (write_response m cn)"
  by (auto simp: write_response_def conn_ext_def Let_def case_prod_beta Write_out)

lemma write_response_out:
  "jc_out (cn_codec (write_response m cn)) =
     jc_out (cn_codec cn) @ (if snd (Write m (cn_codec cn)) = None then [m] else [])"
  by (simp add: write_response_def Let_def case_prod_beta Write_out)

lemma write_response_delivered:
  assumes "codec_inv (cn_codec cn)"
  shows "delivered m (write_response m cn)"
  using assms
  by (auto simp: delivered_def write_response_def Let_def case_prod_beta Write_out Closed_of_Close)

lemma activate_frame:
  "nt_codec (activate i ns n) = nt_codec n" "dom (nt_active (activate i ns n)) \<subseteq> insert i (dom (nt_active n))"
  by (auto simp: activate_def split: option.split)

lemma run_callbacks_frame:
  assumes "run_callbacks acts cn = Some cn'"
  shows "cn_codec cn' = cn_codec cn \<and> cn_supported cn' = cn_supported cn
    \<and> dom (nt_active (cn_notifier cn')) \<subseteq> dom (nt_active (cn_notifier cn)) \<union> fst ` set acts
    \<and> (notifier_inv (cn_notifier cn) \<longrightarrow> notifier_inv (cn_notifier cn'))"
  using assms
proof (induction acts arbitrary: cn)
  case (Cons a acts)
  then obtain cn1 where a: "activateSub a cn = Some cn1" and r: "run_callbacks acts cn1 = Some cn'"
    by (auto split: Option.bind_splits)
  from a have cn1: "cn1 = cn\<lparr>cn_notifier := activate (fst a) (snd a) (cn_notifier cn)\<rparr>"
    by (auto simp: activateSub_def split: if_splits)
  have "cn_codec cn1 = cn_codec cn" "cn_supported cn1 = cn_supported cn"
    "dom (nt_active (cn_notifier cn1)) \<subseteq> insert (fst a) (dom (nt_active (cn_notifier cn)))"
    "notifier_inv (cn_notifier cn) \<Longrightarrow> notifier_inv (cn_notifier cn1)"
    by (simp_all add: cn1 cn_codec_def activate_frame inv_activate)
  with Cons.IH[OF r] show ?case by simp blast
qed simp

text \<open>
  What serving one message leaves behind: the one response, carrying the ids of the
  requests in order, was delivered after everything written before, and the subscriptions
  that are active now were active before or are announced in that response.
\<close>

definition answered :: "RawMessage option list \<Rightarrow> 'a conn \<Rightarrow> 'a conn \<Rightarrow> bool" where
  "answered reqids cn cn' \<longleftrightarrow>
     (\<exists>msg ext. response_ids msg = reqids \<and> delivered msg cn'
        \<and> (jc_out (cn_codec cn') = jc_out (cn_codec cn) @ ext @ [msg]
           \<or> jc_out (cn_codec cn') = jc_out (cn_codec cn) @ ext \<and> Closed (cn_codec cn'))
        \<and> dom (nt_active (cn_notifier cn'))
            \<subseteq> dom (nt_active (cn_notifier cn)) \<union> set (announced_ids msg))"

lemma answeredI:
  assumes ext: "conn_ext cn cn1" and inv: "codec_inv (cn_codec cn1)"
    and ids: "response_ids msg = reqids" and acts: "list_all (\<lambda>a. fst a \<in> set (announced_ids msg)) acts"
    and run: "run_callbacks acts (write_response msg cn1) = Some cn'"
  shows "answered reqids cn cn'"
proof -
  note f = run_callbacks_frame[OF run]
  obtain e where e: "jc_out (cn_codec cn1) = jc_out (cn_codec cn) @ e"
    using ext by (auto simp: conn_ext_def)
  have d: "delivered msg (write_response msg cn1)" by (rule write_response_delivered[OF inv])
  have dom: "dom (nt_active (cn_notifier cn')) \<subseteq> dom (nt_active (cn_notifier cn)) \<union> set (announced_ids msg)"
    using f ext write_response_ext[of cn1 msg] acts unfolding conn_ext_def list_all_iff by blast
  have out: "jc_out (cn_codec cn') = jc_out (cn_codec cn) @ e @ [msg]
      \<or> jc_out (cn_codec cn') = jc_out (cn_codec cn) @ e \<and> Closed (cn_codec cn')"
  proof (cases "snd (Write msg (cn_codec cn1)) = None")
    case True
    with f e show ?thesis by (simp add: write_response_out)
  next
    case False
    have "Closed (cn_codec (write_response msg cn1))"
      using inv False by (simp add: write_response_def Let_def case_prod_beta Closed_of_Close)
    with f e False show ?thesis by (simp add: write_response_out)
  qed
  from d f have "delivered msg cn'" by (simp add: delivered_def)
  with ids dom out show ?thesis unfolding answered_def by blast
qed

lemma exec_answered:
  assumes "uses_notifier call" and "codec_inv (cn_codec cn)" and "exec call req cn = Some cn'"
  shows "answered [Some (sv_Id req)] cn cn'"
proof -
  from assms(3) obtain cn1 msg act where r: "respond call req cn = Some (cn1, msg, act)"
    and run: "run_callbacks (case act of None \<Rightarrow> [] | Some a \<Rightarrow> [a]) (write_response msg cn1) = Some cn'"
    by (auto simp: exec_def split: Option.bind_splits)
  have ext: "conn_ext cn cn1" by (rule respond_ext[OF assms(1) r])
  then have "codec_inv (cn_codec cn1)" using assms(2) by (simp add: conn_ext_def)
  moreover have "list_all (\<lambda>a. fst a \<in> set (announced_ids msg)) (case act of None \<Rightarrow> [] | Some a \<Rightarrow> [a])"
    using respond_response(2)[OF r] by (cases act) (auto simp: prod_eq_iff)
  ultimately show ?thesis using answeredI[OF ext _ respond_response(1)[OF r] _ run] by blast
qed

lemma execBatch_answered:
  assumes "uses_notifier call" and "codec_inv (cn_codec cn)" and "execBatch call reqs cn = Some cn'"
  shows "answered (map (\<lambda>r. Some (sv_Id r)) reqs) cn cn'"
proof -
  from assms(3) obtain cn1 msgs acts where r: "respond_all call reqs cn = Some (cn1, msgs, acts)"
    and run: "run_callbacks acts (write_response (MBatch msgs) cn1) = Some cn'"
    by (auto simp: execBatch_def split: Option.bind_splits)
  have ext: "conn_ext cn cn1" by (rule respond_all_ext[OF assms(1) r])
  then have "codec_inv (cn_codec cn1)" using assms(2) by (simp add: conn_ext_def)
  with ext respond_all_response[OF r] show ?thesis using answeredI[OF ext _ _ _ run] by blast
qed

text \<open>Code that returns no value and does nothing, as a concrete callee.\<close>

definition idle_call :: "'a call" where
  "idle_call cb args cn = Some (cn, [])"

lemma idle_uses_notifier: "uses_notifier idle_call"
  by (simp add: uses_notifier_def idle_call_def)

definition new_conn :: "'a gval JsonCodec \<Rightarrow> bool \<Rightarrow> 'a conn" where
  "new_conn c supported = \<lparr>cn_notifier = newNotifier c, cn_supported = supported\<rparr>"

lemma codec_inv_new [simp]: "codec_inv (NewCodec inp werr)"
  by (simp add: codec_inv_def NewCodec_def)



section \<open>No panic\<close>

text \<open>The goroutine that serves one message, or the single shot.\<close>

definition run_task :: "'a call \<Rightarrow> 'a ServerRequest list \<Rightarrow> bool \<Rightarrow> 'a conn \<Rightarrow> 'a conn option" where
  "run_task call reqs batch cn =
     (if batch then execBatch call reqs cn
      else case reqs of [] \<Rightarrow> None | req # _ \<Rightarrow> exec call req cn)"

text \<open>
  What a service must keep to: its subscription methods take \<open>context.Context\<close> itself, not a
  pointer to it, and its error results are of types that have a nil; its methods return
  values of their types, in particular a subscription when they return no error.
\<close>

definition plain_method :: "gmethod \<Rightarrow> bool" where
  "plain_method m \<longleftrightarrow> gm_In m \<noteq> [] \<and> (isPubSub m \<longrightarrow> gm_In m ! 1 = contextType)
     \<and> (\<forall>t \<in> set (gm_Out m). isErrorType t \<longrightarrow> t_IsNil_ok t)"

definition typed_reply :: "gmethod \<Rightarrow> 'a gval list \<Rightarrow> bool" where
  "typed_reply m vs \<longleftrightarrow> length vs = length (gm_Out m)
     \<and> (\<forall>i < length vs. isErrorType (gm_Out m ! i) \<longrightarrow> vs ! i = VNil \<or> (\<exists>e. vs ! i = VError e))
     \<and> (isPubSub m \<and> vs ! 1 = VNil \<longrightarrow> (\<exists>s. vs ! 0 = VSub s))"

definition call_total :: "'a call \<Rightarrow> bool" where
  "call_total call \<longleftrightarrow> (\<forall>cb args cn. length args = length (gm_In (cb_Method cb)) \<longrightarrow>
     (\<exists>cn' vs. call cb args cn = Some (cn', vs) \<and> typed_reply (cb_Method cb) vs))"

lemma first_error_range: "first_error ts i = - 1 \<or>
    (\<exists>k. first_error ts i = int (i + k) \<and> k < length ts \<and> isErrorType (ts ! k))"
proof (induction ts arbitrary: i)
  case (Cons t ts)
  show ?case
  proof (cases "isErrorType t")
    case True
    then show ?thesis by (intro disjI2 exI[of _ 0]) simp
  next
    case False
    with Cons.IH[of "Suc i"] show ?thesis
    proof (elim disjE exE)
      fix k assume "first_error ts (Suc i) = int (Suc i + k) \<and> k < length ts \<and> isErrorType (ts ! k)"
      with False show ?thesis by (intro disjI2 exI[of _ "Suc k"]) simp
    qed simp
  qed
qed simp

lemma reply_IsNil_plain:
  assumes "plain_method m" and "typed_reply m vs" and "i < length vs" and "isErrorType (gm_Out m ! i)"
  shows "reply_IsNil (callback_of rv m) vs i = Some (v_IsNil (vs ! i))"
    and "v_IsNil (vs ! i) \<Longrightarrow> vs ! i = VNil" and "\<not> v_IsNil (vs ! i) \<Longrightarrow> as_error (vs ! i) \<noteq> None"
proof -
  have l: "length (gm_Out m) = length vs" using assms(2) by (simp add: typed_reply_def)
  then have "gm_Out m ! i \<in> set (gm_Out m)" using assms(3) by simp
  then show "reply_IsNil (callback_of rv m) vs i = Some (v_IsNil (vs ! i))"
    using assms l by (auto simp: plain_method_def reply_IsNil_def)
  have "vs ! i = VNil \<or> (\<exists>e. vs ! i = VError e)" using assms by (auto simp: typed_reply_def)
  then show "v_IsNil (vs ! i) \<Longrightarrow> vs ! i = VNil" "\<not> v_IsNil (vs ! i) \<Longrightarrow> as_error (vs ! i) \<noteq> None"
    by auto
qed

lemma reflect_Call_total:
  assumes "call_total call" and "length args = length (gm_In m)"
  obtains cn' vs where "reflect_Call call (callback_of rv m) args cn = Some (cn', vs)" "typed_reply m vs"
  using assms that unfolding call_total_def reflect_Call_def by (metis cb_Method_callback_of)

lemma handle_callback_total:
  assumes "plain_method m" "is_callback m" "call_total call" and "sv_Callb req = Some (callback_of rv m)"
    and "sv_Err req = None" "\<not> sv_IsUnsubscribe req"
  shows "handle call req cn \<noteq> None"
proof (cases "length (sv_Args req) = length (arg_types m)")
  case False
  with assms show ?thesis by (simp add: handle_def callback_of_def is_callback_def)
next
  case True
  let ?cb = "callback_of rv m"
  let ?args = "[VRcvr (cb_Rcvr ?cb)] @ (if cb_HasCtx ?cb then [VCtx] else []) @ sv_Args req"
  have "length ?args = length (gm_In m)"
    using True assms(1) by (cases "gm_In m") (auto simp: callback_of_def arg_types_def plain_method_def)
  then obtain cn' vs where vs: "reflect_Call call ?cb ?args cn = Some (cn', vs)" "typed_reply m vs"
    using reflect_Call_total[OF assms(3)] by metis
  have nosub: "\<not> cb_IsSubscribe ?cb" using assms(2) by (simp add: callback_of_def is_callback_def)
  have err: "cb_ErrPos ?cb = first_error (gm_Out m) 0"
    using assms(2) by (simp add: callback_of_def is_callback_def)
  show ?thesis
  proof (cases "vs = [] \<or> cb_ErrPos ?cb < 0")
    case True
    with assms vs nosub \<open>length (sv_Args req) = length (arg_types m)\<close> show ?thesis
      by (auto simp: handle_def)
  next
    case False
    then obtain k where k: "cb_ErrPos ?cb = int k" "k < length (gm_Out m)" "isErrorType (gm_Out m ! k)"
      using first_error_range[of "gm_Out m" 0] err by auto
    then have "k < length vs" using vs(2) by (simp add: typed_reply_def)
    note nil = reply_IsNil_plain[OF assms(1) vs(2) this k(3)]
    from False assms vs(1) nosub k nil(1) \<open>length (sv_Args req) = length (arg_types m)\<close> nil(3)
    show ?thesis by (auto simp: handle_def)
  qed
qed

lemma handle_subscription_total:
  assumes "plain_method m" "is_subscription m" "call_total call" and "sv_Callb req = Some (callback_of rv m)"
    and "sv_Err req = None" "\<not> sv_IsUnsubscribe req" and "length (sv_Args req) = length (arg_types m)"
  shows "handle call req cn \<noteq> None"
proof -
  let ?cb = "callback_of rv m"
  have ps: "isPubSub m" and len: "length (gm_In m) \<ge> 2" "length (gm_Out m) = 2" "isErrorType (gm_Out m ! 1)"
    using assms(2) by (auto simp: is_subscription_def isPubSub_def split: if_splits)
  have "length ([VRcvr (cb_Rcvr ?cb), VCtx] @ sv_Args req) = length (gm_In m)"
    using ps len assms(1,7) by (simp add: arg_types_def plain_method_def)
  then obtain cn' vs where vs: "reflect_Call call ?cb ([VRcvr (cb_Rcvr ?cb), VCtx] @ sv_Args req) cn = Some (cn', vs)"
      "typed_reply m vs"
    using reflect_Call_total[OF assms(3)] by metis
  have "1 < length vs" using vs(2) len by (simp add: typed_reply_def)
  note nil = reply_IsNil_plain[OF assms(1) vs(2) this len(3)]
  have sub: "as_subscription (vs ! 0) \<noteq> None" if "v_IsNil (vs ! 1)"
    using nil(2)[OF that] vs(2) ps by (auto simp: typed_reply_def)
  have "createSubscription call ?cb (sv_Args req) cn \<noteq> None"
    using vs(1) nil(1,3) sub by (auto simp: createSubscription_def)
  moreover have "cb_IsSubscribe ?cb" using ps by (simp add: callback_of_def)
  ultimately show ?thesis using assms(4-6)
    by (auto simp: handle_def split: sum.splits)
qed

lemma handle_unsubscribe_total:
  assumes "sv_Err req = None" "sv_IsUnsubscribe req" "notifier_inv (cn_notifier cn)"
  shows "handle call req cn \<noteq> None"
proof (cases "\<exists>i rest. sv_Args req = VString i # rest")
  case True
  then obtain i rest where args: "sv_Args req = VString i # rest" by blast
  obtain n r where "unsubscribe i (cn_notifier cn) = Some (n, r)"
    using unsubscribe_active[OF assms(3), of i] unsubscribe_inactive[of "cn_notifier cn" i]
    by (cases "nt_active (cn_notifier cn) i") auto
  with args assms(1,2) show ?thesis by (simp add: handle_def)
next
  case False
  with assms(1,2) show ?thesis by (auto simp: handle_def split: list.split gval.split)
qed

lemma respond_total:
  assumes "resolved plain_method req" "call_total call" "notifier_inv (cn_notifier cn)"
  shows "respond call req cn \<noteq> None"
proof (cases "sv_Err req")
  case (Some e)
  then show ?thesis by (simp add: respond_def)
next
  case None
  with assms(1) consider "sv_IsUnsubscribe req"
    | rv m where "\<not> sv_IsUnsubscribe req" "sv_Callb req = Some (callback_of rv m)" "plain_method m" "is_callback m"
    | rv m where "\<not> sv_IsUnsubscribe req" "sv_Callb req = Some (callback_of rv m)" "plain_method m"
        "is_subscription m" "length (sv_Args req) = length (arg_types m)"
    unfolding resolved_def by blast
  then have "handle call req cn \<noteq> None"
  proof cases
    case 1
    with None assms(3) show ?thesis by (intro handle_unsubscribe_total)
  next
    case 2
    with None assms(2) show ?thesis by (intro handle_callback_total)
  next
    case 3
    with None assms(2) show ?thesis by (intro handle_subscription_total)
  qed
  with None show ?thesis by (simp add: respond_def)
qed

lemma respond_all_total:
  "list_all (resolved plain_method) reqs \<Longrightarrow> call_total call \<Longrightarrow> uses_notifier call
   \<Longrightarrow> notifier_inv (cn_notifier cn) \<Longrightarrow> respond_all call reqs cn \<noteq> None"
proof (induction reqs arbitrary: cn)
  case (Cons req reqs)
  then obtain cn1 m act where r: "respond call req cn = Some (cn1, m, act)"
    using respond_total[of req call cn] by auto
  have "notifier_inv (cn_notifier cn1)"
    using respond_ext[OF Cons.prems(3) r] Cons.prems(4) by (simp add: conn_ext_def)
  with Cons obtain cn2 ms as where "respond_all call reqs cn1 = Some (cn2, ms, as)" by fastforce
  with r show ?case by simp
qed simp

lemma run_callbacks_total: "cn_supported cn \<Longrightarrow> run_callbacks acts cn \<noteq> None"
  by (induction acts arbitrary: cn) (simp_all add: activateSub_def)

lemma write_response_supported [simp]: "cn_supported (write_response m cn) = cn_supported cn"
  using write_response_ext[of cn m] by (simp add: conn_ext_def)

lemma run_task_total:
  assumes reqs: "list_all (resolved plain_method) reqs" "batch \<or> length reqs = 1"
    and call: "call_total call" "uses_notifier call"
    and cn: "notifier_inv (cn_notifier cn)" "cn_supported cn"
  shows "run_task call reqs batch cn \<noteq> None"
proof (cases batch)
  case True
  obtain cn1 ms as where r: "respond_all call reqs cn = Some (cn1, ms, as)"
    using respond_all_total[OF reqs(1) call cn(1)] by auto
  then have "cn_supported cn1" using respond_all_ext[OF call(2) r] cn(2) by (simp add: conn_ext_def)
  with r True run_callbacks_total[of "write_response (MBatch ms) cn1" as] show ?thesis
    by (simp add: run_task_def execBatch_def)
next
  case False
  with reqs obtain req where req: "reqs = [req]" "resolved plain_method req"
    by (auto simp: length_Suc_conv)
  then obtain cn1 m act where r: "respond call req cn = Some (cn1, m, act)"
    using respond_total[OF req(2) call(1) cn(1)] by auto
  then have "cn_supported cn1" using respond_ext[OF call(2) r] cn(2) by (simp add: conn_ext_def)
  with r False req run_callbacks_total[of "write_response m cn1"] show ?thesis
    by (simp add: run_task_def exec_def)
qed

text \<open>Requests that publish or subscribe always carry parameters.\<close>

definition pubsub_params :: "request \<Rightarrow> bool" where
  "pubsub_params r \<longleftrightarrow> (rq_IsPubSub r \<longrightarrow> rq_Params r \<noteq> None)"

lemma pubsub_params_record [simp]:
  "pubsub_params \<lparr>rq_Service = s, rq_Method = m, rq_Id = i, rq_IsPubSub = p, rq_Params = q, rq_Err = e\<rparr>
   \<longleftrightarrow> (p \<longrightarrow> q \<noteq> None)"
  by (simp add: pubsub_params_def)

lemma parseRequest_pubsub: "parseRequest j = (reqs, b, None) \<Longrightarrow> list_all pubsub_params reqs"
proof -
  assume p: "parseRequest j = (reqs, b, None)"
  obtain inp uerr where u: "unmarshal_request j = (inp, uerr)" by fastforce
  with p have "uerr = None" by (cases uerr) (simp_all add: parseRequest_def)
  with u p show ?thesis
    by (cases inp rule: request_cases) (auto simp: parse_simps pubsub_params_def split: if_splits)
qed

lemma batch_loop_pubsub:
  "batch_loop inps acc = (reqs, b, None) \<Longrightarrow> list_all pubsub_params acc \<Longrightarrow> list_all pubsub_params reqs"
proof (induction inps arbitrary: acc)
  case (Cons inp inps)
  from Cons.prems show ?case
    by (cases inp rule: request_cases)
      (auto dest!: Cons.IH simp: suffix_defs Let_def zero_rpc_def split: if_splits)
qed simp

lemma ReadRequestHeaders_pubsub:
  "ReadRequestHeaders c = (c', reqs, b, None) \<Longrightarrow> list_all pubsub_params reqs"
  using parseRequest_pubsub batch_loop_pubsub[of _ "[]"]
  by (fastforce simp: ReadRequestHeaders_def parseBatchRequest_def
      split: list.splits sum.splits if_splits prod.splits option.splits)

lemma readRequest_resolved:
  assumes "sound_registry P services"
    and "readRequest ReadRequestHeaders (ParseRequestArguments unm) services c = (c', reqs, b, None)"
  shows "list_all (resolved P) reqs" and "b \<or> length reqs = 1"
proof -
  from assms(2) obtain hs where r: "ReadRequestHeaders c = (c', hs, b, None)"
    and reqs: "reqs = map (verify_request (ParseRequestArguments unm) services) hs"
    by (auto simp: readRequest_def split: prod.splits option.splits)
  show "list_all (resolved P) reqs"
    using ReadRequestHeaders_pubsub[OF r] json_codec.verify_request_resolved[OF assms(1)]
    by (auto simp: reqs list_all_iff pubsub_params_def)
  show "b \<or> length reqs = 1" using json_codec.read_single r by (cases b) (auto simp: reqs)
qed


text \<open>A callee that returns nil or a subscription, as its method's types ask.\<close>

definition default_call :: "'a call" where
  "default_call cb args cn =
     Some (cn, if isPubSub (cb_Method cb) then [VSub ''0x1'', VNil] else map (\<lambda>t. VNil) (gm_Out (cb_Method cb)))"

lemma default_uses_notifier: "uses_notifier default_call"
  by (simp add: uses_notifier_def default_call_def)

lemma default_call_total: "call_total default_call"
proof -
  have "\<not> isErrorType (gm_Out m ! 0)" if "isPubSub m" for m
    using that by (auto simp: isPubSub_def isSubscriptionType_def isErrorType_def subscriptionType_def
        split: if_splits)
  moreover have "length (gm_Out m) = 2" if "isPubSub m" for m
    using that by (auto simp: isPubSub_def split: if_splits)
  ultimately show ?thesis
    by (auto simp: call_total_def default_call_def typed_reply_def less_Suc_eq)
qed


text \<open>C37: a subscription method whose context is a pointer to a context is accepted at
  registration, but every subscription to it panics: the server passes one argument more
  than the method takes.\<close>

theorem pointer_context_panics:
  assumes "is_subscription m" and "gm_In m ! 1 \<noteq> contextType"
    and "sv_Callb req = Some (callback_of rv m)" and "length (sv_Args req) = length (arg_types m)"
    and "sv_Err req = None" and "\<not> sv_IsUnsubscribe req"
  shows "handle call req cn = None"
proof -
  have ps: "isPubSub m" and len: "length (gm_In m) \<ge> 2"
    using assms(1) by (auto simp: is_subscription_def isPubSub_def split: if_splits)
  have "length ([VRcvr rv, VCtx] @ sv_Args req) \<noteq> length (gm_In m)"
    using len assms(2,4) by (simp add: arg_types_def)
  then have "createSubscription call (callback_of rv m) (sv_Args req) cn = None"
    by (simp add: createSubscription_def reflect_Call_def callback_of_def)
  moreover have "cb_IsSubscribe (callback_of rv m)" using ps by (simp add: callback_of_def)
  ultimately show ?thesis using assms(3,5,6) by (simp add: handle_def)
qed

definition pointer_method :: gmethod where
  "pointer_method = \<lparr>gm_Name = ''Events'', gm_PkgPath = '''',
     gm_In = [TBase ''S'' ''svc'' False False, TPtr contextType],
     gm_Out = [TPtr subscriptionType, TBase ''error'' '''' True True]\<rparr>"

theorem pointer_context_panics_witness:
  "is_subscription pointer_method
   \<and> handle idle_call ((zero_sreq (Some JNull))\<lparr>sv_Callb := Some (callback_of 0 pointer_method),
        sv_Args := [VNil]\<rparr>) (new_conn (NewCodec [] []) True :: nat conn) = None"
proof -
  let ?req = "(zero_sreq (Some JNull) :: nat ServerRequest)\<lparr>sv_Callb := Some (callback_of 0 pointer_method),
        sv_Args := [VNil]\<rparr>"
  have m: "is_subscription pointer_method" "gm_In pointer_method ! 1 \<noteq> contextType"
    and "length (arg_types pointer_method) = 1" by code_simp+
  then have "handle idle_call ?req (new_conn (NewCodec [] []) True) = None"
    by (intro pointer_context_panics[OF m, of ?req 0]) (simp_all add: zero_sreq_def)
  with m show ?thesis by simp
qed

end
