(* ===== verification/Rpc_Serving.thy ===== *)
theory Rpc_Serving
  imports Rpc_Server
begin

text \<open>
  Serving a codec (\<open>serveRequest\<close>, \<open>ServeCodec\<close>, \<open>ServeSingleRequest\<close> and \<open>Stop\<close> of
  src/pkg/server/server.go). The single shot is a function; the flag \<open>Run\<close>, which another
  goroutine may clear at any time, enters it as the three values that are loaded. The loop
  that serves a connection is a step relation: the reading loop, the goroutines that execute
  requests, the notifications of services and \<open>Stop\<close> interleave. A goroutine takes three
  steps: it handles its requests, writes the response, and activates subscriptions.
\<close>

section \<open>The set of codecs\<close>

record 'a Server =
  srv_Services :: "'a ServiceRegistry"
  srv_Run :: int
  srv_Codecs :: "nat list"

definition NewServer :: "'a \<Rightarrow> 'a Server" where
  "NewServer self = \<lparr>srv_Services = NewServer_services self, srv_Run = 1, srv_Codecs = []\<rparr>"

definition add_codec :: "nat \<Rightarrow> 'a Server \<Rightarrow> 'a Server" where
  "add_codec k srv = srv\<lparr>srv_Codecs := List.insert k (srv_Codecs srv)\<rparr>"

definition remove_codec :: "nat \<Rightarrow> 'a Server \<Rightarrow> 'a Server" where
  "remove_codec k srv = srv\<lparr>srv_Codecs := removeAll k (srv_Codecs srv)\<rparr>"

text \<open>\<open>Stop\<close> on a server whose codecs are looked up by their number.\<close>

definition Stop ::
  "'a Server \<Rightarrow> (nat \<Rightarrow> 'v JsonCodec) \<Rightarrow> 'a Server \<times> (nat \<Rightarrow> 'v JsonCodec)" where
  "Stop srv codecs =
     (if srv_Run srv = 1
      then (srv\<lparr>srv_Run := 0\<rparr>, foldl (\<lambda>cs k. cs(k := Close (cs k))) codecs (srv_Codecs srv))
      else (srv, codecs))"

section \<open>One iteration\<close>

definition serve_read ::
  "(gtype \<Rightarrow> json \<Rightarrow> string + 'a gval) \<Rightarrow> 'a ServiceRegistry \<Rightarrow> 'a conn
   \<Rightarrow> 'a conn \<times> 'a ServerRequest list \<times> bool \<times> rpc_error option" where
  "serve_read unm services cn =
     (let (c, reqs, batch, err) =
        readRequest ReadRequestHeaders (ParseRequestArguments unm) services (cn_codec cn)
      in (set_codec c cn, reqs, batch, err))"

text \<open>A write whose error is ignored.\<close>

definition write_only :: "'a gval message \<Rightarrow> 'a conn \<Rightarrow> 'a conn" where
  "write_only msg cn = set_codec (fst (Write msg (cn_codec cn))) cn"

definition read_error_reply :: "rpc_error \<Rightarrow> 'a conn \<Rightarrow> 'a conn" where
  "read_error_reply err cn =
     (if rpc_error_msg err \<noteq> ''EOF'' then write_only (CreateErrorResponse None err) cn else cn)"

definition shutdown_message :: "'a ServerRequest list \<Rightarrow> bool \<Rightarrow> 'a gval message" where
  "shutdown_message reqs batch =
     (if batch then MBatch (map (\<lambda>r. CreateErrorResponse (Some (sv_Id r)) ShutdownError) reqs)
      else CreateErrorResponse (Some (sv_Id (reqs ! 0))) ShutdownError)"

text \<open>
  \<open>serveRequest\<close> with \<open>singleShot\<close>: the server afterwards, and the connection with the
  returned error, or \<open>None\<close> when a panic was recovered.
\<close>

definition serveRequest_single ::
  "(gtype \<Rightarrow> json \<Rightarrow> string + 'a gval) \<Rightarrow> 'a call \<Rightarrow> nat \<Rightarrow> bool \<times> bool \<times> bool \<Rightarrow> 'a Server \<Rightarrow> 'a conn
   \<Rightarrow> 'a Server \<times> ('a conn \<times> rpc_error option) option" where
  "serveRequest_single unm call k runs srv cn =
     (let (run1, run2, run3) = runs in
      if \<not> run1 then (remove_codec k srv, Some (cn, Some ShutdownError))
      else
        (remove_codec k (add_codec k srv),
         if \<not> run2 then Some (cn, None)
         else
           (case serve_read unm (srv_Services srv) cn of
              (cn', reqs, batch, Some err) \<Rightarrow> Some (read_error_reply err cn', None)
            | (cn', reqs, batch, None) \<Rightarrow>
                if \<not> run3 then Some (write_only (shutdown_message reqs batch) cn', None)
                else map_option (\<lambda>cn. (cn, None)) (run_task call reqs batch cn'))))"

section \<open>The serving loop\<close>

datatype phase = Looping | Reading | Draining | Returned

datatype 'a task =
    Todo "'a ServerRequest list" bool
  | Ready "'a gval message" "(string \<times> string) list"
  | Wrote "(string \<times> string) list"

text \<open>
  \<open>ss_read\<close> and \<open>ss_answered\<close> record, message by message, the ids of the requests read and
  of the responses that were handed to the codec.
\<close>

record 'a session =
  ss_conn :: "'a conn"
  ss_phase :: phase
  ss_tasks :: "'a task list"
  ss_run :: bool
  ss_read :: "RawMessage option list list"
  ss_answered :: "RawMessage option list list"

definition req_ids :: "'a ServerRequest list \<Rightarrow> RawMessage option list" where
  "req_ids reqs = map (\<lambda>r. Some (sv_Id r)) reqs"

definition handle_task ::
  "'a call \<Rightarrow> 'a ServerRequest list \<Rightarrow> bool \<Rightarrow> 'a conn
   \<Rightarrow> ('a conn \<times> 'a gval message \<times> (string \<times> string) list) option" where
  "handle_task call reqs batch cn =
     (if batch then
        do { (cn', msgs, acts) \<leftarrow> respond_all call reqs cn; Some (cn', MBatch msgs, acts) }
      else
        (case reqs of
           [] \<Rightarrow> None
         | req # _ \<Rightarrow>
             do { (cn', msg, act) \<leftarrow> respond call req cn;
                  Some (cn', msg, case act of None \<Rightarrow> [] | Some a \<Rightarrow> [a]) }))"

inductive serve_step ::
  "(gtype \<Rightarrow> json \<Rightarrow> string + 'a gval) \<Rightarrow> 'a call \<Rightarrow> 'a ServiceRegistry
   \<Rightarrow> 'a session \<Rightarrow> 'a session \<Rightarrow> bool"
  for unm call services where
  sv_loop: "ss_phase s = Looping \<Longrightarrow> ss_run s \<Longrightarrow>
    serve_step unm call services s (s\<lparr>ss_phase := Reading\<rparr>)"
| sv_exit: "ss_phase s = Looping \<Longrightarrow> \<not> ss_run s \<Longrightarrow>
    serve_step unm call services s (s\<lparr>ss_phase := Returned\<rparr>)"
| sv_error: "ss_phase s = Reading \<Longrightarrow> serve_read unm services (ss_conn s) = (cn, reqs, b, Some e) \<Longrightarrow>
    serve_step unm call services s (s\<lparr>ss_conn := read_error_reply e cn, ss_phase := Draining\<rparr>)"
| sv_shutdown: "ss_phase s = Reading \<Longrightarrow> serve_read unm services (ss_conn s) = (cn, reqs, b, None) \<Longrightarrow>
    \<not> ss_run s \<Longrightarrow>
    serve_step unm call services s (s\<lparr>ss_conn := write_only (shutdown_message reqs b) cn,
      ss_phase := Returned, ss_read := ss_read s @ [req_ids reqs],
      ss_answered := ss_answered s @ [response_ids (shutdown_message reqs b :: 'a gval message)]\<rparr>)"
| sv_spawn: "ss_phase s = Reading \<Longrightarrow> serve_read unm services (ss_conn s) = (cn, reqs, b, None) \<Longrightarrow>
    ss_run s \<Longrightarrow>
    serve_step unm call services s (s\<lparr>ss_conn := cn, ss_phase := Looping,
      ss_tasks := ss_tasks s @ [Todo reqs b], ss_read := ss_read s @ [req_ids reqs]\<rparr>)"
| sv_drained: "ss_phase s = Draining \<Longrightarrow> ss_tasks s = [] \<Longrightarrow>
    serve_step unm call services s (s\<lparr>ss_phase := Returned\<rparr>)"
| sv_handle: "ss_tasks s = ts @ Todo reqs b # us \<Longrightarrow>
    handle_task call reqs b (ss_conn s) = Some (cn, msg, acts) \<Longrightarrow>
    serve_step unm call services s (s\<lparr>ss_conn := cn, ss_tasks := ts @ Ready msg acts # us\<rparr>)"
| sv_write: "ss_tasks s = ts @ Ready msg acts # us \<Longrightarrow>
    serve_step unm call services s (s\<lparr>ss_conn := write_response msg (ss_conn s),
      ss_tasks := ts @ Wrote acts # us, ss_answered := ss_answered s @ [response_ids msg]\<rparr>)"
| sv_activate: "ss_tasks s = ts @ Wrote acts # us \<Longrightarrow> run_callbacks acts (ss_conn s) = Some cn \<Longrightarrow>
    serve_step unm call services s (s\<lparr>ss_conn := cn, ss_tasks := ts @ us\<rparr>)"
| sv_user: "user_step (cn_notifier (ss_conn s)) n \<Longrightarrow>
    serve_step unm call services s (s\<lparr>ss_conn := (ss_conn s)\<lparr>cn_notifier := n\<rparr>\<rparr>)"
| sv_stop: "ss_run s \<Longrightarrow>
    serve_step unm call services s (s\<lparr>ss_run := False,
      ss_conn := (if ss_phase s = Returned then ss_conn s
                  else set_codec (Close (cn_codec (ss_conn s))) (ss_conn s))\<rparr>)"
| sv_close: "ss_phase s = Returned \<Longrightarrow>
    serve_step unm call services s (s\<lparr>ss_conn := set_codec (Close (cn_codec (ss_conn s))) (ss_conn s)\<rparr>)"

definition start_session :: "'a conn \<Rightarrow> 'a session" where
  "start_session cn = \<lparr>ss_conn = cn, ss_phase = Looping, ss_tasks = [], ss_run = True,
     ss_read = [], ss_answered = []\<rparr>"

section \<open>Tasks\<close>

text \<open>A goroutine that runs alone does what \<open>exec\<close> or \<open>execBatch\<close> does.\<close>

lemma run_task_phases:
  "run_task call reqs b cn =
     do { (cn', msg, acts) \<leftarrow> handle_task call reqs b cn; run_callbacks acts (write_response msg cn') }"
  by (auto simp: run_task_def handle_task_def exec_def execBatch_def bind_assoc
      split: list.split Option.bind_split intro!: Option.bind_cong)

lemma handle_task_facts:
  assumes call: "uses_notifier call" and h: "handle_task call reqs b cn = Some (cn', msg, acts)"
    and b: "b \<or> length reqs = 1"
  shows "conn_ext cn cn'" and "response_ids msg = req_ids reqs"
    and "list_all (\<lambda>a. fst a \<in> set (announced_ids msg)) acts"
proof -
  have "conn_ext cn cn' \<and> response_ids msg = req_ids reqs
      \<and> list_all (\<lambda>a. fst a \<in> set (announced_ids msg)) acts"
  proof (cases b)
    case True
    with h obtain msgs where r: "respond_all call reqs cn = Some (cn', msgs, acts)" and m: "msg = MBatch msgs"
      by (auto simp: handle_task_def split: Option.bind_splits)
    from respond_all_ext[OF call r] respond_all_response[OF r] show ?thesis by (simp add: m req_ids_def)
  next
    case False
    with b obtain req where req: "reqs = [req]" by (auto simp: length_Suc_conv)
    with False h obtain act where r: "respond call req cn = Some (cn', msg, act)"
      and acts: "acts = (case act of None \<Rightarrow> [] | Some a \<Rightarrow> [a])"
      by (auto simp: handle_task_def split: Option.bind_splits)
    have "list_all (\<lambda>a. fst a \<in> set (announced_ids msg)) acts"
      using respond_response(2)[OF r] by (cases act) (auto simp: acts prod_eq_iff)
    with respond_ext[OF call r] respond_response(1)[OF r] show ?thesis by (simp add: req req_ids_def)
  qed
  then show "conn_ext cn cn'" "response_ids msg = req_ids reqs"
    "list_all (\<lambda>a. fst a \<in> set (announced_ids msg)) acts" by blast+
qed

section \<open>The invariant of a session\<close>

text \<open>The client was told an ID: a response that announces it was written, or the connection
  is closed.\<close>

definition told :: "'a conn \<Rightarrow> string \<Rightarrow> bool" where
  "told cn i \<longleftrightarrow> Closed (cn_codec cn)
     \<or> list_ex (\<lambda>m. i \<in> set (announced_ids m)) (jc_out (cn_codec cn))"

fun task_ok :: "(gmethod \<Rightarrow> bool) \<Rightarrow> 'a conn \<Rightarrow> 'a task \<Rightarrow> bool" where
  "task_ok P cn (Todo reqs b) = (list_all (resolved P) reqs \<and> (b \<or> length reqs = 1))"
| "task_ok P cn (Ready msg acts) = list_all (\<lambda>a. fst a \<in> set (announced_ids msg)) acts"
| "task_ok P cn (Wrote acts) = list_all (\<lambda>a. told cn (fst a)) acts"

fun pending_ids :: "'a task \<Rightarrow> RawMessage option list list" where
  "pending_ids (Todo reqs b) = [req_ids reqs]"
| "pending_ids (Ready msg acts) = [response_ids msg]"
| "pending_ids (Wrote acts) = []"

definition conn_ok :: "'a conn \<Rightarrow> bool" where
  "conn_ok cn \<longleftrightarrow> codec_inv (cn_codec cn) \<and> notifier_inv (cn_notifier cn)
     \<and> (\<forall>i \<in> dom (nt_active (cn_notifier cn)). told cn i)"

definition accounted :: "'a session \<Rightarrow> bool" where
  "accounted s \<longleftrightarrow> mset (ss_read s) = mset (ss_answered s) + mset (concat (map pending_ids (ss_tasks s)))"

definition session_inv :: "(gmethod \<Rightarrow> bool) \<Rightarrow> 'a session \<Rightarrow> bool" where
  "session_inv P s \<longleftrightarrow>
     conn_ok (ss_conn s) \<and> list_all (task_ok P (ss_conn s)) (ss_tasks s) \<and> accounted s
     \<and> (ss_run s \<and> ss_phase s = Returned \<longrightarrow> ss_tasks s = [])"

text \<open>How every step but activation changes the connection.\<close>

definition conn_le :: "'a conn \<Rightarrow> 'a conn \<Rightarrow> bool" where
  "conn_le cn cn' \<longleftrightarrow>
     cn_supported cn' = cn_supported cn
     \<and> set (jc_out (cn_codec cn)) \<subseteq> set (jc_out (cn_codec cn'))
     \<and> (Closed (cn_codec cn) \<longrightarrow> Closed (cn_codec cn'))
     \<and> dom (nt_active (cn_notifier cn')) \<subseteq> dom (nt_active (cn_notifier cn))
     \<and> (notifier_inv (cn_notifier cn) \<longrightarrow> notifier_inv (cn_notifier cn'))
     \<and> (codec_inv (cn_codec cn) \<longrightarrow> codec_inv (cn_codec cn'))"

lemma conn_ext_le: "conn_ext cn cn' \<Longrightarrow> conn_le cn cn'"
  unfolding conn_ext_def conn_le_def by auto

lemma conn_le_trans: "conn_le a b \<Longrightarrow> conn_le b c \<Longrightarrow> conn_le a c"
  unfolding conn_le_def by (metis order_trans)

lemma told_mono: "conn_le cn cn' \<Longrightarrow> told cn i \<Longrightarrow> told cn' i"
  unfolding told_def conn_le_def list_ex_iff by blast

lemma task_ok_mono: "conn_le cn cn' \<Longrightarrow> task_ok P cn t \<Longrightarrow> task_ok P cn' t"
  by (cases t) (auto simp: list_all_iff dest: told_mono)

lemma tasks_ok_mono: "conn_le cn cn' \<Longrightarrow> list_all (task_ok P cn) ts \<Longrightarrow> list_all (task_ok P cn') ts"
  by (auto simp: list_all_iff intro: task_ok_mono)

lemma conn_ok_mono: "conn_le cn cn' \<Longrightarrow> conn_ok cn \<Longrightarrow> conn_ok cn'"
  unfolding conn_ok_def by (meson conn_le_def subsetD told_mono)

lemma conn_le_set_codec:
  assumes "set (jc_out (cn_codec cn)) \<subseteq> set (jc_out c)" and "Closed (cn_codec cn) \<Longrightarrow> Closed c"
    and "codec_inv (cn_codec cn) \<Longrightarrow> codec_inv c"
  shows "conn_le cn (set_codec c cn)"
  using assms by (simp add: conn_le_def)

lemma conn_le_write_only: "conn_le cn (write_only m cn)"
  unfolding write_only_def by (rule conn_le_set_codec) (simp_all add: Write_out)

lemma conn_le_read_error: "conn_le cn (read_error_reply e cn)"
  using conn_le_write_only[of cn] by (simp add: read_error_reply_def conn_ext_le)

lemma conn_le_Close: "conn_le cn (set_codec (Close (cn_codec cn)) cn)"
  by (rule conn_le_set_codec) simp_all

lemma conn_le_read:
  assumes "serve_read unm services cn = (cn', reqs, b, e)"
  shows "conn_le cn cn'"
proof -
  have "cn' = set_codec (fst (ReadRequestHeaders (cn_codec cn))) cn"
    using assms by (auto simp: serve_read_def readRequest_def Let_def split: prod.splits option.splits)
  then show ?thesis by (auto intro!: conn_le_set_codec simp: Closed_def codec_inv_def)
qed

lemma serve_read_requests:
  assumes "sound_registry P services" and "serve_read unm services cn = (cn', reqs, b, None)"
  shows "list_all (resolved P) reqs" and "b \<or> length reqs = 1"
proof -
  from assms(2) obtain c where
    "readRequest ReadRequestHeaders (ParseRequestArguments unm) services (cn_codec cn) = (c, reqs, b, None)"
    by (auto simp: serve_read_def split: prod.splits)
  from readRequest_resolved[OF assms(1) this]
  show "list_all (resolved P) reqs" and "b \<or> length reqs = 1" by blast+
qed

lemma user_step_le: "user_step (cn_notifier cn) n \<Longrightarrow> conn_le cn (cn\<lparr>cn_notifier := n\<rparr>)"
  using user_step_frame[of "cn_notifier cn" n] by (auto simp: conn_le_def cn_codec_def)

lemma shutdown_message_ids:
  "b \<or> length reqs = 1 \<Longrightarrow> response_ids (shutdown_message reqs b) = req_ids reqs"
  by (cases reqs) (auto simp: shutdown_message_def req_ids_def comp_def)

text \<open>A step that keeps the tasks and moves the connection forward.\<close>

lemma session_inv_conn:
  assumes "session_inv P s" and "conn_le (ss_conn s) cn"
  shows "conn_ok cn" and "list_all (task_ok P cn) (ss_tasks s)"
  using assms(1) conn_ok_mono[OF assms(2)] tasks_ok_mono[OF assms(2)] unfolding session_inv_def by blast+

lemma told_write:
  assumes "codec_inv (cn_codec cn)" and "i \<in> set (announced_ids msg)"
  shows "told (write_response msg cn) i"
  using write_response_delivered[OF assms(1), of msg] assms(2)
  by (auto simp: delivered_def told_def list_ex_iff)

lemma session_inv_activate:
  assumes inv: "session_inv P s" and tasks: "ss_tasks s = ts @ Wrote acts # us"
    and run: "run_callbacks acts (ss_conn s) = Some cn"
  shows "session_inv P (s\<lparr>ss_conn := cn, ss_tasks := ts @ us\<rparr>)"
proof -
  note f = run_callbacks_frame[OF run]
  have told: "told cn = told (ss_conn s)" using f by (simp add: told_def fun_eq_iff)
  have "task_ok P cn t = task_ok P (ss_conn s) t" for t by (cases t) (simp_all add: told)
  then have "task_ok P cn = task_ok P (ss_conn s)" by (rule ext)
  moreover have ok: "conn_ok (ss_conn s)" using inv by (simp add: session_inv_def)
  have "told cn i" if "i \<in> dom (nt_active (cn_notifier cn))" for i
  proof -
    from f that have "i \<in> dom (nt_active (cn_notifier (ss_conn s))) \<or> i \<in> fst ` set acts" by blast
    then show ?thesis
    proof
      assume "i \<in> dom (nt_active (cn_notifier (ss_conn s)))"
      with ok show ?thesis unfolding told conn_ok_def by blast
    next
      assume "i \<in> fst ` set acts"
      with inv show ?thesis unfolding told by (auto simp: session_inv_def tasks list_all_iff)
    qed
  qed
  then have "conn_ok cn" using ok f by (simp add: conn_ok_def)
  ultimately show ?thesis using inv by (auto simp: session_inv_def tasks accounted_def)
qed

lemma session_inv_step:
  assumes call: "uses_notifier call" and reg: "sound_registry P services"
    and step: "serve_step unm call services s s'" and inv: "session_inv P s"
  shows "session_inv P s'"
  using step
proof cases
  case (sv_error cn reqs b e)
  have "conn_le (ss_conn s) (read_error_reply e cn)"
    using conn_le_trans[OF conn_le_read[OF sv_error(3)] conn_le_read_error] .
  from session_inv_conn[OF inv this] inv show ?thesis
    by (simp add: sv_error(1) session_inv_def accounted_def)
next
  case (sv_shutdown cn reqs b)
  have "conn_le (ss_conn s) (write_only (shutdown_message reqs b) cn)"
    using conn_le_trans[OF conn_le_read[OF sv_shutdown(3)] conn_le_write_only] .
  from session_inv_conn[OF inv this] inv sv_shutdown(4) serve_read_requests[OF reg sv_shutdown(3)]
  show ?thesis by (simp add: sv_shutdown(1) session_inv_def accounted_def shutdown_message_ids)
next
  case (sv_spawn cn reqs b)
  from session_inv_conn[OF inv conn_le_read[OF sv_spawn(3)]] inv serve_read_requests[OF reg sv_spawn(3)]
  show ?thesis by (simp add: sv_spawn(1) session_inv_def accounted_def)
next
  case (sv_handle ts reqs b us cn msg acts)
  have "b \<or> length reqs = 1" using inv by (simp add: session_inv_def sv_handle(2))
  note h = handle_task_facts[OF call sv_handle(3) this]
  from session_inv_conn[OF inv conn_ext_le[OF h(1)]] inv h(2,3)
  show ?thesis by (simp add: sv_handle(1,2) session_inv_def accounted_def)
next
  case (sv_write ts msg acts us)
  have le: "conn_le (ss_conn s) (write_response msg (ss_conn s))"
    by (rule conn_ext_le[OF write_response_ext])
  have "told (write_response msg (ss_conn s)) (fst a)" if "a \<in> set acts" for a
    using inv that by (intro told_write) (auto simp: session_inv_def conn_ok_def sv_write(2) list_all_iff)
  with session_inv_conn[OF inv le] inv show ?thesis
    by (simp add: sv_write(1,2) session_inv_def accounted_def list_all_iff)
next
  case (sv_activate ts acts us cn)
  with session_inv_activate[OF inv] show ?thesis by simp
next
  case (sv_user n)
  from session_inv_conn[OF inv user_step_le[OF sv_user(2)]] inv show ?thesis
    by (simp add: sv_user(1) session_inv_def accounted_def)
next
  case sv_stop
  from session_inv_conn[OF inv conn_le_Close] inv show ?thesis
    by (simp add: sv_stop(1) session_inv_def accounted_def)
next
  case sv_close
  from session_inv_conn[OF inv conn_le_Close] inv show ?thesis
    by (simp add: sv_close(1) session_inv_def accounted_def)
qed (use inv in \<open>simp_all add: session_inv_def accounted_def\<close>)

lemma start_fields:
  "ss_conn (start_session cn) = cn" "ss_phase (start_session cn) = Looping" "ss_run (start_session cn)"
  by (simp_all add: start_session_def)

lemma session_inv_start:
  "codec_inv (cn_codec cn) \<Longrightarrow> notifier_inv (cn_notifier cn) \<Longrightarrow> nt_active (cn_notifier cn) = Map.empty
   \<Longrightarrow> session_inv P (start_session cn)"
  by (simp add: session_inv_def start_session_def conn_ok_def accounted_def)

lemma fresh_conn:
  "codec_inv (cn_codec (new_conn (NewCodec inp werr) subs))"
  "notifier_inv (cn_notifier (new_conn c subs))" "nt_active (cn_notifier (new_conn c subs)) = Map.empty"
  "cn_supported (new_conn c subs) = subs"
  by (simp_all add: new_conn_def cn_codec_def newNotifier_def notifier_inv_def)

text \<open>
  The interface to the invariant rule: sessions of a server whose registry was built by
  registration and whose methods reach the connection through the notifier.
\<close>

locale serving =
  fixes unm :: "gtype \<Rightarrow> json \<Rightarrow> string + 'a gval" and call :: "'a call"
    and services :: "'a ServiceRegistry" and P :: "gmethod \<Rightarrow> bool"
  assumes uses_call: "uses_notifier call" and sound: "sound_registry P services"
begin

lemma reachable_session:
  assumes "(serve_step unm call services)\<^sup>*\<^sup>* (start_session (new_conn (NewCodec inp werr) subs)) s"
  shows "session_inv P s"
  using assms
  by (induction rule: rtranclp_induct)
    (auto intro: session_inv_start session_inv_step[OF uses_call sound] simp: fresh_conn)

lemma served_all:
  assumes "(serve_step unm call services)\<^sup>*\<^sup>* (start_session (new_conn (NewCodec inp werr) subs)) s"
    and "ss_phase s = Returned" and "ss_run s"
  shows "mset (ss_answered s) = mset (ss_read s)"
  using reachable_session[OF assms(1)] assms(2,3) by (simp add: session_inv_def accounted_def)

lemma never_overanswered:
  assumes "(serve_step unm call services)\<^sup>*\<^sup>* (start_session (new_conn (NewCodec inp werr) subs)) s"
  shows "mset (ss_answered s) \<subseteq># mset (ss_read s)"
  using reachable_session[OF assms] by (simp add: session_inv_def accounted_def)

lemma active_told:
  assumes "(serve_step unm call services)\<^sup>*\<^sup>* (start_session (new_conn (NewCodec inp werr) subs)) s"
    and "nt_active (cn_notifier (ss_conn s)) i = Some a"
  shows "told (ss_conn s) i"
  using reachable_session[OF assms(1)] assms(2) unfolding session_inv_def conn_ok_def by blast

end

lemma serving_registered:
  assumes "uses_notifier call" and "list_all (\<lambda>nr. list_all P (rc_Methods (snd nr))) rs"
  shows "serving call (register_all rs []) P"
  using assms by unfold_locales (simp_all add: sound_registry_all)

text \<open>
  Service code as a script: from the callback, its arguments and the notifier it finds, the
  operations it performs on the notifier and the values it returns. Every such code
  satisfies the contract of callees.
\<close>

datatype 'v user_op = OpCreate "nat \<Rightarrow> u64" | OpNotify string "'v option"

fun run_op :: "'v user_op \<Rightarrow> 'v Notifier \<Rightarrow> 'v Notifier" where
  "run_op (OpCreate vals) n = fst (CreateSubscription vals n)"
| "run_op (OpNotify i d) n = fst (Notify i d n)"

type_synonym 'a script =
  "'a Callback \<Rightarrow> 'a gval list \<Rightarrow> 'a gval Notifier \<Rightarrow> ('a gval user_op list \<times> 'a gval list) option"

definition script_call :: "'a script \<Rightarrow> 'a call" where
  "script_call script cb args cn =
     do { (ops, vs) \<leftarrow> script cb args (cn_notifier cn);
          Some (cn\<lparr>cn_notifier := foldl (\<lambda>n op. run_op op n) (cn_notifier cn) ops\<rparr>, vs) }"

lemma run_ops_steps: "user_step\<^sup>*\<^sup>* n (foldl (\<lambda>n op. run_op op n) n ops)"
proof (induction ops arbitrary: n)
  case (Cons op ops)
  have "user_step n (run_op op n)" by (cases op) (simp_all add: user_step.intros)
  with Cons show ?case by (simp add: converse_rtranclp_into_rtranclp)
qed simp

lemma script_uses_notifier: "uses_notifier (script_call script)"
  by (auto simp: uses_notifier_def script_call_def run_ops_steps split: Option.bind_splits)

interpretation scripted: serving unm "script_call script" "register_all rs []" "\<lambda>_. True"
  for unm script rs
  by (rule serving_registered) (simp_all add: script_uses_notifier list_all_iff)

section \<open>Serving comes to an end\<close>

fun task_weight :: "'a task \<Rightarrow> nat" where
  "task_weight (Todo reqs b) = 3"
| "task_weight (Ready msg acts) = 2"
| "task_weight (Wrote acts) = 1"

lemma handle_task_total:
  assumes "list_all (resolved plain_method) reqs" "b \<or> length reqs = 1"
    and "call_total call" "uses_notifier call" "notifier_inv (cn_notifier cn)"
  shows "handle_task call reqs b cn \<noteq> None"
proof (cases b)
  case True
  with respond_all_total[OF assms(1,3,4,5)] show ?thesis by (auto simp: handle_task_def)
next
  case False
  with assms(1,2) obtain req where "reqs = [req]" "resolved plain_method req"
    by (auto simp: length_Suc_conv)
  with False respond_total[of req call cn] assms(3,5) show ?thesis by (auto simp: handle_task_def)
qed

text \<open>One step of the first goroutine.\<close>

lemma task_progress:
  assumes call: "call_total call" "uses_notifier call"
    and inv: "session_inv plain_method s" and sup: "cn_supported (ss_conn s)"
    and t: "ss_tasks s = t # us"
  obtains s' where "serve_step unm call services s s'" "cn_supported (ss_conn s')"
    "ss_phase s' = ss_phase s" "ss_run s' = ss_run s"
    "sum_list (map task_weight (ss_tasks s')) < sum_list (map task_weight (ss_tasks s))"
proof (cases t)
  case (Todo reqs b)
  have ok: "list_all (resolved plain_method) reqs" "b \<or> length reqs = 1" "notifier_inv (cn_notifier (ss_conn s))"
    using inv by (simp_all add: session_inv_def conn_ok_def t Todo)
  obtain cn msg acts where h: "handle_task call reqs b (ss_conn s) = Some (cn, msg, acts)"
    using handle_task_total[OF ok(1,2) call ok(3)] by auto
  have "cn_supported cn" using handle_task_facts(1)[OF call(2) h ok(2)] sup by (simp add: conn_ext_def)
  then show ?thesis using that[OF sv_handle[of s "[]" reqs b us, OF _ h]] by (simp add: t Todo)
next
  case (Ready msg acts)
  show ?thesis using that[OF sv_write[of s "[]" msg acts us]] sup by (simp add: t Ready)
next
  case (Wrote acts)
  obtain cn where r: "run_callbacks acts (ss_conn s) = Some cn"
    using run_callbacks_total[OF sup] by auto
  have "cn_supported cn" using run_callbacks_frame[OF r] sup by simp
  then show ?thesis using that[OF sv_activate[of s "[]" acts us, OF _ r]] by (simp add: t Wrote)
qed

lemma drain_terminates:
  assumes call: "call_total call" "uses_notifier call" and reg: "sound_registry plain_method services"
    and "session_inv plain_method s" "cn_supported (ss_conn s)" "ss_phase s = Draining"
  shows "\<exists>t. (serve_step unm call services)\<^sup>*\<^sup>* s t \<and> ss_phase t = Returned \<and> ss_run t = ss_run s"
  using assms(4-6)
proof (induction "sum_list (map task_weight (ss_tasks s))" arbitrary: s rule: less_induct)
  case less
  show ?case
  proof (cases "ss_tasks s")
    case Nil
    from sv_drained[OF less.prems(3) Nil, of unm call services] show ?thesis
      by (intro exI[of _ "s\<lparr>ss_phase := Returned\<rparr>"]) auto
  next
    case (Cons t us)
    from task_progress[OF call less.prems(1,2) Cons, of unm services] obtain s' where
      s': "serve_step unm call services s s'" "cn_supported (ss_conn s')" "ss_phase s' = ss_phase s"
        "ss_run s' = ss_run s" "sum_list (map task_weight (ss_tasks s')) < sum_list (map task_weight (ss_tasks s))"
      by blast
    have "session_inv plain_method s'" by (rule session_inv_step[OF call(2) reg s'(1) less.prems(1)])
    from less.hyps[OF s'(5) this s'(2)] s'(3,4) less.prems(3) s'(1) show ?thesis
      by (metis converse_rtranclp_into_rtranclp)
  qed
qed

lemma serve_read_in:
  assumes "serve_read unm services cn = (cn', reqs, b, e)"
  shows "jc_in (cn_codec cn') = tl (jc_in (cn_codec cn))" and "jc_in (cn_codec cn) = [] \<Longrightarrow> e \<noteq> None"
    and "cn_supported cn' = cn_supported cn"
proof -
  have cn': "cn' = set_codec (fst (ReadRequestHeaders (cn_codec cn))) cn"
    and e: "e = snd (snd (snd (ReadRequestHeaders (cn_codec cn))))"
    using assms by (auto simp: serve_read_def readRequest_def Let_def split: prod.splits option.splits)
  show "jc_in (cn_codec cn') = tl (jc_in (cn_codec cn))" "cn_supported cn' = cn_supported cn"
    by (auto simp: cn' ReadRequestHeaders_def split: list.split sum.split)
  show "e \<noteq> None" if "jc_in (cn_codec cn) = []" using that by (simp add: e ReadRequestHeaders_def)
qed

lemma serving_terminates_from:
  assumes call: "call_total call" "uses_notifier call" and reg: "sound_registry plain_method services"
    and "session_inv plain_method s" "cn_supported (ss_conn s)" "ss_phase s = Looping" "ss_run s"
  shows "\<exists>t. (serve_step unm call services)\<^sup>*\<^sup>* s t \<and> ss_phase t = Returned \<and> ss_run t"
  using assms(4-7)
proof (induction "length (jc_in (cn_codec (ss_conn s)))" arbitrary: s rule: less_induct)
  case less
  let ?r = "s\<lparr>ss_phase := Reading\<rparr>"
  have loop: "serve_step unm call services s ?r" using less.prems(3,4) by (rule sv_loop)
  note inv = session_inv_step[OF call(2) reg loop less.prems(1)]
  obtain cn reqs b e where r: "serve_read unm services (ss_conn ?r) = (cn, reqs, b, e)" by (metis prod.exhaust)
  note rd = serve_read_in[OF r]
  have sup: "cn_supported cn" using rd(3) less.prems(2) by simp
  show ?case
  proof (cases e)
    case (Some err)
    let ?d = "?r\<lparr>ss_conn := read_error_reply err cn, ss_phase := Draining\<rparr>"
    have st: "serve_step unm call services ?r ?d" by (rule sv_error[OF _ r[unfolded Some]]) simp
    have "cn_supported (ss_conn ?d)" using conn_le_read_error[of cn err] sup by (simp add: conn_le_def)
    then obtain t where t: "(serve_step unm call services)\<^sup>*\<^sup>* ?d t" "ss_phase t = Returned" "ss_run t = ss_run ?d"
      using drain_terminates[OF call reg session_inv_step[OF call(2) reg st inv], of unm] by auto
    from loop st t(1) have "(serve_step unm call services)\<^sup>*\<^sup>* s t"
      by (meson converse_rtranclp_into_rtranclp)
    with t(2,3) less.prems(4) show ?thesis by auto
  next
    case None
    let ?d = "?r\<lparr>ss_conn := cn, ss_phase := Looping, ss_tasks := ss_tasks ?r @ [Todo reqs b],
      ss_read := ss_read ?r @ [req_ids reqs]\<rparr>"
    have st: "serve_step unm call services ?r ?d"
      by (rule sv_spawn[OF _ r[unfolded None]]) (simp_all add: less.prems(4))
    have "jc_in (cn_codec (ss_conn s)) \<noteq> []" using rd(2) None by auto
    then have "length (jc_in (cn_codec (ss_conn ?d))) < length (jc_in (cn_codec (ss_conn s)))"
      using rd(1) by simp
    from less.hyps[OF this session_inv_step[OF call(2) reg st inv]] sup less.prems(4)
    obtain t where t: "(serve_step unm call services)\<^sup>*\<^sup>* ?d t" "ss_phase t = Returned" "ss_run t" by auto
    from loop st t(1) have "(serve_step unm call services)\<^sup>*\<^sup>* s t"
      by (meson converse_rtranclp_into_rtranclp)
    with t(2,3) show ?thesis by blast
  qed
qed

text \<open>A small service with one subscription method, and code that creates the subscription.\<close>

definition event_method :: gmethod where
  "event_method = \<lparr>gm_Name = ''Events'', gm_PkgPath = '''',
     gm_In = [TBase ''Svc'' ''svc'' False False, contextType],
     gm_Out = [TPtr subscriptionType, TBase ''error'' '''' True True]\<rparr>"

definition event_services :: "(string \<times> nat receiver) list" where
  "event_services = [(''ev'', \<lparr>rc_Value = 0, rc_Type = TBase ''Svc'' ''svc'' False False,
     rc_String = ''svc.Svc'', rc_Methods = [event_method]\<rparr>)]"

definition event_script :: "nat script" where
  "event_script cb args n =
     (if isPubSub (cb_Method cb) then Some ([OpCreate (\<lambda>_. 0)], [VSub (NewID (\<lambda>_. 0)), VNil])
      else Some ([], map (\<lambda>t. VNil) (gm_Out (cb_Method cb))))"

definition event_input :: "(string + json) list" where
  "event_input = [Inr (call_object JNull ''ev_subscribe'' (JArr [JStr ''events'']))]"

abbreviation event_unm :: "gtype \<Rightarrow> json \<Rightarrow> string + nat gval" where
  "event_unm \<equiv> \<lambda>t j. Inl ''no values''"

lemma event_script_total: "call_total (script_call event_script)"
proof -
  have "\<not> isErrorType (gm_Out m ! 0)" if "isPubSub m" for m
    using that by (auto simp: isPubSub_def isSubscriptionType_def isErrorType_def subscriptionType_def
        split: if_splits)
  moreover have "length (gm_Out m) = 2" if "isPubSub m" for m
    using that by (auto simp: isPubSub_def split: if_splits)
  ultimately show ?thesis
    by (auto simp: call_total_def script_call_def event_script_def typed_reply_def less_Suc_eq)
qed

lemma event_methods_plain: "list_all (\<lambda>nr. list_all plain_method (rc_Methods (snd nr))) event_services"
  by (simp add: event_services_def plain_method_def event_method_def)

lemma serving_terminates_lemma:
  assumes "list_all (\<lambda>nr. list_all plain_method (rc_Methods (snd nr))) rs"
    and "call_total (script_call script)"
  shows "\<exists>t. (serve_step unm (script_call script) (register_all rs []))\<^sup>*\<^sup>*
      (start_session (new_conn (NewCodec inp werr) True)) t \<and> ss_phase t = Returned \<and> ss_run t"
  using assms
  by (intro serving_terminates_from)
    (simp_all add: script_uses_notifier sound_registry_all session_inv_start fresh_conn start_fields)

section \<open>What serving guarantees\<close>



text \<open>A message served on its own, with nothing else going on.\<close>

lemma serve_one:
  assumes r: "serve_read unm services cn = (cn1, reqs, b, None)"
    and h: "handle_task call reqs b cn1 = Some (cn2, msg, acts)"
    and c: "run_callbacks acts (write_response msg cn2) = Some cn3"
  shows "\<exists>s. (serve_step unm call services)\<^sup>*\<^sup>* (start_session cn) s \<and> ss_conn s = cn3"
proof -
  let ?step = "serve_step unm call services" and ?s0 = "start_session cn"
  let ?sr = "?s0\<lparr>ss_phase := Reading\<rparr>"
  let ?st = "?sr\<lparr>ss_conn := cn1, ss_phase := Looping, ss_tasks := ss_tasks ?sr @ [Todo reqs b],
      ss_read := ss_read ?sr @ [req_ids reqs]\<rparr>"
  let ?sh = "?st\<lparr>ss_conn := cn2, ss_tasks := [] @ Ready msg acts # []\<rparr>"
  let ?sw = "?sh\<lparr>ss_conn := write_response msg (ss_conn ?sh), ss_tasks := [] @ Wrote acts # [],
      ss_answered := ss_answered ?sh @ [response_ids msg]\<rparr>"
  let ?sa = "?sw\<lparr>ss_conn := cn3, ss_tasks := [] @ []\<rparr>"
  have "?step ?s0 ?sr" by (rule sv_loop) (simp_all add: start_fields)
  moreover have "?step ?sr ?st" by (rule sv_spawn) (simp_all add: start_fields r)
  moreover have "?step ?st ?sh"
    by (rule sv_handle[where reqs = reqs and b = b]) (simp add: start_session_def, simp, rule h)
  moreover have "?step ?sh ?sw" by (rule sv_write) simp
  moreover have "?step ?sw ?sa" by (rule sv_activate) (simp, simp, rule c)
  ultimately have "?step\<^sup>*\<^sup>* ?s0 ?sa" by (meson converse_rtranclp_into_rtranclp rtranclp.rtrancl_refl)
  moreover have "ss_conn ?sa = cn3" by simp
  ultimately show ?thesis by blast
qed

text \<open>At every moment of serving, each active subscription is one whose ID the client was
  sent before in a response (unless the connection is closed): no notification can precede
  the response that announces its subscription.\<close>

theorem active_only_after_announcement:
  assumes "(serve_step unm (script_call script) (register_all rs []))\<^sup>*\<^sup>*
      (start_session (new_conn (NewCodec inp werr) subs)) s"
    and "nt_active (cn_notifier (ss_conn s)) i = Some a"
  shows "Closed (cn_codec (ss_conn s))
    \<or> list_ex (\<lambda>m. i \<in> set (announced_ids m)) (jc_out (cn_codec (ss_conn s)))"
  using scripted.active_told[OF assms] by (simp add: told_def)

theorem active_only_after_announcement_witness:
  "\<exists>(s :: nat session) a. nt_active (cn_notifier (ss_conn s)) (NewID (\<lambda>_. 0)) = Some a
     \<and> (Closed (cn_codec (ss_conn s))
        \<or> list_ex (\<lambda>m. NewID (\<lambda>_. 0) \<in> set (announced_ids m)) (jc_out (cn_codec (ss_conn s))))"
proof -
  let ?call = "script_call event_script" and ?svcs = "register_all event_services []"
  let ?step = "serve_step event_unm ?call ?svcs" and ?i = "NewID (\<lambda>_. 0)"
  let ?cn = "new_conn (NewCodec event_input []) True :: nat conn"
  have run: "case serve_read event_unm ?svcs ?cn of (cn1, reqs, b, e) \<Rightarrow>
      (case handle_task ?call reqs b cn1 of None \<Rightarrow> False | Some (cn2, msg, acts) \<Rightarrow>
      (case run_callbacks acts (write_response msg cn2) of None \<Rightarrow> False | Some cn3 \<Rightarrow>
         e = None \<and> nt_active (cn_notifier cn3) ?i \<noteq> None))" by code_simp
  obtain cn1 reqs b e where r: "serve_read event_unm ?svcs ?cn = (cn1, reqs, b, e)" by (metis prod.exhaust)
  with run obtain cn2 msg acts cn3 a where h: "handle_task ?call reqs b cn1 = Some (cn2, msg, acts)"
    and c: "run_callbacks acts (write_response msg cn2) = Some cn3" and "e = None"
    and a: "nt_active (cn_notifier cn3) ?i = Some a"
    by (auto split: option.splits)
  from serve_one[OF r[unfolded \<open>e = None\<close>] h c] obtain s where steps: "?step\<^sup>*\<^sup>* (start_session ?cn) s"
    and s: "ss_conn s = cn3" by blast
  have act: "nt_active (cn_notifier (ss_conn s)) ?i = Some a" using a s by simp
  show ?thesis
    by (rule exI[of _ s], rule exI[of _ a], rule conjI[OF act], rule active_only_after_announcement[OF steps act])
qed



section \<open>Single shots and stopping\<close>

lemma write_only_out:
  "jc_out (cn_codec (write_only m cn)) =
     jc_out (cn_codec cn) @ (if snd (Write m (cn_codec cn)) = None then [m] else [])"
  by (simp add: write_only_def Write_out)

lemma serve_read_facts:
  assumes "serve_read unm services cn = (cn', reqs, b, e)"
  shows "jc_out (cn_codec cn') = jc_out (cn_codec cn)" and "e = None \<Longrightarrow> b \<or> length reqs = 1"
proof -
  obtain c where r: "readRequest ReadRequestHeaders (ParseRequestArguments unm) services (cn_codec cn) = (c, reqs, b, e)"
    and cn': "cn' = set_codec c cn"
    using assms by (auto simp: serve_read_def split: prod.splits)
  have "c = fst (ReadRequestHeaders (cn_codec cn))"
    using r by (auto simp: readRequest_def split: prod.splits option.splits)
  then show "jc_out (cn_codec cn') = jc_out (cn_codec cn)" by (simp add: cn')
  show "b \<or> length reqs = 1" if "e = None"
    using json_codec.readRequest_single[of unm services "cn_codec cn" c reqs] r that by (cases b) auto
qed

lemma run_task_answered:
  assumes "uses_notifier call" "codec_inv (cn_codec cn)" "b \<or> length reqs = 1" "run_task call reqs b cn = Some cn'"
  shows "answered (req_ids reqs) cn cn'"
proof (cases b)
  case True
  with assms execBatch_answered show ?thesis by (simp add: run_task_def req_ids_def)
next
  case False
  with assms obtain req where "reqs = [req]" by (auto simp: length_Suc_conv)
  with False assms exec_answered[of call cn req cn'] show ?thesis by (simp add: run_task_def req_ids_def)
qed



lemma Close_idem [simp]: "Close (Close c) = Close c"
  by (simp add: Close_def)

lemma foldl_Close:
  "(foldl (\<lambda>cs k. cs(k := Close (cs k))) codecs ks) k =
     (if k \<in> set ks then Close (codecs k) else codecs k)"
  by (induction ks arbitrary: codecs) auto

text \<open>stopping closes exactly the codecs that are being served, once: the flag is down
  afterwards, and a second \<open>Stop\<close> changes nothing.\<close>

theorem Stop_once:
  "srv_Run (fst (Stop srv codecs)) \<noteq> 1
   \<and> snd (Stop srv codecs) k =
       (if srv_Run srv = 1 \<and> k \<in> set (srv_Codecs srv) then Close (codecs k) else codecs k)
   \<and> Stop (fst (Stop srv codecs)) (snd (Stop srv codecs)) = Stop srv codecs"
  by (simp add: Stop_def foldl_Close)

end
