(* ===== verification/Rpc_Endpoint.thy ===== *)
theory Rpc_Endpoint
  imports Rpc_Serving
begin

text \<open>
  The transports of the server: HTTP requests (src/pkg/server/http.go), the origin check of
  websocket connections (src/pkg/server/websocket.go) and the start of an endpoint with its
  whitelist of namespaces (src/pkg/server/endpoint.go). The parser of media types and the
  JSON decoder are arguments, as are the host name and the outcome of listening.
\<close>

section \<open>http.go\<close>

definition contentType :: string where "contentType = ''application/json''"

definition maxRequestContentLength :: nat where "maxRequestContentLength = 1024 * 128"

record http_Request =
  hr_Method :: string
  hr_ContentLength :: int
  hr_RawQuery :: string
  hr_ContentType :: string
  hr_Body :: string

text \<open>\<open>mediaType\<close> gives the parsed media type, or \<open>None\<close> for its error.\<close>

definition validateRequest :: "(string \<Rightarrow> string option) \<Rightarrow> http_Request \<Rightarrow> nat \<times> string option" where
  "validateRequest mediaType r =
     (if hr_Method r = ''PUT'' \<or> hr_Method r = ''DELETE'' then (405, Some ''method not allowed'')
      else if hr_ContentLength r > int maxRequestContentLength then
        (413, Some (''content length too large ('' @ fmt_d (hr_ContentLength r) @ ''>''
                @ fmt_d (int maxRequestContentLength) @ '')''))
      else
       (let mt = mediaType (hr_ContentType r) in
        if hr_Method r \<noteq> ''OPTIONS'' \<and> (mt = None \<or> mt \<noteq> Some contentType) then
          (415, Some (''invalid content type, only '' @ contentType @ '' is supported''))
        else (0, None)))"

datatype 'a http_result = NoContent | HttpError nat string | Served "'a conn option"

text \<open>
  The body is cut off after \<open>maxRequestContentLength\<close> bytes; \<open>decode\<close> lists the values that
  the decoder finds in what is left. The codec is closed at the end. \<open>Served None\<close> is a
  panic that \<open>serveRequest\<close> recovered.
\<close>

definition ServeHTTP ::
  "(string \<Rightarrow> string option) \<Rightarrow> (string \<Rightarrow> (string + json) list) \<Rightarrow> (gtype \<Rightarrow> json \<Rightarrow> string + 'a gval)
   \<Rightarrow> 'a call \<Rightarrow> nat \<Rightarrow> bool \<times> bool \<times> bool \<Rightarrow> string option list \<Rightarrow> http_Request \<Rightarrow> 'a Server
   \<Rightarrow> 'a Server \<times> 'a http_result" where
  "ServeHTTP mediaType decode unm call k runs werr r srv =
     (if hr_Method r = ''GET'' \<and> hr_ContentLength r = 0 \<and> hr_RawQuery r = '''' then (srv, NoContent)
      else
       (case validateRequest mediaType r of
          (code, Some err) \<Rightarrow> (srv, HttpError code err)
        | (_, None) \<Rightarrow>
           (let body = take maxRequestContentLength (hr_Body r);
                cn = new_conn (NewCodec (decode body) werr) False;
                (srv', res) = serveRequest_single unm call k runs srv cn
            in (srv', Served (map_option (\<lambda>(cn', _). set_codec (Close (cn_codec cn')) cn') res)))))"

section \<open>websocket.go\<close>

text \<open>The set of origins, and whether all are allowed; \<open>hostname\<close> is \<open>None\<close> on an error.\<close>

fun collect_origins :: "string list \<Rightarrow> string set \<times> bool \<Rightarrow> string set \<times> bool" where
  "collect_origins [] acc = acc"
| "collect_origins (og # rest) (origins, allowAll) =
     collect_origins rest
       (if og \<noteq> '''' then insert (ToLower og) origins else origins, allowAll \<or> og = ''*'')"

definition wsHandshakeValidator :: "string list \<Rightarrow> string option \<Rightarrow> string \<Rightarrow> string option" where
  "wsHandshakeValidator allowedOrigins hostname reqOrigin =
     (let (origins, allowAllOrigins) = collect_origins allowedOrigins ({}, False);
          origins = (if origins = {}
                     then (case hostname of
                             None \<Rightarrow> {''http://localhost''}
                           | Some h \<Rightarrow> {''http://localhost'', ''http://'' @ ToLower h})
                     else origins);
          og = ToLower reqOrigin
      in if allowAllOrigins \<or> og \<in> origins then None
         else Some (''origin '' @ og @ '' not allowed''))"

text \<open>An accepted connection is served with subscriptions; \<open>inp\<close> is what the decoder receives.\<close>

definition WebsocketHandler ::
  "string list \<Rightarrow> string option \<Rightarrow> string \<Rightarrow> (string + json) list \<Rightarrow> string option list
   \<Rightarrow> string + 'a session" where
  "WebsocketHandler allowedOrigins hostname reqOrigin inp werr =
     (case wsHandshakeValidator allowedOrigins hostname reqOrigin of
        Some err \<Rightarrow> Inl err
      | None \<Rightarrow> Inr (start_session (new_conn (NewCodec inp werr) True)))"

section \<open>endpoint.go\<close>

definition whitelisted :: "string list \<Rightarrow> 'a receiver API \<Rightarrow> bool" where
  "whitelisted modules api \<longleftrightarrow>
     (let whitelist = set modules in
      api_Namespace api \<in> whitelist \<or> whitelist = {} \<and> api_Public api)"

fun register_apis ::
  "string list \<Rightarrow> 'a receiver API list \<Rightarrow> 'a ServiceRegistry \<Rightarrow> string + 'a ServiceRegistry" where
  "register_apis modules [] services = Inr services"
| "register_apis modules (api # apis) services =
     (if whitelisted modules api then
        (case RegisterName (api_Namespace api) (api_Service api) services of
           (_, Some err) \<Rightarrow> Inl err
         | (services', None) \<Rightarrow> register_apis modules apis services')
      else register_apis modules apis services)"

text \<open>
  The HTTP servers that are started: the handler, the server itself or wrapped by the CORS filter of
  the library with these options, and the timeouts in seconds (0 for none).
\<close>

record CorsOptions =
  co_AllowedOrigins :: "string list"
  co_AllowedMethods :: "string list"
  co_MaxAge :: int
  co_AllowedHeaders :: "string list"

datatype handler = PlainHandler | CorsHandler CorsOptions | WSHandler "string list"

record http_Server =
  hs_Handler :: handler
  hs_ReadTimeout :: int
  hs_WriteTimeout :: int
  hs_IdleTimeout :: int

definition newCorsHandler :: "string list \<Rightarrow> handler" where
  "newCorsHandler allowedOrigins =
     (if length allowedOrigins = 0 then PlainHandler
      else CorsHandler \<lparr>co_AllowedOrigins = allowedOrigins, co_AllowedMethods = [''POST'', ''GET''],
             co_MaxAge = 600, co_AllowedHeaders = [''*'']\<rparr>)"

definition NewHTTPServer :: "string list \<Rightarrow> http_Server" where
  "NewHTTPServer cors =
     \<lparr>hs_Handler = newCorsHandler cors, hs_ReadTimeout = 5, hs_WriteTimeout = 10, hs_IdleTimeout = 120\<rparr>"

definition NewWSServer :: "string list \<Rightarrow> http_Server" where
  "NewWSServer allowedOrigins =
     \<lparr>hs_Handler = WSHandler allowedOrigins, hs_ReadTimeout = 0, hs_WriteTimeout = 0, hs_IdleTimeout = 0\<rparr>"

text \<open>\<open>listen\<close> is the error of \<open>net.Listen\<close>, if it fails. The result is what is served.\<close>

definition StartHTTPEndpoint ::
  "(string \<Rightarrow> string option) \<Rightarrow> 'a \<Rightarrow> string \<Rightarrow> 'a receiver API list \<Rightarrow> string list \<Rightarrow> string list
   \<Rightarrow> string + http_Server \<times> 'a Server" where
  "StartHTTPEndpoint listen self endpoint apis modules cors =
     (let srv = NewServer self in
      case register_apis modules apis (srv_Services srv) of
        Inl err \<Rightarrow> Inl err
      | Inr services \<Rightarrow>
          (case listen endpoint of
             Some err \<Rightarrow> Inl err
           | None \<Rightarrow> Inr (NewHTTPServer cors, srv\<lparr>srv_Services := services\<rparr>)))"

definition StartWSEndpoint ::
  "(string \<Rightarrow> string option) \<Rightarrow> 'a \<Rightarrow> string \<Rightarrow> 'a receiver API list \<Rightarrow> string list \<Rightarrow> string list
   \<Rightarrow> string + http_Server \<times> 'a Server" where
  "StartWSEndpoint listen self endpoint apis modules wsOrigins =
     (let srv = NewServer self in
      case register_apis modules apis (srv_Services srv) of
        Inl err \<Rightarrow> Inl err
      | Inr services \<Rightarrow>
          (case listen endpoint of
             Some err \<Rightarrow> Inl err
           | None \<Rightarrow> Inr (NewWSServer wsOrigins, srv\<lparr>srv_Services := services\<rparr>)))"

section \<open>HTTP requests\<close>

lemma single_codecs:
  "k \<notin> set (srv_Codecs (fst (serveRequest_single unm call k runs srv cn)))
   \<and> srv_Services (fst (serveRequest_single unm call k runs srv cn)) = srv_Services srv"
  by (simp add: serveRequest_single_def remove_codec_def add_codec_def split: prod.splits)

lemma Close_closer [simp]: "jc_closer (Close c)"
  by (simp add: Close_def)

lemma ServeHTTP_body:
  "ServeHTTP mediaType decode unm call k runs werr (r\<lparr>hr_Body := take maxRequestContentLength (hr_Body r)\<rparr>) srv
   = ServeHTTP mediaType decode unm call k runs werr r srv"
  by (simp add: ServeHTTP_def validateRequest_def)

text \<open>C13: An HTTP request is answered on exactly one of three ways. An empty \<open>GET\<close> is a
  health check and gets nothing. A \<open>PUT\<close> or \<open>DELETE\<close>, a declared length above 128 KiB or
  a content type other than JSON (except on \<open>OPTIONS\<close>) is refused with 405, 413 or 415, in
  this order, and does not reach the server. Every other request is served from at most the
  first 128 KiB of its body; the codec is closed afterwards and is no longer registered, and
  the services of the server are as before.\<close>

theorem ServeHTTP_outcomes:
  "case ServeHTTP mediaType decode unm call k runs werr r srv of
     (srv', NoContent) \<Rightarrow>
       srv' = srv \<and> hr_Method r = ''GET'' \<and> hr_ContentLength r = 0 \<and> hr_RawQuery r = ''''
   | (srv', HttpError code msg) \<Rightarrow> srv' = srv \<and>
       (if hr_Method r \<in> {''PUT'', ''DELETE''} then code = 405
        else if hr_ContentLength r > 131072 then code = 413
        else code = 415 \<and> hr_Method r \<noteq> ''OPTIONS'' \<and> mediaType (hr_ContentType r) \<noteq> Some ''application/json'')
   | (srv', Served res) \<Rightarrow>
       hr_Method r \<notin> {''PUT'', ''DELETE''} \<and> hr_ContentLength r \<le> 131072
       \<and> (hr_Method r = ''OPTIONS'' \<or> mediaType (hr_ContentType r) = Some ''application/json'')
       \<and> ServeHTTP mediaType decode unm call k runs werr (r\<lparr>hr_Body := take 131072 (hr_Body r)\<rparr>) srv
           = (srv', Served res)
       \<and> pred_option (\<lambda>cn. jc_closer (cn_codec cn)) res
       \<and> k \<notin> set (srv_Codecs srv') \<and> srv_Services srv' = srv_Services srv"
proof -
  have max: "maxRequestContentLength = 131072" by (simp add: maxRequestContentLength_def)
  note body = ServeHTTP_body[unfolded max, of mediaType decode unm call k runs werr r srv]
  let ?cn = "new_conn (NewCodec (decode (take 131072 (hr_Body r))) werr) False"
  obtain srv1 res1 where s: "serveRequest_single unm call k runs srv ?cn = (srv1, res1)" by fastforce
  have c: "k \<notin> set (srv_Codecs srv1)" "srv_Services srv1 = srv_Services srv"
    using single_codecs[of k unm call runs srv ?cn] s by simp_all
  have served: "pred_option (\<lambda>cn. jc_closer (cn_codec cn))
      (map_option (\<lambda>(cn', _). set_codec (Close (cn_codec cn')) cn') res1)"
    by (cases res1) auto
  have eq: "ServeHTTP mediaType decode unm call k runs werr r srv =
      (if hr_Method r = ''GET'' \<and> hr_ContentLength r = 0 \<and> hr_RawQuery r = '''' then (srv, NoContent)
       else case validateRequest mediaType r of
          (code, Some err) \<Rightarrow> (srv, HttpError code err)
        | (_, None) \<Rightarrow> (srv1, Served (map_option (\<lambda>(cn', _). set_codec (Close (cn_codec cn')) cn') res1)))"
    by (simp add: ServeHTTP_def max s)
  show ?thesis
  proof (cases "hr_Method r = ''GET'' \<and> hr_ContentLength r = 0 \<and> hr_RawQuery r = ''''")
    case True
    then show ?thesis by (simp add: eq)
  next
    case False
    obtain code e where v: "validateRequest mediaType r = (code, e)" by fastforce
    show ?thesis
    proof (cases e)
      case (Some err)
      with False v show ?thesis
        by (auto simp: eq validateRequest_def max contentType_def Let_def split: if_splits)
    next
      case None
      with v have ok: "hr_Method r \<notin> {''PUT'', ''DELETE''} \<and> hr_ContentLength r \<le> 131072
          \<and> (hr_Method r = ''OPTIONS'' \<or> mediaType (hr_ContentType r) = Some ''application/json'')"
        by (auto simp: validateRequest_def max contentType_def Let_def split: if_splits)
      have "ServeHTTP mediaType decode unm call k runs werr r srv =
          (srv1, Served (map_option (\<lambda>(cn', _). set_codec (Close (cn_codec cn')) cn') res1))"
        using False v None by (simp add: eq)
      with ok body c served show ?thesis by simp
    qed
  qed
qed


section \<open>Origins\<close>

lemma collect_origins_eq:
  "collect_origins os (A, b) = (A \<union> ToLower ` (set os - {''''}), b \<or> ''*'' \<in> set os)"
  by (induction os arbitrary: A b) auto

text \<open>C14: The origin check. A websocket connection is refused, with an error that names its
  origin, exactly when its origin is not allowed: the list does not contain \<open>*\<close>, no
  non-empty entry of it equals the origin up to case, and, if the list has no non-empty
  entry, the origin is neither that of localhost nor that of this host. Otherwise it is served with
  subscriptions enabled, from a fresh codec.\<close>

theorem websocket_origin_policy:
  "case WebsocketHandler allowed hostname og inp werr of
     Inl err \<Rightarrow> err = ''origin '' @ ToLower og @ '' not allowed''
       \<and> ''*'' \<notin> set allowed \<and> ToLower og \<notin> ToLower ` (set allowed - {''''})
       \<and> \<not> (set allowed \<subseteq> {''''}
            \<and> (ToLower og = ''http://localhost'' \<or> (\<exists>h. hostname = Some h \<and> ToLower og = ''http://'' @ ToLower h)))
   | Inr s \<Rightarrow> s = start_session (new_conn (NewCodec inp werr) True)
       \<and> (''*'' \<in> set allowed \<or> ToLower og \<in> ToLower ` (set allowed - {''''})
          \<or> set allowed \<subseteq> {''''}
            \<and> (ToLower og = ''http://localhost'' \<or> (\<exists>h. hostname = Some h \<and> ToLower og = ''http://'' @ ToLower h)))"
proof -
  have empty: "ToLower ` (set allowed - {''''}) = {} \<longleftrightarrow> set allowed \<subseteq> {''''}"
    and none: "set allowed \<subseteq> {''''} \<Longrightarrow> set allowed - {''''} = {}" by auto
  show ?thesis
    by (cases hostname)
      (simp_all add: WebsocketHandler_def wsHandshakeValidator_def collect_origins_eq empty none Let_def)
qed

section \<open>Endpoints\<close>

text \<open>What an API contributes to the callbacks under its namespace.\<close>

definition api_offers :: "'a receiver API \<Rightarrow> string \<Rightarrow> string \<Rightarrow> 'a Callback \<Rightarrow> bool" where
  "api_offers api s k cb \<longleftrightarrow> api_Namespace api = s
     \<and> (\<exists>m \<in> set (rc_Methods (api_Service api)). formatName (gm_Name m) = k
         \<and> (is_callback m \<or> is_subscription m) \<and> cb = callback_of (rc_Value (api_Service api)) m)"

definition registry_offers :: "'a ServiceRegistry \<Rightarrow> string \<Rightarrow> string \<Rightarrow> 'a Callback \<Rightarrow> bool" where
  "registry_offers services s k cb \<longleftrightarrow>
     callback_at services s k = Some cb \<or> subscription_at services s k = Some cb"

lemma method_for_Some:
  "method_for P k ms = Some m \<Longrightarrow> m \<in> set ms \<and> P m \<and> formatName (gm_Name m) = k"
  by (auto simp: method_for_def find_Some_iff) (metis nth_mem set_rev length_rev)

lemma method_for_None: "method_for P k ms = None \<longleftrightarrow> (\<forall>m\<in>set ms. \<not> (P m \<and> formatName (gm_Name m) = k))"
  by (auto simp: method_for_def find_None_iff)

lemma RegisterName_offers:
  assumes reg: "RegisterName (api_Namespace api) (api_Service api) services = (services', None)"
    and "registry_offers services' s k cb"
  shows "registry_offers services s k cb \<or> api_offers api s k cb"
  using assms(2) RegisterName_lookup[OF reg, of s k]
  by (auto simp: registry_offers_def api_offers_def split: if_splits option.splits
      dest: method_for_Some)

lemma RegisterName_keeps:
  assumes "RegisterName name rcvr services = (services', None)"
  shows "callback_at services s k \<noteq> None \<Longrightarrow> callback_at services' s k \<noteq> None"
    and "subscription_at services s k \<noteq> None \<Longrightarrow> subscription_at services' s k \<noteq> None"
  using RegisterName_lookup[OF assms, of s k] by (auto split: option.splits)

lemma register_apis_offers:
  assumes "register_apis modules apis services = Inr services'" and "registry_offers services' s k cb"
  shows "registry_offers services s k cb
    \<or> (\<exists>api\<in>set apis. whitelisted modules api \<and> api_offers api s k cb)"
  using assms
proof (induction modules apis services rule: register_apis.induct)
  case (2 modules api apis services)
  show ?case
  proof (cases "whitelisted modules api")
    case True
    with "2.prems"(1) obtain services1 where r: "RegisterName (api_Namespace api) (api_Service api) services = (services1, None)"
      and rest: "register_apis modules apis services1 = Inr services'"
      by (auto split: prod.splits option.splits)
    from "2.IH"(1)[OF True r[symmetric] refl rest "2.prems"(2)] RegisterName_offers[OF r] True
    show ?thesis by auto
  qed (use 2 in auto)
qed simp

lemma register_apis_keeps:
  assumes "register_apis modules apis services = Inr services'"
  shows "callback_at services s k \<noteq> None \<Longrightarrow> callback_at services' s k \<noteq> None"
    and "subscription_at services s k \<noteq> None \<Longrightarrow> subscription_at services' s k \<noteq> None"
  using assms
  by (induction modules apis services rule: register_apis.induct)
    (auto split: if_splits prod.splits option.splits dest: RegisterName_keeps)

lemma RegisterName_registers:
  assumes reg: "RegisterName (api_Namespace api) (api_Service api) services = (services', None)"
    and m: "m \<in> set (rc_Methods (api_Service api))"
  shows "is_callback m \<Longrightarrow> callback_at services' (api_Namespace api) (formatName (gm_Name m)) \<noteq> None"
    and "is_subscription m \<Longrightarrow> subscription_at services' (api_Namespace api) (formatName (gm_Name m)) \<noteq> None"
  using RegisterName_lookup[OF reg, of "api_Namespace api" "formatName (gm_Name m)"] m
  by (auto split: option.splits simp: method_for_None)

lemma register_apis_split:
  assumes "register_apis modules apis services = Inr services'" and "api \<in> set apis" "whitelisted modules api"
  shows "\<exists>s1 s2 rest. RegisterName (api_Namespace api) (api_Service api) s1 = (s2, None)
    \<and> register_apis modules rest s2 = Inr services'"
  using assms
proof (induction modules apis services rule: register_apis.induct)
  case (2 modules a apis services)
  show ?case
  proof (cases "whitelisted modules a")
    case True
    with "2.prems"(1) obtain services1 where r: "RegisterName (api_Namespace a) (api_Service a) services = (services1, None)"
      and rest: "register_apis modules apis services1 = Inr services'"
      by (auto split: prod.splits option.splits)
    show ?thesis
    proof (cases "api = a")
      case True
      with r rest show ?thesis by blast
    next
      case False
      with "2.prems"(2) have "api \<in> set apis" by simp
      from "2.IH"(1)[OF True r[symmetric] refl rest this "2.prems"(3)] show ?thesis .
    qed
  qed (use 2 in auto)
qed simp

lemma register_apis_all:
  assumes reg: "register_apis modules apis services = Inr services'"
    and api: "api \<in> set apis" "whitelisted modules api" and m: "m \<in> set (rc_Methods (api_Service api))"
  shows "is_callback m \<Longrightarrow> callback_at services' (api_Namespace api) (formatName (gm_Name m)) \<noteq> None"
    and "is_subscription m \<Longrightarrow> subscription_at services' (api_Namespace api) (formatName (gm_Name m)) \<noteq> None"
proof -
  from register_apis_split[OF reg api] obtain s1 s2 rest where
    "RegisterName (api_Namespace api) (api_Service api) s1 = (s2, None)" "register_apis modules rest s2 = Inr services'"
    by blast
  with RegisterName_registers[of api s1 s2 m] m
  show "is_callback m \<Longrightarrow> callback_at services' (api_Namespace api) (formatName (gm_Name m)) \<noteq> None"
    and "is_subscription m \<Longrightarrow> subscription_at services' (api_Namespace api) (formatName (gm_Name m)) \<noteq> None"
    by (metis register_apis_keeps)+
qed


lemma register_apis_error:
  "register_apis modules apis services = Inl err \<Longrightarrow>
     \<exists>api\<in>set apis. whitelisted modules api \<and> \<not> registrable (api_Namespace api) (api_Service api)"
proof (induction modules apis services rule: register_apis.induct)
  case (2 modules api apis services)
  obtain s1 e where r: "RegisterName (api_Namespace api) (api_Service api) services = (s1, e)" by fastforce
  note ok = RegisterName_ok_iff[of "api_Namespace api" "api_Service api" services, unfolded r]
  show ?case
  proof (cases "whitelisted modules api \<and> e = None")
    case True
    with "2.prems" "2.IH"(1)[OF _ r[symmetric]] r show ?thesis by auto
  next
    case False
    with "2.prems" "2.IH"(2) r ok show ?thesis by (cases "whitelisted modules api") auto
  qed
qed simp

lemma metadata_offers:
  assumes "registry_offers (NewServer_services self) s k cb"
  shows "s = ''rpc'' \<and> k = ''modules''"
proof -
  let ?api = "\<lparr>api_Namespace = MetadataApi, api_Version = '''', api_Service = RPCService self, api_Public = True\<rparr>"
  obtain s1 e where r: "RegisterName (api_Namespace ?api) (api_Service ?api) [] = (s1, e)" by fastforce
  have offers: "registry_offers s1 s k cb" using assms r by (simp add: NewServer_services_def)
  have nil: "\<not> registry_offers [] s k cb" by (simp add: registry_offers_def callback_at_def subscription_at_def)
  have "e = None" using RegisterName_error[of MetadataApi "RPCService self" "[]" s1] r offers nil by (cases e) auto
  with r RegisterName_offers[of ?api "[]" s1 s k cb] offers nil have "api_offers ?api s k cb" by simp
  moreover have "formatName ''Modules'' = ''modules''" by code_simp
  ultimately show ?thesis by (auto simp: api_offers_def MetadataApi_def RPCService_def Let_def)
qed

text \<open>The policy: a whitelisted namespace or, without a whitelist, a public API.\<close>

definition api_allowed :: "string list \<Rightarrow> 'a receiver API \<Rightarrow> bool" where
  "api_allowed modules api \<longleftrightarrow> api_Namespace api \<in> set modules \<or> modules = [] \<and> api_Public api"

lemma whitelisted_iff: "whitelisted modules api \<longleftrightarrow> api_allowed modules api"
  by (simp add: whitelisted_def api_allowed_def)

text \<open>C12: An endpoint offers what its whitelist allows. A started endpoint offers, besides
  the server's own \<open>rpc_modules\<close>, only methods and subscriptions of APIs whose namespace is
  whitelisted or, without a whitelist, that are public; each comes from a suitable method of such an API's receiver, and
  all suitable methods of the allowed APIs are offered. The HTTP and the websocket
  endpoint offer the same. The start fails exactly when an allowed API cannot be registered or
  listening fails, and never because of an API that is not allowed.\<close>

theorem endpoint_offers_whitelist:
  "case StartHTTPEndpoint listen self endpoint apis modules cors of
     Inl err \<Rightarrow>
       (\<exists>api\<in>set apis. api_allowed modules api \<and> \<not> registrable (api_Namespace api) (api_Service api))
       \<or> listen endpoint = Some err
   | Inr (h, srv) \<Rightarrow>
       listen endpoint = None \<and> h = NewHTTPServer cors
       \<and> StartWSEndpoint listen self endpoint apis modules wsOrigins = Inr (NewWSServer wsOrigins, srv)
       \<and> (\<forall>s k cb. registry_offers (srv_Services srv) s k cb \<longrightarrow>
            s = ''rpc'' \<and> k = ''modules''
            \<or> (\<exists>api\<in>set apis. api_allowed modules api \<and> api_offers api s k cb))
       \<and> (\<forall>api\<in>set apis. \<forall>m\<in>set (rc_Methods (api_Service api)). api_allowed modules api \<longrightarrow>
            (is_callback m \<longrightarrow> callback_at (srv_Services srv) (api_Namespace api) (formatName (gm_Name m)) \<noteq> None)
          \<and> (is_subscription m \<longrightarrow>
               subscription_at (srv_Services srv) (api_Namespace api) (formatName (gm_Name m)) \<noteq> None))"
proof (cases "register_apis modules apis (srv_Services (NewServer self))")
  case (Inl err)
  with register_apis_error[OF Inl] show ?thesis by (simp add: StartHTTPEndpoint_def whitelisted_iff Let_def)
next
  case (Inr services)
  have start: "srv_Services (NewServer self) = NewServer_services self" by (simp add: NewServer_def)
  have offers: "s = ''rpc'' \<and> k = ''modules'' \<or> (\<exists>api\<in>set apis. api_allowed modules api \<and> api_offers api s k cb)"
    if "registry_offers services s k cb" for s k cb
    using register_apis_offers[OF Inr that] metadata_offers[of self s k cb] start by (auto simp: whitelisted_iff)
  show ?thesis
  proof (cases "listen endpoint")
    case None
    with Inr offers register_apis_all[OF Inr, unfolded whitelisted_iff] show ?thesis
      by (auto simp: StartHTTPEndpoint_def StartWSEndpoint_def Let_def)
  next
    case (Some err)
    with Inr show ?thesis by (simp add: StartHTTPEndpoint_def Let_def)
  qed
qed

definition open_api :: "bool \<Rightarrow> nat receiver API" where
  "open_api public =
     \<lparr>api_Namespace = ''net'', api_Version = ''1.0'',
      api_Service = \<lparr>rc_Value = 5, rc_Type = TBase ''Net'' ''p'' False False, rc_String = ''p.Net'',
        rc_Methods = [\<lparr>gm_Name = ''Peers'', gm_PkgPath = '''', gm_In = [TBase ''Net'' ''p'' False False],
                       gm_Out = []\<rparr>]\<rparr>,
      api_Public = public\<rparr>"

lemma endpoint_offers_whitelist_witness:
  "case StartHTTPEndpoint (\<lambda>_. None) (0 :: nat) '':80'' [open_api True, open_api False] [] [] of
     Inl err \<Rightarrow> False
   | Inr (h, srv) \<Rightarrow> callback_at (srv_Services srv) ''net'' ''peers'' \<noteq> None
       \<and> \<not> registry_offers (srv_Services srv) ''admin'' ''peers'' (callback_of 5 event_method)"
proof -
  let ?e = "StartHTTPEndpoint (\<lambda>_. None) (0 :: nat) '':80'' [open_api True, open_api False] [] []"
  have "case ?e of Inl err \<Rightarrow> False | Inr (h, srv) \<Rightarrow> True" by code_simp
  then obtain h srv where e: "?e = Inr (h, srv)" by (auto split: sum.splits)
  let ?m = "\<lparr>gm_Name = ''Peers'', gm_PkgPath = '''', gm_In = [TBase ''Net'' ''p'' False False], gm_Out = []\<rparr>"
  have m: "?m \<in> set (rc_Methods (api_Service (open_api True)))" "api_allowed [] (open_api True)"
    "api_Namespace (open_api p) = ''net''" for p
    by (simp_all add: open_api_def api_allowed_def)
  have "is_callback ?m" "formatName ''Peers'' = ''peers''" by code_simp+
  moreover note endpoint_offers_whitelist[where listen = "\<lambda>_. None" and self = "0 :: nat" and endpoint = "'':80''"
      and apis = "[open_api True, open_api False]" and modules = "[]" and cors = "[]" and wsOrigins = "[]", unfolded e]
  then have offers: "registry_offers (srv_Services srv) s k cb \<Longrightarrow>
        s = ''rpc'' \<or> (\<exists>api\<in>{open_api True, open_api False}. api_offers api s k cb)"
    and all: "\<forall>m\<in>set (rc_Methods (api_Service (open_api True))).
        is_callback m \<longrightarrow> callback_at (srv_Services srv) ''net'' (formatName (gm_Name m)) \<noteq> None" for s k cb
    using m(2,3) by auto
  have "\<not> registry_offers (srv_Services srv) ''admin'' ''peers'' (callback_of 5 event_method)"
    using offers[of "''admin''"] m(3) by (auto simp: api_offers_def)
  ultimately show ?thesis using all m(1) by (auto simp: e)
qed

end
