(* ===== verification/Rpc_Call.thy ===== *)
theory Rpc_Call
  imports Rpc_Endpoint
begin

text \<open>
  A call from end to end, through every layer of the server: HTTP, the codec, the registry, the
  arguments, the method of the service and the response. The method is a function of its
  arguments: it returns \<open>result args\<close> and does not use the connection.
\<close>

section \<open>The answer to a call\<close>

text \<open>The arguments that a method gets: parameters are not looked at when it takes none.\<close>

definition call_args :: "(gtype \<Rightarrow> json \<Rightarrow> string + 'a gval) \<Rightarrow> gmethod \<Rightarrow> json \<Rightarrow> rpc_error + 'a gval list" where
  "call_args unm m params =
     (if arg_types m = [] then Inr [] else parsePositionalArguments unm (Some params) (arg_types m))"

text \<open>The response to the values that a method returns: its error, if it returns one that is not
  nil, or its first value.\<close>

definition reply_message :: "RawMessage \<Rightarrow> gmethod \<Rightarrow> 'a gval list \<Rightarrow> 'a gval message" where
  "reply_message i m vs =
     (if vs = [] then CreateResponse (Some i) None
      else
       (case List.find isErrorType (gm_Out m) of
          None \<Rightarrow> CreateResponse (Some i) (Some (hd vs))
        | Some _ \<Rightarrow>
            (case last vs of
               VError e \<Rightarrow> CreateErrorResponse (Some i) (CallbackError e)
             | _ \<Rightarrow> CreateResponse (Some i) (Some (hd vs)))))"

text \<open>What is passed to the method: the receiver, the context if it takes one, the arguments.\<close>

definition call_values :: "'a \<Rightarrow> gmethod \<Rightarrow> 'a gval list \<Rightarrow> 'a gval list" where
  "call_values rv m args =
     [VRcvr rv] @ (if length (gm_In m) \<ge> 2 \<and> gm_In m ! 1 = contextType then [VCtx] else []) @ args"

section \<open>Layer by layer\<close>

lemma call_args_length: "call_args unm m params = Inr args \<Longrightarrow> length args = length (arg_types m)"
  by (auto simp: call_args_def parsePositionalArguments_Inr split: if_splits dest: arg_cong[of _ _ length])

lemma call_values_length:
  assumes "plain_method m" and "length args = length (arg_types m)"
  shows "length (call_values rv m args) = length (gm_In m)"
  using assms by (cases "gm_In m") (auto simp: call_values_def arg_types_def plain_method_def)

text \<open>The error result of a callback is its last one.\<close>

lemma error_last:
  assumes "is_callback m"
  shows "cb_ErrPos (callback_of rv m) =
    (if List.find isErrorType (gm_Out m) = None then - 1 else int (length (gm_Out m)) - 1)"
proof -
  have "good_results (gm_Out m)" "\<not> isPubSub m" using assms by (auto simp: is_callback_def)
  then show ?thesis
    by (auto simp: callback_of_def good_results_def split: list.splits)
qed

lemma handle_call:
  assumes m: "plain_method m" "is_callback m" and cb: "sv_Callb req = Some (callback_of rv m)"
    and req: "sv_Err req = None" "\<not> sv_IsUnsubscribe req" "length (sv_Args req) = length (arg_types m)"
    and call: "call (callback_of rv m) (call_values rv m (sv_Args req)) cn = Some (cn, vs)" "typed_reply m vs"
  shows "handle call req cn = Some (cn, reply_message (sv_Id req) m vs, None)"
proof -
  let ?cb = "callback_of rv m"
  have len: "length vs = length (gm_Out m)" using call(2) by (simp add: typed_reply_def)
  have refl: "reflect_Call call ?cb ([VRcvr (cb_Rcvr ?cb)] @ (if cb_HasCtx ?cb then [VCtx] else []) @ sv_Args req) cn = Some (cn, vs)"
    using call(1) call_values_length[OF m(1) req(3), of rv]
    by (simp add: reflect_Call_def call_values_def callback_of_def)
  have nosub: "\<not> cb_IsSubscribe ?cb" using m(2) by (simp add: callback_of_def is_callback_def)
  show ?thesis
  proof (cases "vs = [] \<or> List.find isErrorType (gm_Out m) = None")
    case True
    then show ?thesis
      using assms nosub refl error_last[OF m(2), of rv] by (auto simp: handle_def reply_message_def hd_conv_nth)
  next
    case False
    let ?k = "length vs - 1"
    have "0 < length vs" using False by simp
    then have k: "cb_ErrPos ?cb = int ?k" "?k < length vs"
      using False error_last[OF m(2), of rv] unfolding len[symmetric] by (simp_all add: of_nat_diff Suc_le_eq)
    have "cb_ErrPos ?cb = first_error (gm_Out m) 0" using m(2) by (simp add: callback_of_def is_callback_def)
    then have "isErrorType (gm_Out m ! ?k)" using first_error_range[of "gm_Out m" 0] k(1) by force
    note nil = reply_IsNil_plain[OF m(1) call(2) k(2) this]
    have last: "last vs = vs ! ?k" using False by (simp add: last_conv_nth)
    have "last vs = VNil \<or> (\<exists>e. last vs = VError e)"
      using call(2) k(2) \<open>isErrorType (gm_Out m ! ?k)\<close> by (auto simp: typed_reply_def last)
    then show ?thesis
      using False assms nosub refl k(1) nil(1) by (auto simp: handle_def reply_message_def last hd_conv_nth)
  qed
qed


lemma verify_call:
  assumes "callback_at services s k = Some (callback_of rv m)"
    and r: "r = (zero_rpc i)\<lparr>rq_Service := s, rq_Method := k, rq_Params := Some (Some params)\<rparr>"
  shows "case call_args unm m params of
      Inr args \<Rightarrow> (let q = verify_request (ParseRequestArguments unm) services r in
        sv_Id q = i \<and> sv_Callb q = Some (callback_of rv m) \<and> sv_Err q = None \<and> \<not> sv_IsUnsubscribe q \<and> sv_Args q = args)
    | Inl err \<Rightarrow> (let q = verify_request (ParseRequestArguments unm) services r in
        sv_Id q = i \<and> sv_Err q = Some (InvalidParamsError (rpc_error_msg err)))"
proof -
  obtain svc where svc: "map_of services s = Some svc" "map_of (svc_Callbacks svc) k = Some (callback_of rv m)"
    using assms(1) by (auto simp: callback_at_def bind_eq_Some_conv)
  then show ?thesis
    by (auto simp: r zero_rpc_def verify_request_def zero_sreq_def call_args_def ParseRequestArguments_def Let_def
        split: sum.splits)
qed

text \<open>The response that a call gets.\<close>

definition call_answer ::
  "(gtype \<Rightarrow> json \<Rightarrow> string + 'a gval) \<Rightarrow> ('a gval list \<Rightarrow> 'a gval list) \<Rightarrow> 'a \<Rightarrow> gmethod \<Rightarrow> json \<Rightarrow> json \<Rightarrow> 'a gval message" where
  "call_answer unm result rv m i params =
     (case call_args unm m params of
        Inl err \<Rightarrow> CreateErrorResponse (Some (Some i)) (InvalidParamsError (rpc_error_msg err))
      | Inr args \<Rightarrow> reply_message (Some i) m (result (call_values rv m args)))"

lemma exec_call:
  assumes m: "plain_method m" "is_callback m" and reg: "callback_at services s k = Some (callback_of rv m)"
    and pure: "\<And>args cn. call (callback_of rv m) args cn = Some (cn, result args)" "\<And>args. typed_reply m (result args)"
    and r: "r = (zero_rpc (Some i))\<lparr>rq_Service := s, rq_Method := k, rq_Params := Some (Some params)\<rparr>"
  shows "exec call (verify_request (ParseRequestArguments unm) services r) cn
    = Some (write_response (call_answer unm result rv m i params) cn)"
proof (cases "call_args unm m params")
  case (Inl err)
  then show ?thesis
    using verify_call[OF reg r, of unm] by (simp add: exec_def respond_def call_answer_def Let_def)
next
  case (Inr args)
  let ?q = "verify_request (ParseRequestArguments unm) services r"
  have q: "sv_Id ?q = Some i" "sv_Callb ?q = Some (callback_of rv m)" "sv_Err ?q = None" "\<not> sv_IsUnsubscribe ?q" "sv_Args ?q = args"
    using verify_call[OF reg r, of unm] Inr by (simp_all add: Let_def)
  have "handle call ?q cn = Some (cn, reply_message (sv_Id ?q) m (result (call_values rv m args)), None)"
    by (rule handle_call[OF m q(2-4)]) (use q(5) call_args_length[OF Inr] pure in simp_all)
  then show ?thesis using q(1,3) Inr by (simp add: exec_def respond_def call_answer_def)
qed

section \<open>A call over HTTP\<close>

text \<open>C6: A call from end to end. A receiver was registered under a name; a client posts a call of one
  of its methods, with whatever parameters, and the body is one JSON message that is not too long. Then
  exactly one message is written: when the parameters do not fit the types of the method, the error that
  says so; otherwise what the method returns for the decoded arguments, its error or its value; always
  with the id of the call. Nothing panics, and the codec is closed.\<close>

theorem http_call_answered:
  assumes reg: "RegisterName s rcvr services0 = (srv_Services srv, None)"
      "method_for is_callback k (rc_Methods rcvr) = Some m" "plain_method m"
    and names: "CHR ''_'' \<notin> set s" "CHR ''_'' \<notin> set k" "k \<notin> {''subscribe'', ''unsubscribe''}"
    and reqid: "checkReqId (Some i) = None"
    and pure: "\<forall>args cn. call (callback_of (rc_Value rcvr) m) args cn = Some (cn, result args)"
      "\<forall>args. typed_reply m (result args)"
    and http: "hr_Method r = ''POST''" "hr_ContentLength r \<le> 131072"
      "mediaType (hr_ContentType r) = Some ''application/json''"
      "decode (take 131072 (hr_Body r)) = [Inr (call_object i (s @ ''_'' @ k) params)]"
  shows "\<exists>srv' cn. ServeHTTP mediaType decode unm call n (True, True, True) [] r srv = (srv', Served (Some cn))
    \<and> jc_out (cn_codec cn) = [call_answer unm result (rc_Value rcvr) m i params] \<and> jc_closer (cn_codec cn)"
proof -
  let ?msg = "call_object i (s @ ''_'' @ k) params" and ?rv = "rc_Value rcvr"
  let ?r = "(zero_rpc (Some i))\<lparr>rq_Service := s, rq_Method := k, rq_Params := Some (Some params)\<rparr>"
  let ?q = "verify_request (ParseRequestArguments unm) (srv_Services srv) ?r"
  let ?cn = "new_conn (NewCodec [Inr ?msg] []) False" and ?ans = "call_answer unm result ?rv m i params"
  have cb: "callback_at (srv_Services srv) s k = Some (callback_of ?rv m)" "is_callback m"
    using RegisterName_lookup(1)[OF reg(1), of s k] reg(2) method_for_SomeD[OF reg(2)] by simp_all
  have "\<not> isBatch (json_text ?msg)" by (simp add: call_object_def)
  moreover have "parseRequest ?msg = ([?r], False, None)"
    using names reqid by (intro parse_call_object) auto
  ultimately have read: "serve_read unm (srv_Services srv) ?cn = (set_codec (NewCodec [] []) ?cn, [?q], False, None)"
    by (simp add: serve_read_def readRequest_def ReadRequestHeaders_def cn_codec_def new_conn_def newNotifier_def NewCodec_def)
  have "exec call ?q cn = Some (write_response ?ans cn)" for cn
    using pure by (intro exec_call[OF reg(3) cb(2,1)]) auto
  then have "serveRequest_single unm call n (True, True, True) srv ?cn
      = (remove_codec n (add_codec n srv), Some (write_response ?ans (set_codec (NewCodec [] []) ?cn), None))"
    unfolding serveRequest_single_def Let_def prod.case read by (simp add: run_task_def)
  then have "ServeHTTP mediaType decode unm call n (True, True, True) [] r srv
      = (remove_codec n (add_codec n srv),
         Served (Some (set_codec (Close (cn_codec (write_response ?ans (set_codec (NewCodec [] []) ?cn))))
           (write_response ?ans (set_codec (NewCodec [] []) ?cn)))))"
    using http by (simp add: ServeHTTP_def validateRequest_def maxRequestContentLength_def contentType_def Let_def)
  then show ?thesis by (simp add: write_response_out Write_def NewCodec_def)
qed


definition modules_method :: gmethod where
  "modules_method = hd (rc_Methods (RPCService (0 :: nat)))"

definition modules_post :: http_Request where
  "modules_post = \<lparr>hr_Method = ''POST'', hr_ContentLength = 60, hr_RawQuery = '''', hr_ContentType = ''application/json'',
     hr_Body = ''the message''\<rparr>"

theorem http_call_answered_witness:
  "\<exists>srv' cn. ServeHTTP Some (\<lambda>_. [Inr (call_object JNull ''rpc_modules'' (JArr []))]) (\<lambda>t j. Inl ''no values'')
      (\<lambda>cb args cn. Some (cn, [VOther 5])) 1 (True, True, True) [] modules_post (NewServer (0 :: nat)) = (srv', Served (Some cn))
    \<and> jc_out (cn_codec cn) = [CreateResponse (Some (Some JNull)) (Some (VOther 5))]"
proof -
  let ?rc = "RPCService (0 :: nat)" and ?i = "JNull" and ?res = "\<lambda>args. [VOther 5] :: nat gval list"
  have "snd (RegisterName ''rpc'' ?rc []) = None" by code_simp
  then have reg: "RegisterName ''rpc'' ?rc [] = (srv_Services (NewServer (0 :: nat)), None)"
    by (simp add: NewServer_def NewServer_services_def MetadataApi_def prod_eq_iff)
  have meth: "method_for is_callback ''modules'' (rc_Methods ?rc) = Some modules_method" by code_simp
  have plain: "plain_method modules_method"
    by (simp add: modules_method_def RPCService_def plain_method_def isPubSub_def isErrorType_def Let_def)
  have typed: "typed_reply modules_method (?res args)" for args
    by (simp add: modules_method_def RPCService_def typed_reply_def isPubSub_def isErrorType_def Let_def)
  have i: "checkReqId (Some ?i) = None" by code_simp
  have ans: "call_answer (\<lambda>t j. Inl ''no values'') ?res (rc_Value ?rc) modules_method ?i (JArr [])
      = CreateResponse (Some (Some ?i)) (Some (VOther 5))"
    by (simp add: call_answer_def call_args_def reply_message_def modules_method_def RPCService_def arg_types_def isErrorType_def Let_def)
  show ?thesis
    using http_call_answered[OF reg meth plain _ _ _ i, of "\<lambda>cb args cn. Some (cn, [VOther 5])" ?res modules_post Some
        "\<lambda>_. [Inr (call_object JNull ''rpc_modules'' (JArr []))]" "JArr []" "\<lambda>t j. Inl ''no values''" 1] typed
    unfolding ans by (simp add: modules_post_def) blast
qed

end
