(* ===== verification/Rpc_Events.thy ===== *)
theory Rpc_Events
  imports Rpc_Call
begin

text \<open>
  What a client with subscriptions sees on its connection. First the order of the messages while a
  connection is served: however the goroutines interleave, a notification comes after the
  response that announced its subscription. Then the life of one subscription, from the request that
  makes it to the one that ends it, through codec, registry, notifier and service.
\<close>

section \<open>Announced before notified\<close>

text \<open>The subscriptions that a list of messages announces, and the one that a message notifies.\<close>

definition announced :: "'a gval message list \<Rightarrow> string set" where
  "announced out = (\<Union>m \<in> set out. set (announced_ids m))"

fun notified :: "'v message \<Rightarrow> string option" where
  "notified (MNotification n) = Some (js_Subscription (jn_Params n))"
| "notified _ = None"

text \<open>Every notification is about a subscription that an earlier message announced.\<close>

fun told_first :: "string set \<Rightarrow> 'a gval message list \<Rightarrow> bool" where
  "told_first known [] = True"
| "told_first known (m # ms) =
     (set_option (notified m) \<subseteq> known \<and> told_first (known \<union> set (announced_ids m)) ms)"

lemma announced_simps [simp]:
  "announced [] = {}" "announced (xs @ ys) = announced xs \<union> announced ys"
  "announced (m # ms) = set (announced_ids m) \<union> announced ms"
  by (auto simp: announced_def)

lemma told_first_append:
  "told_first known (xs @ ys) \<longleftrightarrow> told_first known xs \<and> told_first (known \<union> announced xs) ys"
  by (induction xs arbitrary: known) (auto simp: Un_assoc)

lemma notified_response [simp]:
  "notified (CreateResponse i v) = None" "notified (CreateErrorResponse i e) = None" "notified (MBatch ms) = None"
  "notified (CreateNotification subid ns d) = Some subid"
  by (simp_all add: CreateResponse_def CreateErrorResponse_def CreateNotification_def)

text \<open>No write fails from here on.\<close>

definition writable :: "'v JsonCodec \<Rightarrow> bool" where
  "writable c \<longleftrightarrow> list_all (\<lambda>e. e = None) (jc_werr c)"

lemma writable_Write: "writable c \<Longrightarrow> snd (Write m c) = None \<and> writable (fst (Write m c))"
  by (auto simp: writable_def Write_def split: list.splits option.splits)

lemma writable_Close [simp]: "writable (Close c) = writable c"
  by (simp add: writable_def)

text \<open>The state of the conversation on a connection.\<close>

definition talk_ok :: "'a gval Notifier \<Rightarrow> bool" where
  "talk_ok n \<longleftrightarrow> writable (nt_codec n) \<and> told_first {} (jc_out (nt_codec n))
     \<and> dom (nt_active n) \<subseteq> announced (jc_out (nt_codec n))"

lemma talk_ok_codec:
  assumes "talk_ok n" and "writable c" and "jc_out c = jc_out (nt_codec n) @ ms"
    and "list_all (\<lambda>m. set_option (notified m) \<subseteq> dom (nt_active n)) ms"
  shows "talk_ok (n\<lparr>nt_codec := c\<rparr>)"
proof -
  have "told_first known ms" if "dom (nt_active n) \<subseteq> known" for known
    using assms(4) that
  proof (induction ms arbitrary: known)
    case (Cons m ms)
    then have "dom (nt_active n) \<subseteq> known \<union> set (announced_ids m)" by blast
    moreover have "set_option (notified m) \<subseteq> known" using Cons.prems unfolding list.pred_inject by blast
    ultimately show ?case using Cons by simp
  qed simp
  with assms(1-3) show ?thesis by (auto simp: talk_ok_def told_first_append)
qed

lemma talk_ok_user: "user_step n n' \<Longrightarrow> talk_ok n \<Longrightarrow> talk_ok n'"
proof (induction rule: user_step.induct)
  case (user_create n vals)
  then show ?case by (simp add: talk_ok_def)
next
  case (user_notify n i d)
  show ?case
  proof (cases "nt_active n i")
    case None
    with user_notify show ?thesis by (simp add: Notify_def)
  next
    case (Some a)
    let ?m = "CreateNotification i (sb_namespace (nt_heap n ! a)) d"
    let ?c = "fst (Write ?m (nt_codec n))"
    have w: "snd (Write ?m (nt_codec n)) = None" "writable ?c"
      using writable_Write user_notify by (auto simp: talk_ok_def)
    then have "fst (Notify i d n) = n\<lparr>nt_codec := ?c\<rparr>"
      using Some by (cases "Write ?m (nt_codec n)") (simp add: Notify_def)
    moreover have "talk_ok (n\<lparr>nt_codec := ?c\<rparr>)"
      using w Some by (intro talk_ok_codec[OF user_notify, where ms = "[?m]"]) (auto simp: Write_out)
    ultimately show ?thesis by simp
  qed
qed

lemma talk_ok_users: "user_step\<^sup>*\<^sup>* n n' \<Longrightarrow> talk_ok n \<Longrightarrow> talk_ok n'"
  by (induction rule: rtranclp_induct) (auto intro: talk_ok_user)

lemma talk_ok_unsubscribe: "unsubscribe i n = Some (n', r) \<Longrightarrow> talk_ok n \<Longrightarrow> talk_ok n'"
  by (auto simp: unsubscribe_def talk_ok_def domI split: option.splits if_splits dest: subsetD[OF _ domI])

lemma respond_talk:
  assumes call: "uses_notifier call" and r: "respond call req cn = Some (cn', msg, act)"
    and ok: "talk_ok (cn_notifier cn)"
  shows "talk_ok (cn_notifier cn') \<and> notified msg = None"
proof -
  have refl: "talk_ok (cn_notifier cn1)" if "reflect_Call call cb args cn = Some (cn1, vs)" for cb args cn1 vs
  proof -
    have "user_step\<^sup>*\<^sup>* (cn_notifier cn) (cn_notifier cn1)"
      using call that unfolding uses_notifier_def reflect_Call_def by (simp split: if_splits) blast
    from talk_ok_users[OF this ok] show ?thesis .
  qed
  show ?thesis
  proof (cases "sv_Err req")
    case (Some e)
    with r ok show ?thesis by (auto simp: respond_def)
  next
    case None
    with r have h: "handle call req cn = Some (cn', msg, act)" by (simp add: respond_def)
    show ?thesis
    proof (cases "sv_IsUnsubscribe req")
      case True
      with h None ok show ?thesis
        by (auto simp: handle_def dest: talk_ok_unsubscribe
            split: list.splits gval.splits if_splits option.splits Option.bind_splits)
    next
      case False
      with h None ok show ?thesis
        by (auto simp: handle_def createSubscription_def dest: refl
            split: if_splits Option.bind_splits sum.splits option.splits)
    qed
  qed
qed

lemma respond_all_talk:
  "uses_notifier call \<Longrightarrow> respond_all call reqs cn = Some (cn', msgs, acts) \<Longrightarrow> talk_ok (cn_notifier cn)
   \<Longrightarrow> talk_ok (cn_notifier cn')"
proof (induction reqs arbitrary: cn cn' msgs acts)
  case (Cons req reqs)
  then obtain cn1 m act ms as where "respond call req cn = Some (cn1, m, act)"
    and "respond_all call reqs cn1 = Some (cn', ms, as)"
    by (auto split: Option.bind_splits)
  with Cons.IH Cons.prems(1,3) respond_talk show ?case by blast
qed simp

lemma handle_task_talk:
  assumes "uses_notifier call" and "handle_task call reqs b cn = Some (cn', msg, acts)" and "talk_ok (cn_notifier cn)"
  shows "talk_ok (cn_notifier cn')" and "notified msg = None"
  using assms respond_talk[OF assms(1) _ assms(3)]
  by (auto simp: handle_task_def dest: respond_all_talk split: if_splits list.splits Option.bind_splits)


section \<open>Sessions\<close>

fun task_told :: "'a gval message list \<Rightarrow> 'a task \<Rightarrow> bool" where
  "task_told out (Todo reqs b) = True"
| "task_told out (Ready msg acts) = (fst ` set acts \<subseteq> set (announced_ids msg) \<and> notified msg = None)"
| "task_told out (Wrote acts) = (fst ` set acts \<subseteq> announced out)"

definition talk_inv :: "'a session \<Rightarrow> bool" where
  "talk_inv s \<longleftrightarrow> talk_ok (cn_notifier (ss_conn s))
     \<and> list_all (task_told (jc_out (cn_codec (ss_conn s)))) (ss_tasks s)"

lemma task_told_mono: "announced out \<subseteq> announced out' \<Longrightarrow> task_told out t \<Longrightarrow> task_told out' t"
  by (cases t) auto

lemma tasks_told_mono:
  "announced out \<subseteq> announced out' \<Longrightarrow> list_all (task_told out) ts \<Longrightarrow> list_all (task_told out') ts"
  by (auto simp: list_all_iff intro: task_told_mono)

text \<open>A step that changes the connection, but no task.\<close>

lemma talk_inv_conn:
  assumes "talk_inv s" and "talk_ok (cn_notifier cn)"
    and "announced (jc_out (cn_codec (ss_conn s))) \<subseteq> announced (jc_out (cn_codec cn))"
  shows "talk_ok (cn_notifier cn) \<and> list_all (task_told (jc_out (cn_codec cn))) (ss_tasks s)"
  using assms tasks_told_mono by (auto simp: talk_inv_def)

lemma talk_ok_set_codec:
  assumes "talk_ok (cn_notifier cn)" and "writable c" and "jc_out c = jc_out (cn_codec cn) @ ms"
    and "list_all (\<lambda>m. notified m = None) ms"
  shows "talk_ok (cn_notifier (set_codec c cn))"
  using talk_ok_codec[OF assms(1,2), of ms] assms(3,4) by (auto simp: set_codec_def cn_codec_def list_all_iff)

lemma talk_ok_write:
  assumes "talk_ok (cn_notifier cn)" and "notified m = None"
  shows "talk_ok (cn_notifier (write_only m cn))" and "jc_out (cn_codec (write_only m cn)) = jc_out (cn_codec cn) @ [m]"
    and "write_response m cn = write_only m cn"
proof -
  have w: "snd (Write m (cn_codec cn)) = None" "writable (fst (Write m (cn_codec cn)))"
    using writable_Write assms(1) by (auto simp: talk_ok_def cn_codec_def)
  show "talk_ok (cn_notifier (write_only m cn))"
    unfolding write_only_def using w assms(2)
    by (intro talk_ok_set_codec[OF assms(1), where ms = "[m]"]) (simp_all add: Write_out)
  show "jc_out (cn_codec (write_only m cn)) = jc_out (cn_codec cn) @ [m]"
    using w by (simp add: write_only_def Write_out)
  show "write_response m cn = write_only m cn"
    using w by (simp add: write_response_def write_only_def Let_def case_prod_beta)
qed

lemma talk_ok_read:
  assumes "serve_read unm services cn = (cn', reqs, b, e)" and "talk_ok (cn_notifier cn)"
  shows "talk_ok (cn_notifier cn')" and "jc_out (cn_codec cn') = jc_out (cn_codec cn)"
proof -
  have cn': "cn' = set_codec (fst (ReadRequestHeaders (cn_codec cn))) cn"
    using assms(1) by (auto simp: serve_read_def readRequest_def Let_def split: prod.splits option.splits)
  have f: "jc_out (fst (ReadRequestHeaders c)) = jc_out c" "jc_werr (fst (ReadRequestHeaders c)) = jc_werr c"
    for c :: "'a gval JsonCodec"
    by (simp_all add: ReadRequestHeaders_def split: list.split sum.split)
  then show "jc_out (cn_codec cn') = jc_out (cn_codec cn)" by (simp add: cn')
  show "talk_ok (cn_notifier cn')" unfolding cn'
    using assms(2) f by (intro talk_ok_set_codec[OF assms(2), where ms = "[]"]) (auto simp: writable_def talk_ok_def cn_codec_def)
qed

lemma talk_ok_Close: "talk_ok (cn_notifier cn) \<Longrightarrow> talk_ok (cn_notifier (set_codec (Close (cn_codec cn)) cn))"
  by (rule talk_ok_set_codec[where ms = "[]"]) (auto simp: talk_ok_def cn_codec_def)

lemma shutdown_notified [simp]: "notified (shutdown_message reqs b) = None"
  by (simp add: shutdown_message_def)

lemma talk_ok_callbacks:
  assumes "run_callbacks acts cn = Some cn'" and "talk_ok (cn_notifier cn)"
    and "fst ` set acts \<subseteq> announced (jc_out (cn_codec cn))"
  shows "talk_ok (cn_notifier cn')"
proof -
  have "dom (nt_active (cn_notifier cn')) \<subseteq> announced (jc_out (cn_codec cn))"
    using run_callbacks_frame[OF assms(1)] assms(2,3) unfolding talk_ok_def cn_codec_def by blast
  with run_callbacks_frame[OF assms(1)] assms(2) show ?thesis by (simp add: talk_ok_def cn_codec_def)
qed

lemma talk_inv_step:
  assumes call: "uses_notifier call" and step: "serve_step unm call services s s'" and inv: "talk_inv s"
    and sess: "session_inv P s"
  shows "talk_inv s'"
  using step
proof cases
  case (sv_error cn reqs b e)
  note r = talk_ok_read[OF sv_error(3)]
  have "talk_ok (cn_notifier cn)" "jc_out (cn_codec cn) = jc_out (cn_codec (ss_conn s))"
    using r inv by (simp_all add: talk_inv_def)
  then have "talk_ok (cn_notifier (read_error_reply e cn))"
    "announced (jc_out (cn_codec (ss_conn s))) \<subseteq> announced (jc_out (cn_codec (read_error_reply e cn)))"
    using talk_ok_write[of cn "CreateErrorResponse None e"] by (auto simp: read_error_reply_def)
  from talk_inv_conn[OF inv this] show ?thesis by (simp add: sv_error(1) talk_inv_def)
next
  case (sv_shutdown cn reqs b)
  note r = talk_ok_read[OF sv_shutdown(3)]
  have "talk_ok (cn_notifier (write_only (shutdown_message reqs b) cn))"
    "announced (jc_out (cn_codec (ss_conn s))) \<subseteq> announced (jc_out (cn_codec (write_only (shutdown_message reqs b) cn)))"
    using talk_ok_write[of cn "shutdown_message reqs b"] r inv by (auto simp: talk_inv_def)
  from talk_inv_conn[OF inv this] show ?thesis by (simp add: sv_shutdown(1) talk_inv_def)
next
  case (sv_spawn cn reqs b)
  from talk_ok_read[OF sv_spawn(3)] inv show ?thesis by (simp add: sv_spawn(1) talk_inv_def)
next
  case (sv_handle ts reqs b us cn msg acts)
  have ok: "talk_ok (cn_notifier (ss_conn s))" using inv by (simp add: talk_inv_def)
  have "b \<or> length reqs = 1" using sess by (simp add: session_inv_def sv_handle(2))
  note h = handle_task_facts[OF call sv_handle(3) this] and t = handle_task_talk[OF call sv_handle(3) ok]
  have "announced (jc_out (cn_codec (ss_conn s))) \<subseteq> announced (jc_out (cn_codec cn))"
    using h(1) by (auto simp: conn_ext_def)
  from talk_inv_conn[OF inv t(1) this] h(3) t(2) show ?thesis
    by (auto simp: sv_handle(1,2) talk_inv_def list_all_iff)
next
  case (sv_write ts msg acts us)
  have ok: "talk_ok (cn_notifier (ss_conn s))" "notified msg = None" "fst ` set acts \<subseteq> set (announced_ids msg)"
    using inv by (auto simp: talk_inv_def sv_write(2))
  note w = talk_ok_write[OF ok(1,2)]
  have "announced (jc_out (cn_codec (ss_conn s))) \<subseteq> announced (jc_out (cn_codec (write_only msg (ss_conn s))))"
    by (auto simp: w(2))
  from talk_inv_conn[OF inv w(1) this] ok(3) w(2,3) show ?thesis
    by (auto simp: sv_write(1,2) talk_inv_def)
next
  case (sv_activate ts acts us cn)
  have "talk_ok (cn_notifier cn)"
    using inv by (intro talk_ok_callbacks[OF sv_activate(3)]) (auto simp: talk_inv_def sv_activate(2))
  moreover have "cn_codec cn = cn_codec (ss_conn s)" using run_callbacks_frame[OF sv_activate(3)] by simp
  ultimately show ?thesis using inv by (simp add: sv_activate(1,2) talk_inv_def)
next
  case (sv_user n)
  let ?cn = "(ss_conn s)\<lparr>cn_notifier := n\<rparr>"
  have "talk_ok (cn_notifier ?cn)" using inv talk_ok_user[OF sv_user(2)] by (simp add: talk_inv_def)
  moreover have "announced (jc_out (cn_codec (ss_conn s))) \<subseteq> announced (jc_out (cn_codec ?cn))"
    using user_step_frame(2)[OF sv_user(2)] by (auto simp: cn_codec_def)
  ultimately show ?thesis using talk_inv_conn[OF inv, of ?cn] by (simp add: sv_user(1) talk_inv_def)
next
  case sv_stop
  with inv talk_ok_Close[of "ss_conn s"] show ?thesis by (simp add: talk_inv_def)
next
  case sv_close
  with inv talk_ok_Close[of "ss_conn s"] show ?thesis by (simp add: talk_inv_def)
qed (use inv in \<open>simp_all add: talk_inv_def\<close>)

context serving
begin

lemma reachable_talk:
  assumes "(serve_step unm call services)\<^sup>*\<^sup>* (start_session (new_conn (NewCodec inp werr) subs)) s"
    and "list_all (\<lambda>e. e = None) werr"
  shows "talk_inv s"
  using assms(1)
proof (induction rule: rtranclp_induct)
  case base
  show ?case using assms(2)
    by (simp add: talk_inv_def talk_ok_def start_session_def new_conn_def newNotifier_def NewCodec_def writable_def)
next
  case (step t u)
  from talk_inv_step[OF uses_call step(2,3) reachable_session[OF step(1)]] show ?case .
qed

end

lemma announced_iff: "i \<in> announced out \<longleftrightarrow> list_ex (\<lambda>m. i \<in> set (announced_ids m)) out"
  by (auto simp: announced_def list_ex_iff)


fun then_notified :: "'v message list \<Rightarrow> bool" where
  "then_notified [x, MNotification n] = True"
| "then_notified _ = False"

lemma then_notified_shape: "then_notified out \<longleftrightarrow> (\<exists>x n. out = [x, MNotification n])"
  by (cases out rule: then_notified.cases) auto



section \<open>The life of a subscription\<close>

text \<open>One turn of the loop for a message that can be read: it is read and its request executed.\<close>

definition serve_next ::
  "(gtype \<Rightarrow> json \<Rightarrow> string + 'a gval) \<Rightarrow> 'a call \<Rightarrow> 'a ServiceRegistry \<Rightarrow> 'a conn \<Rightarrow> 'a conn option" where
  "serve_next unm call services cn =
     (case serve_read unm services cn of
        (cn', reqs, batch, None) \<Rightarrow> run_task call reqs batch cn'
      | (cn', reqs, batch, Some err) \<Rightarrow> None)"

text \<open>The service notifies its client of several values.\<close>

definition notify_all :: "string \<Rightarrow> 'v option list \<Rightarrow> 'v Notifier \<Rightarrow> 'v Notifier" where
  "notify_all subid ds n = fold (\<lambda>d n. fst (Notify subid d n)) ds n"

text \<open>A subscription of a service that is in use.\<close>

definition live :: "string \<Rightarrow> string \<Rightarrow> 'v Notifier \<Rightarrow> bool" where
  "live i s n \<longleftrightarrow> (\<exists>a. nt_active n i = Some a \<and> sb_namespace (nt_heap n ! a) = s \<and> \<not> sb_err_closed (nt_heap n ! a))"

lemma serve_next_message:
  assumes "jc_in (cn_codec cn) = Inr msg # rest" and "\<not> isBatch (json_text msg)"
    and "parseRequest msg = ([r], False, None)"
  shows "serve_next unm call services cn = exec call (verify_request (ParseRequestArguments unm) services r)
    (set_codec ((cn_codec cn)\<lparr>jc_in := rest\<rparr>) cn)"
  using assms by (simp add: serve_next_def serve_read_def readRequest_def ReadRequestHeaders_def run_task_def)

lemma Write_succeeds:
  assumes "writable c"
  shows "jc_out (fst (Write m c)) = jc_out c @ [m]" and "jc_in (fst (Write m c)) = jc_in c"
    and "writable (fst (Write m c))" and "snd (Write m c) = None"
  using writable_Write[OF assms, of m] by (auto simp: Write_out)

lemma write_response_eq:
  "writable (cn_codec cn) \<Longrightarrow> write_response m cn = set_codec (fst (Write m (cn_codec cn))) cn"
  by (simp add: write_response_def Let_def case_prod_beta Write_succeeds(4))

lemma Notify_live:
  assumes "live i s n" and "writable (nt_codec n)"
  shows "fst (Notify i d n) = n\<lparr>nt_codec := fst (Write (CreateNotification i s d) (nt_codec n))\<rparr>"
proof -
  obtain a where a: "nt_active n i = Some a" "sb_namespace (nt_heap n ! a) = s" using assms(1) by (auto simp: live_def)
  have w: "snd (Write (CreateNotification i s d) (nt_codec n)) = None" by (rule Write_succeeds(4)[OF assms(2)])
  with a show ?thesis
    by (cases "Write (CreateNotification i s d) (nt_codec n)") (simp add: Notify_def)
qed

lemma notify_all_live:
  "live i s n \<Longrightarrow> writable (nt_codec n) \<Longrightarrow>
   \<exists>c. notify_all i ds n = n\<lparr>nt_codec := c\<rparr> \<and> writable c \<and> jc_in c = jc_in (nt_codec n)
     \<and> jc_out c = jc_out (nt_codec n) @ map (CreateNotification i s) ds"
proof (induction ds arbitrary: n)
  case Nil
  then show ?case by (intro exI[of _ "nt_codec n"]) (simp add: notify_all_def)
next
  case (Cons d ds)
  let ?n = "n\<lparr>nt_codec := fst (Write (CreateNotification i s d) (nt_codec n))\<rparr>"
  have "live i s ?n" "writable (nt_codec ?n)" using Cons.prems by (simp_all add: live_def Write_succeeds(3))
  from Cons.IH[OF this] obtain c where "notify_all i ds ?n = n\<lparr>nt_codec := c\<rparr>" "writable c"
    "jc_in c = jc_in (nt_codec n)" "jc_out c = jc_out (nt_codec n) @ map (CreateNotification i s) (d # ds)"
    using Write_succeeds[OF Cons.prems(2)] by auto
  with Notify_live[OF Cons.prems, of d] show ?case by (intro exI[of _ c]) (simp add: notify_all_def)
qed

lemma unsubscribe_live:
  assumes "live i s n"
  shows "\<exists>n'. unsubscribe i n = Some (n', None) \<and> nt_active n' i = None \<and> nt_codec n' = nt_codec n"
  using assms by (auto simp: live_def unsubscribe_def)

lemma notify_all_inactive: "nt_active n i = None \<Longrightarrow> notify_all i ds n = n"
  by (induction ds) (simp_all add: notify_all_def Notify_def)

lemma live_activate: "live (NewID vals) s (activate (NewID vals) s (fst (CreateSubscription vals n)\<lparr>nt_codec := c\<rparr>))"
  by (simp add: live_def activate_def CreateSubscription_def Let_def nth_append)


text \<open>The arguments of a subscription method; the first parameter is the name of the subscription.\<close>

definition subscribe_args ::
  "(gtype \<Rightarrow> json \<Rightarrow> string + 'a gval) \<Rightarrow> gmethod \<Rightarrow> string \<Rightarrow> json list \<Rightarrow> rpc_error + 'a gval list" where
  "subscribe_args unm m k ps =
     (if arg_types m = [] then Inr []
      else case parsePositionalArguments unm (Some (JArr (JStr k # ps))) (stringType # arg_types m) of
        Inl err \<Rightarrow> Inl err | Inr args \<Rightarrow> Inr (drop 1 args))"

lemma subscribe_args_length: "subscribe_args unm m k ps = Inr args \<Longrightarrow> length args = length (arg_types m)"
  by (auto simp: subscribe_args_def parsePositionalArguments_Inr split: if_splits sum.splits
      dest!: arg_cong[of _ _ length])

lemma verify_subscribe:
  assumes "subscription_at services s k = Some (callback_of rv m)" and "registry_inv services"
    and "\<not> HasSuffix k unsubscribeMethodSuffix" and "subscribe_args unm m k ps = Inr args"
  shows "verify_request (ParseRequestArguments unm) services
      ((zero_rpc i)\<lparr>rq_IsPubSub := True, rq_Service := s, rq_Method := k, rq_Params := Some (Some (JArr (JStr k # ps)))\<rparr>)
    = (zero_sreq i)\<lparr>sv_Svcname := s, sv_Callb := Some (callback_of rv m), sv_Args := args\<rparr>"
proof -
  obtain svc where svc: "map_of services s = Some svc" "map_of (svc_Subscriptions svc) k = Some (callback_of rv m)"
    using assms(1) by (auto simp: subscription_at_def bind_eq_Some_conv)
  moreover have "svc_Name svc = s" using assms(2) svc(1) by (simp add: registry_inv_def)
  ultimately show ?thesis
    using assms(3,4) by (auto simp: zero_rpc_def verify_request_def zero_sreq_def subscribe_args_def ParseRequestArguments_def
        split: sum.splits if_splits)
qed

lemma verify_unsubscribe:
  assumes "unm stringType (JStr x) = Inr (VString x)"
  shows "verify_request (ParseRequestArguments unm) services
      ((zero_rpc i)\<lparr>rq_IsPubSub := True, rq_Method := s @ ''_unsubscribe'', rq_Params := Some (Some (JArr [JStr x]))\<rparr>)
    = (zero_sreq i)\<lparr>sv_IsUnsubscribe := True, sv_Args := [VString x]\<rparr>"
proof -
  have "HasSuffix (s @ ''_unsubscribe'') unsubscribeMethodSuffix"
    by (simp add: parse_simps method_suffixes)
  moreover have "parsePositionalArguments unm (Some (JArr [JStr x])) [stringType] = Inr [VString x]"
    using assms by (simp add: parsePositionalArguments_Inr)
  ultimately show ?thesis
    by (auto simp: zero_rpc_def verify_request_def zero_sreq_def ParseRequestArguments_def)
qed

lemma handle_subscribe:
  assumes m: "plain_method m" "is_subscription m" and args: "length args = length (arg_types m)"
    and req: "req = (zero_sreq i)\<lparr>sv_Svcname := s, sv_Callb := Some (callback_of rv m), sv_Args := args\<rparr>"
    and call: "call (callback_of rv m) (VRcvr rv # VCtx # args) cn = Some (cn', [VSub subid, VNil])"
  shows "handle call req cn = Some (cn', CreateResponse (Some i) (Some (VString subid)), Some (subid, s))"
proof -
  have ps: "isPubSub m" using m(2) by (simp add: is_subscription_def)
  then have out: "length (gm_Out m) = 2" "isErrorType (gm_Out m ! 1)" "2 \<le> length (gm_In m)"
    by (auto simp: isPubSub_def split: if_splits)
  have "length (gm_In m) = Suc (Suc (length args))"
    using args out(3) ps m(1) by (simp add: arg_types_def plain_method_def)
  then have "reflect_Call call (callback_of rv m) (VRcvr rv # VCtx # args) cn = Some (cn', [VSub subid, VNil])"
    using call by (simp add: reflect_Call_def callback_of_def)
  moreover have "reply_IsNil (callback_of rv m) [VSub subid, VNil] 1 = Some True"
    using m(1) out by (simp add: reply_IsNil_def callback_of_def plain_method_def)
  ultimately have "createSubscription call (callback_of rv m) args cn = Some (cn', Inr subid)"
    by (simp add: createSubscription_def callback_of_def)
  then show ?thesis using ps by (simp add: handle_def req zero_sreq_def callback_of_def)
qed


text \<open>The two requests, on a connection where writes succeed.\<close>

lemma exec_subscribe:
  assumes m: "plain_method m" "is_subscription m" and args: "length args = length (arg_types m)"
    and call: "call (callback_of rv m) (VRcvr rv # VCtx # args) cn
      = Some (cn\<lparr>cn_notifier := fst (CreateSubscription vals (cn_notifier cn))\<rparr>, [VSub (NewID vals), VNil])"
    and cn: "cn_supported cn" "writable (cn_codec cn)"
    and req: "req = (zero_sreq i)\<lparr>sv_Svcname := s, sv_Callb := Some (callback_of rv m), sv_Args := args\<rparr>"
  shows "\<exists>cn'. exec call req cn = Some cn' \<and> live (NewID vals) s (cn_notifier cn') \<and> cn_supported cn'
    \<and> cn_codec cn' = fst (Write (CreateResponse (Some i) (Some (VString (NewID vals)))) (cn_codec cn))"
proof -
  let ?cn1 = "cn\<lparr>cn_notifier := fst (CreateSubscription vals (cn_notifier cn))\<rparr>"
  let ?m = "CreateResponse (Some i) (Some (VString (NewID vals)))"
  have c: "cn_codec ?cn1 = cn_codec cn" by (simp add: cn_codec_def CreateSubscription_def Let_def)
  have "respond call req cn = Some (?cn1, ?m, Some (NewID vals, s))"
    using handle_subscribe[where call = call and cn = cn and args = args, OF m args req call] by (simp add: respond_def req zero_sreq_def)
  then have "exec call req cn = activateSub (NewID vals, s) (set_codec (fst (Write ?m (cn_codec cn))) ?cn1)"
    using cn(2) by (simp add: exec_def write_response_eq c split: Option.bind_splits)
  moreover have "nt_codec (activate a b n) = nt_codec n" for a b and n :: "'a gval Notifier"
    by (simp add: activate_def split: option.split)
  ultimately show ?thesis
    using cn(1) live_activate by (simp add: activateSub_def set_codec_def cn_codec_def)
qed

lemma exec_unsubscribe:
  assumes "live x s (cn_notifier cn)" and "cn_supported cn" and "writable (cn_codec cn)"
    and req: "req = (zero_sreq j)\<lparr>sv_IsUnsubscribe := True, sv_Args := [VString x]\<rparr>"
  shows "\<exists>cn'. exec call req cn = Some cn' \<and> nt_active (cn_notifier cn') x = None
    \<and> cn_codec cn' = fst (Write (CreateResponse (Some j) (Some (VBool True))) (cn_codec cn))"
proof -
  obtain n where n: "unsubscribe x (cn_notifier cn) = Some (n, None)" "nt_active n x = None" "nt_codec n = cn_codec cn"
    using unsubscribe_live[OF assms(1)] by (auto simp: cn_codec_def)
  let ?cn1 = "cn\<lparr>cn_notifier := n\<rparr>" and ?m = "CreateResponse (Some j) (Some (VBool True))"
  have "cn_codec ?cn1 = cn_codec cn" using n(3) by (simp add: cn_codec_def)
  moreover have "respond call req cn = Some (?cn1, ?m, None)"
    using n(1) assms(2) by (simp add: respond_def handle_def req zero_sreq_def)
  ultimately have "exec call req cn = Some (set_codec (fst (Write ?m (cn_codec cn))) ?cn1)"
    using assms(3) by (simp add: exec_def write_response_eq)
  with n(2) show ?thesis by (simp add: set_codec_def cn_codec_def)
qed


text \<open>C7: A subscription from end to end, read from the wire and written to it. A service registered under a
  name has a method that makes a subscription with fresh random bytes; the client asks for it, the service then
  notifies any values, and the client unsubscribes. The client reads the ID of the subscription, every value, in
  order, under that ID and the name of the service, and that it has unsubscribed; after that no
  notification changes anything.\<close>

theorem subscription_lifecycle:
  assumes reg: "RegisterName s rcvr services0 = (services, None)" "registry_inv services0"
      "method_for is_subscription k (rc_Methods rcvr) = Some m" "plain_method m" "\<not> HasSuffix k unsubscribeMethodSuffix"
    and ids: "checkReqId (Some i) = None" "checkReqId (Some j) = None"
    and args: "subscribe_args unm m k ps = Inr args"
    and unm: "unm stringType (JStr (NewID vals)) = Inr (VString (NewID vals))"
    and call: "\<forall>cn. call (callback_of (rc_Value rcvr) m) (VRcvr (rc_Value rcvr) # VCtx # args) cn
      = Some (cn\<lparr>cn_notifier := fst (CreateSubscription vals (cn_notifier cn))\<rparr>, [VSub (NewID vals), VNil])"
    and conn: "cn_supported cn" "list_all (\<lambda>e. e = None) (jc_werr (cn_codec cn))"
      "jc_in (cn_codec cn) = Inr (call_object i (s @ ''_subscribe'') (JArr (JStr k # ps)))
         # Inr (call_object j (s @ ''_unsubscribe'') (JArr [JStr (NewID vals)])) # rest"
  shows "\<exists>cn1 cn2. serve_next unm call services cn = Some cn1
    \<and> serve_next unm call services (cn1\<lparr>cn_notifier := notify_all (NewID vals) ds (cn_notifier cn1)\<rparr>) = Some cn2
    \<and> jc_out (cn_codec cn2) = jc_out (cn_codec cn)
        @ CreateResponse (Some (Some i)) (Some (VString (NewID vals)))
        # map (CreateNotification (NewID vals) s) ds @ [CreateResponse (Some (Some j)) (Some (VBool True))]
    \<and> (\<forall>ds'. notify_all (NewID vals) ds' (cn_notifier cn2) = cn_notifier cn2)"
proof -
  let ?x = "NewID vals" and ?rv = "rc_Value rcvr" and ?un = "call_object j (s @ ''_unsubscribe'') (JArr [JStr (NewID vals)])"
  let ?cn0 = "set_codec ((cn_codec cn)\<lparr>jc_in := Inr ?un # rest\<rparr>) cn"
  have nobatch: "\<not> isBatch (json_text (call_object a b c))" for a b c by (simp add: call_object_def)
  have sub: "subscription_at services s k = Some (callback_of ?rv m)" "is_subscription m"
    using RegisterName_lookup(2)[OF reg(1), of s k] reg(3) method_for_SomeD[OF reg(3)] by simp_all
  have inv: "registry_inv services" using registry_inv_RegisterName[OF reg(2), of s rcvr] reg(1) by simp
  have w0: "writable (cn_codec ?cn0)" "cn_supported ?cn0" using conn by (simp_all add: writable_def set_codec_def cn_codec_def)
  obtain cn1 where e1: "serve_next unm call services cn = Some cn1" and l1: "live ?x s (cn_notifier cn1)" "cn_supported cn1"
    and c1: "cn_codec cn1 = fst (Write (CreateResponse (Some (Some i)) (Some (VString ?x))) (cn_codec ?cn0))"
    using exec_subscribe[where call = call and cn = ?cn0 and args = args, OF reg(4) sub(2) subscribe_args_length[OF args] call[rule_format] w0(2,1) refl]
    unfolding serve_next_message[OF conn(3) nobatch parse_subscribe_object[OF ids(1)]] verify_subscribe[OF sub(1) inv reg(5) args] by blast
  note f1 = Write_succeeds[OF w0(1), of "CreateResponse (Some (Some i)) (Some (VString ?x))", folded c1]
  obtain c where n: "notify_all ?x ds (cn_notifier cn1) = (cn_notifier cn1)\<lparr>nt_codec := c\<rparr>" and wc: "writable c"
    and ic: "jc_in c = jc_in (cn_codec cn1)" and oc: "jc_out c = jc_out (cn_codec cn1) @ map (CreateNotification ?x s) ds"
    using notify_all_live[OF l1(1), of ds] f1(3) by (auto simp: cn_codec_def)
  let ?cn2 = "cn1\<lparr>cn_notifier := notify_all ?x ds (cn_notifier cn1)\<rparr>"
  let ?cn3 = "set_codec (c\<lparr>jc_in := rest\<rparr>) ?cn2"
  have i2: "jc_in (cn_codec ?cn2) = Inr ?un # rest" "cn_codec ?cn2 = c" using ic f1(2) by (simp_all add: n cn_codec_def set_codec_def)
  have l3: "live ?x s (cn_notifier ?cn3)" "cn_supported ?cn3" "writable (cn_codec ?cn3)" "jc_out (cn_codec ?cn3) = jc_out c"
    using l1 wc by (simp_all add: n live_def set_codec_def cn_codec_def writable_def)
  obtain cn4 where e2: "serve_next unm call services ?cn2 = Some cn4" and a4: "nt_active (cn_notifier cn4) ?x = None"
    and c4: "cn_codec cn4 = fst (Write (CreateResponse (Some (Some j)) (Some (VBool True))) (cn_codec ?cn3))"
    using exec_unsubscribe[OF l3(1-3) refl, of call "Some j"]
    unfolding serve_next_message[OF i2(1) nobatch parse_unsubscribe_object[OF ids(2)]] i2(2) verify_unsubscribe[where unm = unm, OF unm] by blast
  have "jc_out (cn_codec cn4) = jc_out (cn_codec cn) @ CreateResponse (Some (Some i)) (Some (VString ?x))
      # map (CreateNotification ?x s) ds @ [CreateResponse (Some (Some j)) (Some (VBool True))]"
    using Write_succeeds(1)[OF l3(3), of "CreateResponse (Some (Some j)) (Some (VBool True))", folded c4] l3(4) oc f1(1)
    by (simp add: set_codec_def cn_codec_def)
  with e1 e2 notify_all_inactive[OF a4] show ?thesis by blast
qed


definition life_input :: "(string + json) list" where
  "life_input = [Inr (call_object JNull (''ev'' @ ''_subscribe'') (JArr (JStr ''events'' # []))),
     Inr (call_object JNull (''ev'' @ ''_unsubscribe'') (JArr [JStr (NewID (\<lambda>_. 7))]))]"

definition life_call :: "nat call" where
  "life_call cb args cn = Some (cn\<lparr>cn_notifier := fst (CreateSubscription (\<lambda>_. 7) (cn_notifier cn))\<rparr>,
     [VSub (NewID (\<lambda>_. 7)), VNil])"

definition life_unm :: "gtype \<Rightarrow> json \<Rightarrow> string + nat gval" where
  "life_unm t j = (case j of JStr x \<Rightarrow> Inr (VString x) | _ \<Rightarrow> Inl ''no string'')"

theorem subscription_lifecycle_witness:
  "\<exists>cn1 cn2. serve_next life_unm life_call (register_all event_services []) (new_conn (NewCodec life_input []) True) = Some cn1
    \<and> serve_next life_unm life_call (register_all event_services [])
        (cn1\<lparr>cn_notifier := notify_all (NewID (\<lambda>_. 7)) [Some (VBool True), None] (cn_notifier cn1)\<rparr>) = Some cn2
    \<and> jc_out (cn_codec cn2) =
       [CreateResponse (Some (Some JNull)) (Some (VString (NewID (\<lambda>_. 7)))),
        CreateNotification (NewID (\<lambda>_. 7)) ''ev'' (Some (VBool True)), CreateNotification (NewID (\<lambda>_. 7)) ''ev'' None,
        CreateResponse (Some (Some JNull)) (Some (VBool True))]"
proof -
  let ?rc = "snd (hd event_services)" and ?x = "NewID (\<lambda>_. 7)"
  let ?cn = "new_conn (NewCodec life_input []) True :: nat conn"
  have "snd (RegisterName ''ev'' ?rc []) = None" by code_simp
  then have reg: "RegisterName ''ev'' ?rc [] = (register_all event_services [], None)"
    by (simp add: event_services_def prod_eq_iff)
  have meth: "method_for is_subscription ''events'' (rc_Methods ?rc) = Some event_method" by code_simp
  have plain: "plain_method event_method" using event_methods_plain by (simp add: event_services_def)
  have suf: "\<not> HasSuffix ''events'' unsubscribeMethodSuffix" by code_simp
  have i: "checkReqId (Some JNull) = None" by code_simp
  have args: "subscribe_args life_unm event_method ''events'' [] = Inr []"
    by (simp add: subscribe_args_def event_method_def arg_types_def)
  have unm: "life_unm stringType (JStr ?x) = Inr (VString ?x)" by (simp add: life_unm_def)
  have call: "\<forall>cn. life_call (callback_of (rc_Value ?rc) event_method) (VRcvr (rc_Value ?rc) # VCtx # []) cn
      = Some (cn\<lparr>cn_notifier := fst (CreateSubscription (\<lambda>_. 7) (cn_notifier cn))\<rparr>, [VSub ?x, VNil])"
    by (simp add: life_call_def)
  have conn: "cn_supported ?cn" "list_all (\<lambda>e. e = None) (jc_werr (cn_codec ?cn))" "jc_out (cn_codec ?cn) = []"
    "jc_in (cn_codec ?cn) = Inr (call_object JNull (''ev'' @ ''_subscribe'') (JArr (JStr ''events'' # [])))
       # Inr (call_object JNull (''ev'' @ ''_unsubscribe'') (JArr [JStr ?x])) # []"
    by (simp_all add: new_conn_def newNotifier_def NewCodec_def cn_codec_def life_input_def)
  show ?thesis
    using subscription_lifecycle[where ds = "[Some (VBool True), None]" and unm = life_unm and call = life_call and vals = "\<lambda>_. 7"
        and cn = ?cn, OF reg registry_inv_Nil meth plain suf i i args unm call conn(1,2,4)] conn(3)
    by auto
qed

end
