(* ===== verification/Event_Feed.thy ===== *)
theory Event_Feed
  imports Go_Reflect
begin

text \<open>
  One-to-many event delivery (src/pkg/event/feed.go). The list of select cases is shared
  between the feed and a running \<open>Send\<close>, whose local slice \<open>cases\<close> is a prefix of it: the
  model keeps the one list and the length of the prefix. Whether a channel accepts a value
  (\<open>TrySend\<close>) and what a blocking \<open>Select\<close> chooses is decided by the receivers: it is an
  input of \<open>Send\<close>, round by round (a receiver that closes its channel is outside the model:
  sending on a closed channel panics in the runtime). An operation returns, panics and leaves
  the feed it had reached, or blocks on a lock that nobody holds any more.
\<close>

section \<open>Cases\<close>

datatype fchan = RemoveSub | Chan nat

text \<open>A select case: a channel and the value to send (none for the receiving case).\<close>

record 'v fcase =
  fc_chan :: fchan
  fc_send :: "'v option"

type_synonym 'v caseList = "'v fcase list"

fun find_from :: "'v caseList \<Rightarrow> fchan \<Rightarrow> int \<Rightarrow> int" where
  "find_from [] channel i = - 1"
| "find_from (cas # cs) channel i = (if fc_chan cas = channel then i else find_from cs channel (i + 1))"

definition caseList_find :: "'v caseList \<Rightarrow> fchan \<Rightarrow> int" where
  "caseList_find cs channel = find_from cs channel 0"

text \<open>Slicing at \<open>-1\<close> panics.\<close>

definition caseList_delete :: "'v caseList \<Rightarrow> int \<Rightarrow> 'v caseList option" where
  "caseList_delete cs index =
     (if 0 \<le> index \<and> nat index < length cs
      then Some (take (nat index) cs @ drop (nat index + 1) cs) else None)"

text \<open>Swap with the last element of the prefix of length \<open>n\<close>; the prefix loses that element.\<close>

definition caseList_deactivate :: "'v caseList \<Rightarrow> nat \<Rightarrow> nat \<Rightarrow> 'v caseList \<times> nat" where
  "caseList_deactivate cs n index =
     (let last = n - 1 in (cs[index := cs ! last, last := cs ! index], last))"

section \<open>The feed\<close>

record 'v Feed =
  fd_once :: bool
  fd_sendLock :: bool
  fd_sendCases :: "'v caseList"
  fd_mu :: bool
  fd_inbox :: "'v caseList"
  fd_etype :: "gtype option"

definition zero_feed :: "'v Feed" where
  "zero_feed = \<lparr>fd_once = False, fd_sendLock = False, fd_sendCases = [], fd_mu = False,
     fd_inbox = [], fd_etype = None\<rparr>"

definition firstSubSendCase :: nat where "firstSubSendCase = 1"

definition feed_init :: "'v Feed \<Rightarrow> 'v Feed" where
  "feed_init f =
     (if fd_once f then f
      else f\<lparr>fd_once := True, fd_sendLock := True,
             fd_sendCases := [\<lparr>fc_chan = RemoveSub, fc_send = None\<rparr>]\<rparr>)"

definition typecheck :: "gtype \<Rightarrow> 'v Feed \<Rightarrow> 'v Feed \<times> bool" where
  "typecheck t f =
     (case fd_etype f of None \<Rightarrow> (f\<lparr>fd_etype := Some t\<rparr>, True) | Some et \<Rightarrow> (f, et = t))"

text \<open>
  The argument of \<open>Subscribe\<close>: a channel with its element type, or a value that is not a
  sendable channel. The subscription is identified by its channel.
\<close>

datatype sub_arg = SendChan nat gtype | NotSendable

datatype ('f, 'a) outcome = Returned 'f 'a | Panics 'f | Blocks

definition Subscribe :: "sub_arg \<Rightarrow> 'v Feed \<Rightarrow> ('v Feed, nat) outcome" where
  "Subscribe arg f =
     (let f = feed_init f in
      case arg of
        NotSendable \<Rightarrow> Panics f
      | SendChan ch et \<Rightarrow>
          if fd_mu f then Blocks
          else (let (f, ok) = typecheck et f in
                if \<not> ok then Panics f
                else Returned (f\<lparr>fd_inbox := fd_inbox f @ [\<lparr>fc_chan = Chan ch, fc_send = None\<rparr>]\<rparr>) ch))"

text \<open>
  \<open>remove\<close> while no \<open>Send\<close> is in progress: the inbox first, else the list of cases under
  the send lock, which a panic keeps. (During a \<open>Send\<close> the channel is handed to it, see
  \<open>select_step\<close>.)
\<close>

definition feed_remove :: "nat \<Rightarrow> 'v Feed \<Rightarrow> ('v Feed, unit) outcome" where
  "feed_remove ch f =
     (if fd_mu f then Blocks
      else
       (let index = caseList_find (fd_inbox f) (Chan ch) in
        if index \<noteq> - 1 then
          (case caseList_delete (fd_inbox f) index of
             None \<Rightarrow> Panics (f\<lparr>fd_mu := True\<rparr>)
           | Some cs \<Rightarrow> Returned (f\<lparr>fd_inbox := cs\<rparr>) ())
        else if \<not> fd_sendLock f then Blocks
        else
          (case caseList_delete (fd_sendCases f) (caseList_find (fd_sendCases f) (Chan ch)) of
             None \<Rightarrow> Panics (f\<lparr>fd_sendLock := False\<rparr>)
           | Some cs \<Rightarrow> Returned (f\<lparr>fd_sendCases := cs\<rparr>) ())))"

text \<open>A subscription: its channel, whether \<open>errOnce\<close> ran, whether the error channel is closed.\<close>

record feedSub =
  fs_channel :: nat
  fs_errOnce :: bool
  fs_err_closed :: bool

definition feedSub_Unsubscribe :: "feedSub \<Rightarrow> 'v Feed \<Rightarrow> ('v Feed, feedSub) outcome" where
  "feedSub_Unsubscribe fs f =
     (if fs_errOnce fs then Returned f fs
      else case feed_remove (fs_channel fs) f of
        Returned f' _ \<Rightarrow> Returned f' (fs\<lparr>fs_errOnce := True, fs_err_closed := True\<rparr>)
      | Panics f' \<Rightarrow> Panics f'
      | Blocks \<Rightarrow> Blocks)"

section \<open>Send\<close>

text \<open>The state of a running \<open>Send\<close>: the shared cases, the length of the active prefix, the
  count, and the deliveries made.\<close>

record 'v sending =
  sn_cases :: "'v caseList"
  sn_n :: nat
  sn_nsent :: nat
  sn_log :: "(fchan \<times> 'v option) list"

definition deliver :: "'v option \<Rightarrow> nat \<Rightarrow> 'v sending \<Rightarrow> 'v sending" where
  "deliver v i s =
     (let (cs, n) = caseList_deactivate (sn_cases s) (sn_n s) i in
      s\<lparr>sn_cases := cs, sn_n := n, sn_nsent := sn_nsent s + 1,
        sn_log := sn_log s @ [(fc_chan (sn_cases s ! i), v)]\<rparr>)"

text \<open>The fast path: \<open>accepts\<close> lists the outcomes of \<open>TrySend\<close>, then all fail.\<close>

fun try_pass :: "'v \<Rightarrow> bool list \<Rightarrow> nat \<Rightarrow> 'v sending \<Rightarrow> 'v sending" where
  "try_pass v [] i s = s"
| "try_pass v (accepted # rest) i s =
     (if i < sn_n s then
        (if accepted then try_pass v rest i (deliver (Some v) i s) else try_pass v rest (i + 1) s)
      else s)"

text \<open>What a blocking select returns: a channel to remove, or the case that was sent.\<close>

datatype selected = SelRemove nat | SelSend nat

definition select_step :: "selected \<Rightarrow> 'v sending \<Rightarrow> 'v sending option" where
  "select_step sel s =
     (case sel of
        SelRemove ch \<Rightarrow>
          (let index = caseList_find (sn_cases s) (Chan ch) in
           case caseList_delete (sn_cases s) index of
             None \<Rightarrow> None
           | Some cs \<Rightarrow>
               Some (s\<lparr>sn_cases := cs,
                 sn_n := (if index \<ge> 0 \<and> index < int (sn_n s) then sn_n s - 1 else sn_n s)\<rparr>))
      | SelSend chosen \<Rightarrow> Some (deliver (fc_send (sn_cases s ! chosen)) chosen s))"

text \<open>\<open>Waiting\<close>: the rounds given are used up and the send still blocks.\<close>

datatype 'v send_result = Sent "'v sending" | Waiting "'v sending" | SendPanic

fun send_loop :: "'v \<Rightarrow> (bool list \<times> selected) list \<Rightarrow> 'v sending \<Rightarrow> 'v send_result" where
  "send_loop v [] s =
     (if sn_n s = firstSubSendCase then Sent s else Waiting s)"
| "send_loop v ((accepts, sel) # rounds) s =
     (let s = try_pass v accepts firstSubSendCase s in
      if sn_n s = firstSubSendCase then Sent s
      else case select_step sel s of None \<Rightarrow> SendPanic | Some s' \<Rightarrow> send_loop v rounds s')"

definition set_send :: "'v option \<Rightarrow> 'v caseList \<Rightarrow> 'v caseList" where
  "set_send v cs = take firstSubSendCase cs @ map (\<lambda>c. c\<lparr>fc_send := v\<rparr>) (drop firstSubSendCase cs)"

text \<open>
  Taking the lock and collecting the inbox. On a type mismatch the send lock is released
  before the panic, the mutex is not: the feed is returned with the panic.
\<close>

definition send_start :: "'v \<Rightarrow> gtype \<Rightarrow> 'v Feed \<Rightarrow> ('v Feed, 'v sending) outcome" where
  "send_start v t f =
     (let f = feed_init f in
      if \<not> fd_sendLock f \<or> fd_mu f then Blocks
      else
       (let f = f\<lparr>fd_sendLock := False, fd_mu := True,
                  fd_sendCases := fd_sendCases f @ fd_inbox f, fd_inbox := []\<rparr>;
            (f, ok) = typecheck t f
        in if \<not> ok then Panics (f\<lparr>fd_sendLock := True\<rparr>)
           else let cs = set_send (Some v) (fd_sendCases f)
                in Returned (f\<lparr>fd_mu := False, fd_sendCases := cs\<rparr>)
                    \<lparr>sn_cases = cs, sn_n = length cs, sn_nsent = 0, sn_log = []\<rparr>))"

definition send_finish :: "'v sending \<Rightarrow> 'v Feed \<Rightarrow> 'v Feed" where
  "send_finish s f = f\<lparr>fd_sendCases := set_send None (sn_cases s), fd_sendLock := True\<rparr>"

text \<open>The result is the count, with the deliveries made.\<close>

definition Send ::
  "'v \<Rightarrow> gtype \<Rightarrow> (bool list \<times> selected) list \<Rightarrow> 'v Feed
   \<Rightarrow> ('v Feed, nat \<times> (fchan \<times> 'v option) list) outcome" where
  "Send v t rounds f =
     (case send_start v t f of
        Returned f' s \<Rightarrow>
          (case send_loop v rounds s of
             Sent s' \<Rightarrow> Returned (send_finish s' f') (sn_nsent s', sn_log s')
           | Waiting _ \<Rightarrow> Blocks
           | SendPanic \<Rightarrow> Panics f')
      | Panics f' \<Rightarrow> Panics f'
      | Blocks \<Rightarrow> Blocks)"

section \<open>The list operations\<close>

fun del_chan :: "fchan \<Rightarrow> 'v caseList \<Rightarrow> 'v caseList" where
  "del_chan ch [] = []"
| "del_chan ch (c # cs) = (if fc_chan c = ch then cs else c # del_chan ch cs)"

lemma find_from_bounds:
  "find_from cs ch i = - 1 \<and> ch \<notin> fc_chan ` set cs
   \<or> ch \<in> fc_chan ` set cs \<and> i \<le> find_from cs ch i \<and> find_from cs ch i < i + int (length cs)"
  if "0 \<le> i"
  using that
proof (induction cs arbitrary: i)
  case (Cons c cs)
  from Cons.IH[of "i + 1"] Cons.prems show ?case by auto
qed simp

lemma delete_found:
  assumes "ch \<in> fc_chan ` set cs"
  shows "caseList_delete cs (caseList_find cs ch) = Some (del_chan ch cs)"
proof -
  have "take (nat (find_from cs ch i - i)) cs @ drop (nat (find_from cs ch i - i) + 1) cs = del_chan ch cs"
    if "0 \<le> i" "ch \<in> fc_chan ` set cs" for i
    using that
  proof (induction cs arbitrary: i)
    case (Cons c cs)
    show ?case
    proof (cases "fc_chan c = ch")
      case False
      with Cons.prems have in_cs: "ch \<in> fc_chan ` set cs" by auto
      then have le: "i + 1 \<le> find_from cs ch (i + 1)"
        using find_from_bounds[of "i + 1" cs ch] Cons.prems(1) by auto
      then have "nat (find_from cs ch (i + 1) - i) = Suc (nat (find_from cs ch (i + 1) - (i + 1)))" by auto
      with False Cons.IH[of "i + 1"] Cons.prems(1) in_cs show ?thesis by simp
    qed simp
  qed simp
  from this[of 0] assms find_from_bounds[of 0 cs ch] show ?thesis
    by (auto simp: caseList_delete_def caseList_find_def)
qed

lemma delete_missing:
  "ch \<notin> fc_chan ` set cs \<Longrightarrow> caseList_delete cs (caseList_find cs ch) = None"
  using find_from_bounds[of 0 cs ch] by (auto simp: caseList_delete_def caseList_find_def)

lemma find_in_prefix:
  "0 \<le> caseList_find (cs @ ds) ch \<and> caseList_find (cs @ ds) ch < int (length cs) \<longleftrightarrow> ch \<in> fc_chan ` set cs"
proof -
  have "i \<le> find_from (cs @ ds) ch i \<and> find_from (cs @ ds) ch i < i + int (length cs)
      \<longleftrightarrow> ch \<in> fc_chan ` set cs" if "0 \<le> i" for i
    using that
  proof (induction cs arbitrary: i)
    case Nil
    then show ?case by simp
  next
    case (Cons c cs)
    from Cons.IH[of "i + 1"] Cons.prems find_from_bounds[of "i + 1" "cs @ ds" ch] show ?case by auto
  qed
  from this[of 0] show ?thesis by (simp add: caseList_find_def)
qed

lemma del_chan_append:
  "del_chan ch (cs @ ds) = (if ch \<in> fc_chan ` set cs then del_chan ch cs @ ds else cs @ del_chan ch ds)"
  by (induction cs) auto

lemma mset_del_chan:
  "ch \<in> fc_chan ` set cs \<Longrightarrow> mset (map fc_chan cs) = add_mset ch (mset (map fc_chan (del_chan ch cs)))"
  by (induction cs) auto

lemma set_del_chan: "set (del_chan ch cs) \<subseteq> set cs"
  by (induction cs) auto

lemma length_del_chan: "ch \<in> fc_chan ` set cs \<Longrightarrow> length (del_chan ch cs) = length cs - 1"
proof (induction cs)
  case (Cons c cs)
  then show ?case by (cases cs) auto
qed simp

text \<open>Deactivation moves a case from the active prefix \<open>P\<close> to the rest \<open>Q\<close>.\<close>

definition drop_at :: "nat \<Rightarrow> 'b list \<Rightarrow> 'b list" where
  "drop_at j P = butlast (P[j := last P])"

lemma mset_drop_at:
  assumes "j < length P"
  shows "mset P = add_mset (P ! j) (mset (drop_at j P))"
proof -
  from assms obtain B x where P: "P = B @ [x]" by (cases P rule: rev_cases) auto
  show ?thesis
  proof (cases "j = length B")
    case True
    then show ?thesis by (simp add: P drop_at_def)
  next
    case False
    with assms have j: "j < length B" by (simp add: P)
    then have "drop_at j P = B[j := x]" by (simp add: P drop_at_def list_update_append butlast_append)
    with j show ?thesis by (simp add: P mset_update nth_append)
  qed
qed

lemma length_drop_at [simp]: "length (drop_at j P) = length P - 1"
  by (simp add: drop_at_def)

lemma deactivate_split:
  assumes "j < length P"
  shows "caseList_deactivate (c0 # P @ Q) (Suc (length P)) (Suc j) = (c0 # drop_at j P @ P ! j # Q, length P)"
proof -
  define p where "p = length P - 1"
  have len: "length P = Suc p" using assms by (simp add: p_def)
  have ne: "P \<noteq> []" using assms by auto
  have "(P @ Q)[j := P ! p, p := P ! j] = P[j := P ! p, p := P ! j] @ Q"
    using assms len by (simp add: list_update_append)
  moreover have "P[j := P ! p, p := P ! j] = drop_at j P @ [P ! j]"
  proof -
    have "P ! p = last P" using ne by (simp add: last_conv_nth p_def)
    moreover have "xs[p := x] = butlast xs @ [x]" if "length xs = Suc p" for xs and x :: "'a fcase"
      using that by (metis append_butlast_last_id length_0_conv length_append_singleton
          list_update_length nat.inject nat.distinct(1))
    ultimately show ?thesis using len by (simp add: drop_at_def)
  qed
  ultimately show ?thesis
    using assms len by (simp add: caseList_deactivate_def Let_def nth_append)
qed

section \<open>Delivery\<close>

text \<open>
  The invariant of a running \<open>Send\<close> of \<open>v\<close> to the channels \<open>start\<close>, \<open>R\<close> of which were
  removed meanwhile: the cases are the receiving case, the active prefix \<open>P\<close> and the rest
  \<open>Q\<close>; every channel of \<open>start\<close> got the value once, is still active, or is one of the
  channels \<open>U\<close> that were removed before they got it.
\<close>

definition send_inv :: "'v \<Rightarrow> fchan multiset \<Rightarrow> fchan multiset \<Rightarrow> 'v sending \<Rightarrow> bool" where
  "send_inv v start R s \<longleftrightarrow> (\<exists>c0 P Q U.
     sn_cases s = c0 # P @ Q \<and> sn_n s = Suc (length P) \<and> (fc_chan c0 = RemoveSub \<and> fc_send c0 = None)
     \<and> list_all (\<lambda>c. fc_send c = Some v \<and> fc_chan c \<noteq> RemoveSub) (P @ Q)
     \<and> mset (map fc_chan (P @ Q)) + R = start
     \<and> U \<subseteq># R \<and> start = mset (map fst (sn_log s)) + mset (map fc_chan P) + U
     \<and> sn_nsent s = length (sn_log s) \<and> list_all (\<lambda>e. snd e = Some v) (sn_log s))"

lemma set_drop_at: "j < length P \<Longrightarrow> set P = insert (P ! j) (set (drop_at j P))"
  using mset_drop_at[of j P] by (metis set_mset_add_mset_insert set_mset_mset)

lemma send_inv_deliver:
  assumes inv: "send_inv v start R s" and i: "1 \<le> i" "i < sn_n s"
  shows "send_inv v start R (deliver (Some v) i s)"
proof -
  from inv obtain c0 P Q U where s: "sn_cases s = c0 # P @ Q" "sn_n s = Suc (length P)" "fc_chan c0 = RemoveSub \<and> fc_send c0 = None"
    and ok: "list_all (\<lambda>c. fc_send c = Some v \<and> fc_chan c \<noteq> RemoveSub) (P @ Q)"
    and m: "mset (map fc_chan (P @ Q)) + R = start" "U \<subseteq># R"
      "start = mset (map fst (sn_log s)) + mset (map fc_chan P) + U"
    and log: "sn_nsent s = length (sn_log s)" "list_all (\<lambda>e. snd e = Some v) (sn_log s)"
    unfolding send_inv_def by blast
  define j where "j = i - 1"
  have j: "j < length P" "i = Suc j" using i s(2) by (simp_all add: j_def)
  let ?P = "drop_at j P" and ?Q = "P ! j # Q" and ?s = "deliver (Some v) i s"
  have at: "sn_cases s ! i = P ! j" using j s(1) by (simp add: nth_append)
  have s': "sn_cases ?s = c0 # ?P @ ?Q" "sn_n ?s = Suc (length ?P)" "sn_nsent ?s = length (sn_log ?s)"
    "sn_log ?s = sn_log s @ [(fc_chan (P ! j), Some v)]"
    using deactivate_split[OF j(1), of c0 Q] j log(1) s by (auto simp: deliver_def nth_append)
  note mp = mset_drop_at[OF j(1)]
  have "mset (map fc_chan P) = add_mset (fc_chan (P ! j)) (mset (map fc_chan ?P))"
    using arg_cong[OF mp, of "image_mset fc_chan"] by simp
  moreover have "list_all (\<lambda>c. fc_send c = Some v \<and> fc_chan c \<noteq> RemoveSub) (?P @ ?Q)"
    using ok set_drop_at[OF j(1)] by (auto simp: list_all_iff)
  ultimately show ?thesis unfolding send_inv_def
    using s' s(3) m log(2) by (intro exI[of _ c0] exI[of _ ?P] exI[of _ ?Q] exI[of _ U]) simp
qed

lemma send_inv_remove:
  assumes inv: "send_inv v start R s" and ch: "Chan ch \<in> fc_chan ` set (sn_cases s)"
  shows "\<exists>s'. select_step (SelRemove ch) s = Some s' \<and> send_inv v start (add_mset (Chan ch) R) s'
    \<and> length (sn_cases s') < length (sn_cases s) \<and> sn_n s' \<le> sn_n s"
proof -
  from inv obtain c0 P Q U where s: "sn_cases s = c0 # P @ Q" "sn_n s = Suc (length P)" "fc_chan c0 = RemoveSub \<and> fc_send c0 = None"
    and ok: "list_all (\<lambda>c. fc_send c = Some v \<and> fc_chan c \<noteq> RemoveSub) (P @ Q)"
    and m: "mset (map fc_chan (P @ Q)) + R = start" "U \<subseteq># R"
      "start = mset (map fst (sn_log s)) + mset (map fc_chan P) + U"
    and log: "sn_nsent s = length (sn_log s)" "list_all (\<lambda>e. snd e = Some v) (sn_log s)"
    unfolding send_inv_def by blast
  have inPQ: "Chan ch \<in> fc_chan ` set (P @ Q)" using ch s by auto
  have del: "del_chan (Chan ch) (sn_cases s) = c0 # del_chan (Chan ch) (P @ Q)" using s(1,3) by simp
  have pre: "0 \<le> caseList_find (sn_cases s) (Chan ch) \<and> caseList_find (sn_cases s) (Chan ch) < int (sn_n s)
      \<longleftrightarrow> Chan ch \<in> fc_chan ` set P"
    using find_in_prefix[of "c0 # P" Q "Chan ch"] s by simp
  define s' where "s' = s\<lparr>sn_cases := c0 # del_chan (Chan ch) (P @ Q),
      sn_n := (if Chan ch \<in> fc_chan ` set P then sn_n s - 1 else sn_n s)\<rparr>"
  have step: "select_step (SelRemove ch) s = Some s'"
    using delete_found[OF ch] del pre by (simp add: select_step_def s'_def Let_def)
  have mdel: "mset (map fc_chan (P @ Q)) = add_mset (Chan ch) (mset (map fc_chan (del_chan (Chan ch) (P @ Q))))"
    by (rule mset_del_chan[OF inPQ])
  have ok': "list_all (\<lambda>c. fc_send c = Some v \<and> fc_chan c \<noteq> RemoveSub) (del_chan (Chan ch) (P @ Q))"
    using ok set_del_chan[of "Chan ch" "P @ Q"] by (auto simp: list_all_iff)
  have "send_inv v start (add_mset (Chan ch) R) s'"
  proof (cases "Chan ch \<in> fc_chan ` set P")
    case True
    note mP = mset_del_chan[OF True]
    have "length P = Suc (length (del_chan (Chan ch) P))"
      using length_del_chan[OF True] True by (cases P) auto
    then show ?thesis unfolding send_inv_def
      using s m log ok' mdel mP True
      by (intro exI[of _ c0] exI[of _ "del_chan (Chan ch) P"] exI[of _ Q] exI[of _ "add_mset (Chan ch) U"])
        (simp add: s'_def del_chan_append)
  next
    case False
    then show ?thesis unfolding send_inv_def
      using s m log ok' mdel
      by (intro exI[of _ c0] exI[of _ P] exI[of _ "del_chan (Chan ch) Q"] exI[of _ U])
        (auto simp: s'_def del_chan_append intro: subset_mset.order_trans)
  qed
  moreover have "length (del_chan (Chan ch) (P @ Q)) < length (P @ Q)"
    using length_del_chan[OF inPQ] inPQ by (cases "P @ Q") auto
  ultimately show ?thesis using step s by (auto simp: s'_def)
qed

lemma deliver_sizes:
  "length (sn_cases (deliver x i s)) = length (sn_cases s)" "sn_n (deliver x i s) = sn_n s - 1"
  by (simp_all add: deliver_def caseList_deactivate_def Let_def)

lemma send_inv_n: "send_inv v start R s \<Longrightarrow> 1 \<le> sn_n s \<and> sn_n s \<le> length (sn_cases s)"
  by (auto simp: send_inv_def)

lemma try_pass_inv:
  "send_inv v start R s \<Longrightarrow> 1 \<le> i \<Longrightarrow> send_inv v start R (try_pass v accepts i s)"
  by (induction v accepts i s rule: try_pass.induct) (simp_all add: send_inv_deliver)

lemma try_pass_sizes:
  "length (sn_cases (try_pass v accepts i s)) = length (sn_cases s)" "sn_n (try_pass v accepts i s) \<le> sn_n s"
  by (induction v accepts i s rule: try_pass.induct) (auto simp: deliver_sizes)

lemma send_inv_value:
  assumes "send_inv v start R s" "1 \<le> i" "i < sn_n s"
  shows "fc_send (sn_cases s ! i) = Some v"
proof -
  from assms obtain c0 P Q where s: "sn_cases s = c0 # P @ Q" "i - 1 < length P" "i = Suc (i - 1)"
    and ok: "list_all (\<lambda>c. fc_send c = Some v \<and> fc_chan c \<noteq> RemoveSub) (P @ Q)"
    by (auto simp: send_inv_def)
  have "sn_cases s ! i = P ! (i - 1)" using s by (metis nth_Cons_Suc nth_append)
  with s(2) ok show ?thesis by (simp add: list_all_iff)
qed

text \<open>What a select may return: an active case, or a channel that is still subscribed.\<close>

fun valid_sel :: "selected \<Rightarrow> 'v sending \<Rightarrow> bool" where
  "valid_sel (SelSend i) s = (1 \<le> i \<and> i < sn_n s)"
| "valid_sel (SelRemove ch) s = (Chan ch \<in> fc_chan ` set (sn_cases s))"

fun rounds_ok :: "'v \<Rightarrow> (bool list \<times> selected) list \<Rightarrow> 'v sending \<Rightarrow> bool" where
  "rounds_ok v [] s = True"
| "rounds_ok v ((accepts, sel) # rounds) s =
     (let s = try_pass v accepts firstSubSendCase s in
      if sn_n s = firstSubSendCase then True
      else valid_sel sel s \<and> (case select_step sel s of None \<Rightarrow> True | Some s' \<Rightarrow> rounds_ok v rounds s'))"

fun removals :: "(bool list \<times> selected) list \<Rightarrow> fchan multiset" where
  "removals [] = {#}"
| "removals ((_, SelRemove ch) # rounds) = add_mset (Chan ch) (removals rounds)"
| "removals ((_, SelSend _) # rounds) = removals rounds"

lemma select_step_inv:
  assumes inv: "send_inv v start R s" and sel: "valid_sel sel s"
  obtains s' where "select_step sel s = Some s'" "send_inv v start (R + removals [(accepts, sel)]) s'"
    "sn_n s' + length (sn_cases s') < sn_n s + length (sn_cases s)"
proof (cases sel)
  case (SelRemove ch)
  with send_inv_remove[OF inv, of ch] sel that show ?thesis by fastforce
next
  case (SelSend i)
  with sel have i: "1 \<le> i" "i < sn_n s" by simp_all
  have "fc_send (sn_cases s ! i) = Some v" by (rule send_inv_value[OF inv i])
  with SelSend that[of "deliver (Some v) i s"] send_inv_deliver[OF inv i] i show ?thesis
    by (simp add: select_step_def deliver_sizes)
qed

lemma removals_Cons: "removals (r # rounds) = removals [r] + removals rounds"
  by (cases r; cases "snd r") auto

lemma send_loop_inv:
  assumes "send_inv v start R s" and "rounds_ok v rounds s"
  shows "case send_loop v rounds s of
      Sent s' \<Rightarrow> sn_n s' = 1 \<and> (\<exists>R'. R' \<subseteq># R + removals rounds \<and> send_inv v start R' s')
    | Waiting s' \<Rightarrow> length rounds + sn_n s' + length (sn_cases s') \<le> sn_n s + length (sn_cases s)
        \<and> 1 < sn_n s' \<and> sn_n s' \<le> length (sn_cases s')
    | SendPanic \<Rightarrow> False"
  using assms
proof (induction v rounds s arbitrary: R rule: send_loop.induct)
  case (1 v s)
  then show ?case using send_inv_n[of v start R s] by (auto simp: firstSubSendCase_def)
next
  case (2 v accepts sel rounds s)
  let ?s = "try_pass v accepts firstSubSendCase s"
  have inv: "send_inv v start R ?s"
    using 2(2) by (intro try_pass_inv) (simp_all add: firstSubSendCase_def)
  have sz: "length (sn_cases ?s) = length (sn_cases s)" "sn_n ?s \<le> sn_n s"
    by (rule try_pass_sizes)+
  show ?case
  proof (cases "sn_n ?s = firstSubSendCase")
    case True
    with inv show ?thesis by (auto simp: firstSubSendCase_def intro!: exI[of _ R])
  next
    case False
    with 2(3) have "valid_sel sel ?s" by (simp add: Let_def)
    from select_step_inv[OF inv this, of accepts] obtain s' where s': "select_step sel ?s = Some s'"
      "send_inv v start (R + removals [(accepts, sel)]) s'"
      "sn_n s' + length (sn_cases s') < sn_n ?s + length (sn_cases ?s)" by metis
    have "rounds_ok v rounds s'" using 2(3) False s'(1) by (simp add: Let_def)
    from 2(1)[OF refl False s'(1) s'(2) this] s'(3) sz
    have "case send_loop v rounds s' of
        Sent t \<Rightarrow> sn_n t = 1 \<and> (\<exists>R'. R' \<subseteq># R + removals ((accepts, sel) # rounds) \<and> send_inv v start R' t)
      | Waiting t \<Rightarrow> Suc (length rounds) + sn_n t + length (sn_cases t) \<le> sn_n s + length (sn_cases s)
          \<and> 1 < sn_n t \<and> sn_n t \<le> length (sn_cases t)
      | SendPanic \<Rightarrow> False"
      by (auto simp: removals_Cons[of _ rounds] add.assoc split: send_result.splits)
    with False s'(1) show ?thesis by (auto simp: Let_def split: send_result.splits)
  qed
qed


section \<open>The feed as a bag of subscribers\<close>

text \<open>
  A feed that no operation is using: both locks are free, the first case is the receiving
  one, no value is left in a case, and the element type, if chosen, is \<open>t\<close>.
\<close>

definition idle_case :: "'v fcase \<Rightarrow> bool" where
  "idle_case c \<longleftrightarrow> fc_send c = None \<and> fc_chan c \<noteq> RemoveSub"

definition feed_good :: "gtype \<Rightarrow> 'v Feed \<Rightarrow> bool" where
  "feed_good t f \<longleftrightarrow> \<not> fd_mu f \<and> fd_etype f \<in> {None, Some t} \<and> list_all idle_case (fd_inbox f)
     \<and> (if fd_once f
        then fd_sendLock f \<and> (\<exists>cs. fd_sendCases f = \<lparr>fc_chan = RemoveSub, fc_send = None\<rparr> # cs \<and> list_all idle_case cs)
        else fd_sendCases f = [] \<and> fd_inbox f = [])"

text \<open>The subscribers: a channel counts once for each of its subscriptions.\<close>

definition feed_chans :: "'v Feed \<Rightarrow> fchan multiset" where
  "feed_chans f = mset (map fc_chan (drop firstSubSendCase (fd_sendCases f) @ fd_inbox f))"

lemma zero_feed_good: "feed_good t zero_feed" "feed_chans zero_feed = {#}"
  by (simp_all add: feed_good_def feed_chans_def zero_feed_def)

lemma feed_init_good:
  assumes "feed_good t f"
  obtains cs where "feed_good t (feed_init f)" "feed_chans (feed_init f) = feed_chans f"
    "fd_once (feed_init f)" "fd_sendLock (feed_init f)" "\<not> fd_mu (feed_init f)"
    "fd_sendCases (feed_init f) = \<lparr>fc_chan = RemoveSub, fc_send = None\<rparr> # cs" "list_all idle_case cs"
  using assms that
  by (cases "fd_once f") (auto simp: feed_init_def feed_good_def feed_chans_def firstSubSendCase_def)

lemma typecheck_good:
  assumes "fd_etype f \<in> {None, Some t}"
  shows "typecheck t f = (f\<lparr>fd_etype := Some t\<rparr>, True)"
  using assms by (auto simp: typecheck_def)

lemma Subscribe_good:
  assumes "feed_good t f"
  shows "\<exists>f'. Subscribe (SendChan ch t) f = Returned f' ch \<and> feed_good t f'
    \<and> feed_chans f' = add_mset (Chan ch) (feed_chans f)"
proof -
  from feed_init_good[OF assms] obtain cs where g: "feed_good t (feed_init f)"
    "feed_chans (feed_init f) = feed_chans f" "fd_once (feed_init f)" "\<not> fd_mu (feed_init f)"
    by metis
  then have "typecheck t (feed_init f) = ((feed_init f)\<lparr>fd_etype := Some t\<rparr>, True)"
    by (intro typecheck_good) (simp add: feed_good_def)
  with g(3,4) have "Subscribe (SendChan ch t) f = Returned ((feed_init f)\<lparr>fd_etype := Some t,
      fd_inbox := fd_inbox (feed_init f) @ [\<lparr>fc_chan = Chan ch, fc_send = None\<rparr>]\<rparr>) ch" (is "_ = Returned ?g _")
    by (simp add: Subscribe_def Let_def)
  moreover have "feed_good t ?g" using g(1,3) by (auto simp: feed_good_def idle_case_def)
  moreover have "feed_chans ?g = add_mset (Chan ch) (feed_chans f)"
    using g(2) by (simp add: feed_chans_def)
  ultimately show ?thesis by blast
qed

lemma find_missing_iff: "caseList_find cs ch = - 1 \<longleftrightarrow> ch \<notin> fc_chan ` set cs"
  using find_from_bounds[of 0 cs ch] by (auto simp: caseList_find_def)

lemma list_all_del_chan: "list_all Q cs \<Longrightarrow> list_all Q (del_chan ch cs)"
  using set_del_chan[of ch cs] by (auto simp: list_all_iff)

lemma feed_remove_good:
  assumes good: "feed_good t f" and ch: "Chan ch \<in># feed_chans f"
  shows "\<exists>f'. feed_remove ch f = Returned f' () \<and> feed_good t f' \<and> feed_chans f' = feed_chans f - {#Chan ch#}"
proof (cases "Chan ch \<in> fc_chan ` set (fd_inbox f)")
  case True
  note m = mset_del_chan[OF True]
  have "feed_remove ch f = Returned (f\<lparr>fd_inbox := del_chan (Chan ch) (fd_inbox f)\<rparr>) ()"
    using good True find_missing_iff[of "fd_inbox f" "Chan ch"] delete_found[OF True]
    by (simp add: feed_remove_def feed_good_def Let_def)
  then show ?thesis
    using good m list_all_del_chan[of idle_case "fd_inbox f"]
    by (auto simp: feed_good_def feed_chans_def split: if_splits)
next
  case False
  with ch have sc: "Chan ch \<in> fc_chan ` set (drop firstSubSendCase (fd_sendCases f))"
    by (auto simp: feed_chans_def)
  then have once: "fd_once f" using good by (auto simp: feed_good_def split: if_splits)
  with good obtain cs where cs: "fd_sendCases f = \<lparr>fc_chan = RemoveSub, fc_send = None\<rparr> # cs"
    "list_all idle_case cs" "fd_sendLock f" by (auto simp: feed_good_def)
  with sc have inc: "Chan ch \<in> fc_chan ` set cs" by (simp add: firstSubSendCase_def)
  then have "Chan ch \<in> fc_chan ` set (fd_sendCases f)" using cs(1) by auto
  from delete_found[OF this]
  have "feed_remove ch f
      = Returned (f\<lparr>fd_sendCases := \<lparr>fc_chan = RemoveSub, fc_send = None\<rparr> # del_chan (Chan ch) cs\<rparr>) ()"
    using good False find_missing_iff[of "fd_inbox f" "Chan ch"] cs
    by (simp add: feed_remove_def feed_good_def Let_def)
  then show ?thesis
    using good once cs list_all_del_chan[OF cs(2)] mset_del_chan[OF inc]
    by (auto simp: feed_good_def feed_chans_def firstSubSendCase_def)
qed


text \<open>The abstract feed: a bag of channels; leaving it needs a subscription.\<close>

datatype feed_op = OpSubscribe nat | OpRemove nat

fun bag_ops :: "feed_op list \<Rightarrow> fchan multiset \<Rightarrow> fchan multiset option" where
  "bag_ops [] B = Some B"
| "bag_ops (OpSubscribe ch # ops) B = bag_ops ops (add_mset (Chan ch) B)"
| "bag_ops (OpRemove ch # ops) B = (if Chan ch \<in># B then bag_ops ops (B - {#Chan ch#}) else None)"

fun run_ops ::
  "(nat \<Rightarrow> 'f \<Rightarrow> ('f, 'a) outcome) \<Rightarrow> (nat \<Rightarrow> 'f \<Rightarrow> ('f, 'b) outcome) \<Rightarrow> feed_op list \<Rightarrow> 'f
   \<Rightarrow> ('f, unit) outcome" where
  "run_ops add del [] f = Returned f ()"
| "run_ops add del (OpSubscribe ch # ops) f =
     (case add ch f of Returned f' _ \<Rightarrow> run_ops add del ops f' | Panics f' \<Rightarrow> Panics f' | Blocks \<Rightarrow> Blocks)"
| "run_ops add del (OpRemove ch # ops) f =
     (case del ch f of Returned f' _ \<Rightarrow> run_ops add del ops f' | Panics f' \<Rightarrow> Panics f' | Blocks \<Rightarrow> Blocks)"

locale subscriber_bag =
  fixes good :: "'f \<Rightarrow> bool"
    and bag :: "'f \<Rightarrow> fchan multiset"
    and add :: "nat \<Rightarrow> 'f \<Rightarrow> ('f, 'a) outcome"
    and del :: "nat \<Rightarrow> 'f \<Rightarrow> ('f, 'b) outcome"
  assumes add_ok: "good f \<Longrightarrow> \<exists>f' r. add ch f = Returned f' r \<and> good f' \<and> bag f' = add_mset (Chan ch) (bag f)"
    and del_ok: "good f \<Longrightarrow> Chan ch \<in># bag f
      \<Longrightarrow> \<exists>f' r. del ch f = Returned f' r \<and> good f' \<and> bag f' = bag f - {#Chan ch#}"
begin

lemma run_refines:
  assumes "good f" and "bag_ops ops (bag f) = Some B"
  shows "\<exists>f'. run_ops add del ops f = Returned f' () \<and> good f' \<and> bag f' = B"
  using assms
proof (induction ops arbitrary: f)
  case (Cons op ops)
  show ?case
  proof (cases op)
    case (OpSubscribe ch)
    from add_ok[OF Cons.prems(1), of ch] obtain f' r
      where f': "add ch f = Returned f' r" "good f'" "bag f' = add_mset (Chan ch) (bag f)" by blast
    with Cons.IH[OF f'(2)] Cons.prems(2) OpSubscribe show ?thesis by simp
  next
    case (OpRemove ch)
    with Cons.prems(2) have ch: "Chan ch \<in># bag f" by (simp split: if_splits)
    from del_ok[OF Cons.prems(1) ch] obtain f' r
      where f': "del ch f = Returned f' r" "good f'" "bag f' = bag f - {#Chan ch#}" by blast
    with Cons.IH[OF f'(2)] Cons.prems(2) OpRemove ch show ?thesis by simp
  qed
qed simp

end

interpretation fb: subscriber_bag "feed_good t" feed_chans "\<lambda>ch. Subscribe (SendChan ch t)" feed_remove
  for t
proof unfold_locales
  fix f :: "'a Feed" and ch
  assume "feed_good t f"
  from Subscribe_good[OF this, of ch]
  show "\<exists>f' r. Subscribe (SendChan ch t) f = Returned f' r \<and> feed_good t f'
      \<and> feed_chans f' = add_mset (Chan ch) (feed_chans f)" by blast
next
  fix f :: "'a Feed" and ch
  assume "feed_good t f" "Chan ch \<in># feed_chans f"
  from feed_remove_good[OF this]
  show "\<exists>f' r. feed_remove ch f = Returned f' r \<and> feed_good t f'
      \<and> feed_chans f' = feed_chans f - {#Chan ch#}" by blast
qed

text \<open>C9: A feed refines a bag of channels: starting from an idle feed, every sequence of
  subscriptions and removals that the bag allows (a removal needs a subscription) runs
  without a panic and without blocking, keeps the feed well-formed, and ends with exactly
  the subscribers the bag says, duplicates counted.\<close>

theorem feed_refines_bag:
  assumes "feed_good t f" and "bag_ops ops (feed_chans f) = Some B"
  shows "\<exists>f'. run_ops (\<lambda>ch. Subscribe (SendChan ch t)) feed_remove ops f = Returned f' ()
    \<and> feed_good t f' \<and> feed_chans f' = B"
  using assms by (rule fb.run_refines)

lemma feed_refines_bag_witness:
  "\<exists>f' :: nat Feed. run_ops (\<lambda>ch. Subscribe (SendChan ch stringType)) feed_remove
      [OpSubscribe 1, OpSubscribe 2, OpSubscribe 1, OpRemove 1] zero_feed = Returned f' ()
    \<and> feed_good stringType f' \<and> feed_chans f' = {#Chan 1, Chan 2#}"
  by (rule feed_refines_bag) (simp_all add: zero_feed_good)

section \<open>Sending\<close>

lemma send_start_inv:
  assumes "feed_good t f"
  shows "\<exists>f' s. send_start v t f = Returned f' s \<and> send_inv v (feed_chans f) {#} s
    \<and> sn_n s = Suc (size (feed_chans f)) \<and> length (sn_cases s) = Suc (size (feed_chans f))
    \<and> f' = (feed_init f)\<lparr>fd_sendLock := False, fd_sendCases := sn_cases s, fd_inbox := [], fd_etype := Some t\<rparr>"
proof -
  from feed_init_good[OF assms] obtain cs where g: "feed_good t (feed_init f)"
    "feed_chans (feed_init f) = feed_chans f" "fd_sendLock (feed_init f)" "\<not> fd_mu (feed_init f)"
    "fd_sendCases (feed_init f) = \<lparr>fc_chan = RemoveSub, fc_send = None\<rparr> # cs" "list_all idle_case cs"
    by metis
  let ?f = "feed_init f" and ?put = "\<lambda>c. c\<lparr>fc_send := Some v\<rparr>"
  let ?g = "?f\<lparr>fd_sendLock := False, fd_mu := True, fd_sendCases := fd_sendCases ?f @ fd_inbox ?f, fd_inbox := []\<rparr>"
  let ?P = "map ?put (cs @ fd_inbox ?f)"
  have tc: "typecheck t ?g = (?g\<lparr>fd_etype := Some t\<rparr>, True)"
    using g(1) by (intro typecheck_good) (simp add: feed_good_def)
  have set: "set_send (Some v) (fd_sendCases ?g) = \<lparr>fc_chan = RemoveSub, fc_send = None\<rparr> # ?P"
    using g(5) by (simp add: set_send_def firstSubSendCase_def)
  have chans: "mset (map fc_chan ?P) = feed_chans f"
    using g(2,5) by (auto simp: feed_chans_def firstSubSendCase_def comp_def)
  then have len: "length ?P = size (feed_chans f)" by (metis size_mset length_map)
  have all: "list_all idle_case (cs @ fd_inbox ?f)" using g(1,6) by (simp add: feed_good_def)
  let ?s = "\<lparr>sn_cases = \<lparr>fc_chan = RemoveSub, fc_send = None\<rparr> # ?P, sn_n = Suc (length ?P),
    sn_nsent = 0, sn_log = []\<rparr>"
  have "send_start v t f = Returned (?f\<lparr>fd_sendLock := False, fd_sendCases := sn_cases ?s, fd_inbox := [],
      fd_etype := Some t\<rparr>) ?s"
    using g(3,4) tc set by (simp add: send_start_def Let_def)
  moreover have "send_inv v (feed_chans f) {#} ?s"
    unfolding send_inv_def using chans all
    by (intro exI[of _ "\<lparr>fc_chan = RemoveSub, fc_send = None\<rparr>"] exI[of _ ?P] exI[of _ "[]"] exI[of _ "{#}"])
      (auto simp: list_all_iff idle_case_def)
  ultimately show ?thesis using len by (intro exI[of _ ?s] exI conjI) auto
qed

lemma send_finish_good:
  assumes inv: "send_inv v start R s" and f: "fd_once f" "\<not> fd_mu f" "fd_inbox f = []" "fd_etype f = Some t"
  shows "feed_good t (send_finish s f)" and "feed_chans (send_finish s f) + R = start"
proof -
  from inv obtain c0 cs where cs: "sn_cases s = c0 # cs" "fc_chan c0 = RemoveSub" "fc_send c0 = None"
    "list_all (\<lambda>c. fc_chan c \<noteq> RemoveSub) cs" "mset (map fc_chan cs) + R = start"
    by (auto simp: send_inv_def list_all_iff)
  let ?z = "map (\<lambda>c. c\<lparr>fc_send := None\<rparr>) cs"
  have fin: "fd_sendCases (send_finish s f) = c0 # ?z" using cs(1)
    by (simp add: send_finish_def set_send_def firstSubSendCase_def)
  have "c0 = \<lparr>fc_chan = RemoveSub, fc_send = None\<rparr>" using cs(2,3) by simp
  with fin cs(4) f show "feed_good t (send_finish s f)"
    by (auto simp: feed_good_def send_finish_def list_all_iff idle_case_def)
  from fin cs(5) f show "feed_chans (send_finish s f) + R = start"
    by (simp add: feed_chans_def send_finish_def comp_def firstSubSendCase_def)
qed


lemma send_inv_all_sent:
  assumes "send_inv v start R s" and "sn_n s = 1"
  shows "\<exists>U. U \<subseteq># R \<and> start = mset (map fst (sn_log s)) + U
    \<and> sn_nsent s = length (sn_log s) \<and> list_all (\<lambda>e. snd e = Some v) (sn_log s)"
  using assms by (auto simp: send_inv_def)

text \<open>C8: Delivery. A \<open>Send\<close> on an idle feed ends after at most twice as many blocking
  selects as there are subscribers, whatever order the receivers accept in and whichever
  subscribers leave meanwhile. Every delivery carries the value sent; the count returned is
  the number of deliveries; every subscription got the value exactly once, apart from
  some of those removed during the send; the removed ones and no others have
  left; and the feed is idle again, with its locks free and no value kept in a case.\<close>

theorem Send_delivers:
  assumes good: "feed_good t f" and start: "send_start v t f = Returned f0 s0"
    and rounds: "rounds_ok v rounds s0" "2 * size (feed_chans f) \<le> length rounds"
  shows "\<exists>f' log R U. Send v t rounds f = Returned f' (length log, log)
    \<and> list_all (\<lambda>e. snd e = Some v) log
    \<and> feed_chans f = mset (map fst log) + U \<and> feed_chans f = feed_chans f' + R
    \<and> U \<subseteq># R \<and> R \<subseteq># removals rounds \<and> feed_good t f'"
proof -
  from send_start_inv[OF good, of v] start
  have s0: "send_inv v (feed_chans f) {#} s0" "sn_n s0 + length (sn_cases s0) = 2 * size (feed_chans f) + 2"
    and f0: "f0 = (feed_init f)\<lparr>fd_sendLock := False, fd_sendCases := sn_cases s0, fd_inbox := [], fd_etype := Some t\<rparr>"
    by auto
  have f0': "fd_once f0" "\<not> fd_mu f0" "fd_inbox f0 = []" "fd_etype f0 = Some t"
    using feed_init_good[OF good] f0 by auto
  from send_loop_inv[OF s0(1) rounds(1)] s0(2) rounds(2)
  obtain s' R where s': "send_loop v rounds s0 = Sent s'" "sn_n s' = 1" "R \<subseteq># removals rounds"
    "send_inv v (feed_chans f) R s'"
    by (auto split: send_result.splits)
  from send_inv_all_sent[OF s'(4,2)] obtain U where U: "U \<subseteq># R"
    "feed_chans f = mset (map fst (sn_log s')) + U" "sn_nsent s' = length (sn_log s')"
    "list_all (\<lambda>e. snd e = Some v) (sn_log s')" by blast
  have "Send v t rounds f = Returned (send_finish s' f0) (length (sn_log s'), sn_log s')"
    using start s'(1) U(3) by (simp add: Send_def)
  with send_finish_good[OF s'(4) f0'] U s'(3) show ?thesis
    by (intro exI[of _ "send_finish s' f0"] exI[of _ "sn_log s'"] exI[of _ R] exI[of _ U]) simp
qed

definition feed_of_two :: "nat Feed" where
  "feed_of_two = zero_feed\<lparr>fd_once := True, fd_sendLock := True,
     fd_sendCases := [\<lparr>fc_chan = RemoveSub, fc_send = None\<rparr>, \<lparr>fc_chan = Chan 1, fc_send = None\<rparr>],
     fd_inbox := [\<lparr>fc_chan = Chan 2, fc_send = None\<rparr>]\<rparr>"

lemma Send_delivers_witness:
  "\<exists>f' log R U. Send 7 stringType
      [([False, True], SelRemove 1), ([], SelSend 1), ([], SelSend 1), ([], SelSend 1)] feed_of_two
      = Returned f' (length log, log)
    \<and> list_all (\<lambda>e. snd e = Some 7) log
    \<and> feed_chans feed_of_two = mset (map fst log) + U \<and> feed_chans feed_of_two = feed_chans f' + R
    \<and> U \<subseteq># R \<and> R \<subseteq># removals [([False, True], SelRemove 1), ([], SelSend 1), ([], SelSend 1), ([], SelSend 1)]
    \<and> feed_good stringType f'"
proof -
  note ev = feed_of_two_def zero_feed_def feed_init_def typecheck_def set_send_def firstSubSendCase_def
  have good: "feed_good stringType feed_of_two" by (simp add: feed_of_two_def zero_feed_def feed_good_def idle_case_def)
  obtain f0 s0 where st: "send_start 7 stringType feed_of_two = Returned f0 s0"
    and s0: "s0 = \<lparr>sn_cases = [\<lparr>fc_chan = RemoveSub, fc_send = None\<rparr>, \<lparr>fc_chan = Chan 1, fc_send = Some 7\<rparr>,
      \<lparr>fc_chan = Chan 2, fc_send = Some 7\<rparr>], sn_n = 3, sn_nsent = 0, sn_log = []\<rparr>"
    by (simp add: send_start_def ev Let_def)
  show ?thesis
    by (rule Send_delivers[OF good st])
      (simp_all add: s0 ev deliver_def caseList_deactivate_def feed_chans_def select_step_def
        caseList_find_def caseList_delete_def Let_def)
qed

text \<open>C40: A \<open>Send\<close> of a value of another type than the feed's panics and leaves the mutex
  locked: from then on every \<open>Subscribe\<close> of a channel, every \<open>Unsubscribe\<close> that has not
  already run and every further \<open>Send\<close> blocks, whatever the types.\<close>

theorem Send_mismatch_blocks_feed:
  assumes "feed_good t f" and "fd_etype f = Some t" and "t' \<noteq> t"
  shows "\<exists>f'. Send v t' rounds f = Panics f' \<and> feed_chans f' = feed_chans f
    \<and> Subscribe (SendChan ch u) f' = Blocks \<and> Send w u rounds' f' = Blocks
    \<and> (\<forall>fs. \<not> fs_errOnce fs \<longrightarrow> feedSub_Unsubscribe fs f' = Blocks)"
proof -
  let ?i = "feed_init f"
  let ?f = "?i\<lparr>fd_mu := True, fd_sendCases := fd_sendCases ?i @ fd_inbox ?i, fd_inbox := []\<rparr>"
  from feed_init_good[OF assms(1)] obtain cs where g: "feed_chans ?i = feed_chans f" "fd_once ?i"
    "fd_sendLock ?i" "\<not> fd_mu ?i" "fd_sendCases ?i = \<lparr>fc_chan = RemoveSub, fc_send = None\<rparr> # cs"
    by metis
  have "fd_etype ?i = Some t" using assms(2) by (simp add: feed_init_def)
  with g(3,4) assms(3) have st: "send_start v t' f = Panics ?f"
    by (simp add: send_start_def typecheck_def Let_def)
  have "feed_chans ?f = feed_chans f"
    using g(1,5) by (auto simp: feed_chans_def firstSubSendCase_def)
  moreover have "feed_init ?f = ?f" using g(2) by (simp add: feed_init_def)
  ultimately show ?thesis using st
    by (intro exI[of _ ?f])
      (simp add: Send_def Subscribe_def send_start_def feedSub_Unsubscribe_def feed_remove_def Let_def)
qed

lemma Send_mismatch_blocks_feed_witness:
  "\<exists>f'. Send 7 (TPtr stringType) [] (feed_of_two\<lparr>fd_etype := Some stringType\<rparr>) = Panics f'
    \<and> feed_chans f' = feed_chans (feed_of_two\<lparr>fd_etype := Some stringType\<rparr>)
    \<and> Subscribe (SendChan 3 stringType) f' = Blocks \<and> Send 8 stringType [] f' = Blocks
    \<and> (\<forall>fs. \<not> fs_errOnce fs \<longrightarrow> feedSub_Unsubscribe fs f' = Blocks)"
  by (rule Send_mismatch_blocks_feed[where t = stringType])
    (simp_all add: feed_of_two_def zero_feed_def feed_good_def idle_case_def stringType_def)

text \<open>Unsubscribing twice removes one subscription.\<close>

lemma Unsubscribe_idempotent:
  assumes "feedSub_Unsubscribe fs f = Returned f' fs'"
  shows "feedSub_Unsubscribe fs' f' = Returned f' fs'"
  using assms by (auto simp: feedSub_Unsubscribe_def split: if_splits outcome.splits)

end
