(* ===== verification/Event_Scope.thy ===== *)
theory Event_Scope
  imports Event_Feed
begin

text \<open>
  Subscription scopes (src/pkg/event/subscription.go) and the subscriptions they track. A
  scope holds subscriptions behind an interface; the operation \<open>Unsubscribe\<close> of that
  interface is an argument of the definitions here, instantiated below with the
  subscriptions of a feed.
\<close>

section \<open>Scopes\<close>

text \<open>
  The map of tracked wrappers is nil or a list of pairs, a wrapper (by its address) and the
  subscription it wraps. \<open>sc_next\<close> is the next free address.
\<close>

record SubscriptionScope =
  sc_subs :: "(nat \<times> nat) list option"
  sc_closed :: bool
  sc_next :: nat

definition zero_scope :: SubscriptionScope where
  "zero_scope = \<lparr>sc_subs = None, sc_closed = False, sc_next = 0\<rparr>"

definition tracked :: "SubscriptionScope \<Rightarrow> (nat \<times> nat) list" where
  "tracked sc = (case sc_subs sc of None \<Rightarrow> [] | Some m \<Rightarrow> m)"

definition Track :: "nat \<Rightarrow> SubscriptionScope \<Rightarrow> SubscriptionScope \<times> nat option" where
  "Track s sc =
     (if sc_closed sc then (sc, None)
      else
       (let sc = (if sc_subs sc = None then sc\<lparr>sc_subs := Some []\<rparr> else sc);
            ss = sc_next sc
        in (sc\<lparr>sc_next := ss + 1, sc_subs := Some (tracked sc @ [(ss, s)])\<rparr>, Some ss)))"

definition Count :: "SubscriptionScope \<Rightarrow> nat" where
  "Count sc = length (tracked sc)"

fun unsubscribe_each :: "(nat \<Rightarrow> 'u \<Rightarrow> 'u option) \<Rightarrow> nat list \<Rightarrow> 'u \<Rightarrow> 'u option" where
  "unsubscribe_each unsub [] u = Some u"
| "unsubscribe_each unsub (s # ss) u =
     (case unsub s u of None \<Rightarrow> None | Some u' \<Rightarrow> unsubscribe_each unsub ss u')"

text \<open>\<open>order\<close> is the order in which \<open>range\<close> visits the map, which Go leaves open.\<close>

definition scope_Close ::
  "(nat \<Rightarrow> 'u \<Rightarrow> 'u option) \<Rightarrow> (nat \<times> nat) list \<Rightarrow> SubscriptionScope \<Rightarrow> 'u
   \<Rightarrow> (SubscriptionScope \<times> 'u) option" where
  "scope_Close unsub order sc u =
     (if sc_closed sc then Some (sc, u)
      else
       (case unsubscribe_each unsub (map snd order) u of
          None \<Rightarrow> None
        | Some u' \<Rightarrow> Some (sc\<lparr>sc_closed := True, sc_subs := None\<rparr>, u')))"

text \<open>The wrapper \<open>(ss, s)\<close>; deleting from a nil map does nothing.\<close>

definition scopeSub_Unsubscribe ::
  "(nat \<Rightarrow> 'u \<Rightarrow> 'u option) \<Rightarrow> nat \<times> nat \<Rightarrow> SubscriptionScope \<Rightarrow> 'u
   \<Rightarrow> (SubscriptionScope \<times> 'u) option" where
  "scopeSub_Unsubscribe unsub w sc u =
     (case unsub (snd w) u of
        None \<Rightarrow> None
      | Some u' \<Rightarrow>
          Some (sc\<lparr>sc_subs := map_option (filter (\<lambda>e. fst e \<noteq> fst w)) (sc_subs sc)\<rparr>, u'))"

section \<open>A feed with its subscriptions\<close>

text \<open>The subscriptions a feed has handed out, in order; one is named by its position.\<close>

record 'v pubsub =
  ps_feed :: "'v Feed"
  ps_subs :: "feedSub list"

definition ps_subscribe :: "gtype \<Rightarrow> nat \<Rightarrow> 'v pubsub \<Rightarrow> 'v pubsub option" where
  "ps_subscribe t ch ps =
     (case Subscribe (SendChan ch t) (ps_feed ps) of
        Returned f ch' \<Rightarrow>
          Some \<lparr>ps_feed = f,
            ps_subs = ps_subs ps @ [\<lparr>fs_channel = ch', fs_errOnce = False, fs_err_closed = False\<rparr>]\<rparr>
      | _ \<Rightarrow> None)"

definition ps_unsubscribe :: "nat \<Rightarrow> 'v pubsub \<Rightarrow> 'v pubsub option" where
  "ps_unsubscribe i ps =
     (if i < length (ps_subs ps) then
        (case feedSub_Unsubscribe (ps_subs ps ! i) (ps_feed ps) of
           Returned f fs \<Rightarrow> Some \<lparr>ps_feed = f, ps_subs = (ps_subs ps)[i := fs]\<rparr>
         | _ \<Rightarrow> None)
      else Some ps)"

text \<open>The live subscriptions are the ones not yet cancelled; the feed has exactly their channels.\<close>

definition live :: "'v pubsub \<Rightarrow> nat set" where
  "live ps = {i. i < length (ps_subs ps) \<and> \<not> fs_errOnce (ps_subs ps ! i)}"

definition live_chans :: "feedSub list \<Rightarrow> fchan multiset" where
  "live_chans subs = mset (map (\<lambda>fs. Chan (fs_channel fs)) (filter (\<lambda>fs. \<not> fs_errOnce fs) subs))"

definition ps_inv :: "gtype \<Rightarrow> 'v pubsub \<Rightarrow> bool" where
  "ps_inv t ps \<longleftrightarrow> feed_good t (ps_feed ps) \<and> feed_chans (ps_feed ps) = live_chans (ps_subs ps)
     \<and> list_all (\<lambda>fs. fs_err_closed fs = fs_errOnce fs) (ps_subs ps)"

lemma live_chans_update:
  assumes "i < length subs" and "\<not> fs_errOnce (subs ! i)" and "fs_errOnce fs'"
  shows "live_chans subs = add_mset (Chan (fs_channel (subs ! i))) (live_chans (subs[i := fs']))"
proof -
  have "subs = take i subs @ subs ! i # drop (Suc i) subs" using assms(1) by (rule id_take_nth_drop)
  moreover have "subs[i := fs'] = take i subs @ fs' # drop (Suc i) subs"
    using assms(1) by (rule upd_conv_take_nth_drop)
  ultimately show ?thesis using assms(2,3)
    by (metis (no_types, lifting) live_chans_def filter.simps(2) filter_append list.simps(9) map_append mset.simps(2)
        mset_append union_mset_add_mset_right)
qed

lemma live_chans_mem: "i < length subs \<Longrightarrow> \<not> fs_errOnce (subs ! i) \<Longrightarrow> Chan (fs_channel (subs ! i)) \<in># live_chans subs"
  by (auto simp: live_chans_def)

lemma ps_subscribe_ok:
  assumes "ps_inv t ps"
  shows "\<exists>ps'. ps_subscribe t ch ps = Some ps' \<and> ps_inv t ps'
    \<and> live ps' = insert (length (ps_subs ps)) (live ps)"
proof -
  from assms have good: "feed_good t (ps_feed ps)" by (simp add: ps_inv_def)
  from Subscribe_good[OF good, of ch] obtain f' where f': "Subscribe (SendChan ch t) (ps_feed ps) = Returned f' ch"
    "feed_good t f'" "feed_chans f' = add_mset (Chan ch) (feed_chans (ps_feed ps))" by blast
  show ?thesis using assms f'
    by (auto simp: ps_subscribe_def ps_inv_def live_def live_chans_def nth_append less_Suc_eq)
qed

lemma ps_unsubscribe_ok:
  assumes "ps_inv t ps"
  shows "\<exists>ps'. ps_unsubscribe i ps = Some ps' \<and> ps_inv t ps' \<and> live ps' = live ps - {i}"
proof (cases "i \<in> live ps")
  case False
  then show ?thesis using assms
    by (auto simp: ps_unsubscribe_def live_def feedSub_Unsubscribe_def ps_inv_def)
next
  case True
  let ?fs = "ps_subs ps ! i"
  let ?done = "?fs\<lparr>fs_errOnce := True, fs_err_closed := True\<rparr>"
  from True have i: "i < length (ps_subs ps)" "\<not> fs_errOnce ?fs" by (simp_all add: live_def)
  from assms have good: "feed_good t (ps_feed ps)" "feed_chans (ps_feed ps) = live_chans (ps_subs ps)"
    by (simp_all add: ps_inv_def)
  have "Chan (fs_channel ?fs) \<in># feed_chans (ps_feed ps)" using live_chans_mem[OF i] good(2) by simp
  from feed_remove_good[OF good(1) this] obtain f' where f': "feed_remove (fs_channel ?fs) (ps_feed ps) = Returned f' ()"
    "feed_good t f'" "feed_chans f' = feed_chans (ps_feed ps) - {#Chan (fs_channel ?fs)#}" by blast
  let ?ps = "\<lparr>ps_feed = f', ps_subs = (ps_subs ps)[i := ?done]\<rparr>"
  have "ps_unsubscribe i ps = Some ?ps"
    using i f'(1) by (simp add: ps_unsubscribe_def feedSub_Unsubscribe_def)
  moreover have "ps_inv t ?ps"
    using assms f'(2,3) live_chans_update[OF i, of ?done] good(2) i(1)
    by (auto simp: ps_inv_def list_all_iff dest: set_update_subset_insert[THEN subsetD])
  moreover have "live ?ps = live ps - {i}"
    using i by (auto simp: live_def nth_list_update)
  ultimately show ?thesis by blast
qed

section \<open>The interface\<close>

text \<open>What a scope relies on: cancelling never fails, and ends that subscription and no other.\<close>

locale subscription =
  fixes ok :: "'u \<Rightarrow> bool"
    and active :: "'u \<Rightarrow> nat set"
    and unsub :: "nat \<Rightarrow> 'u \<Rightarrow> 'u option"
  assumes unsub_ok: "ok u \<Longrightarrow> \<exists>u'. unsub i u = Some u' \<and> ok u' \<and> active u' = active u - {i}"
begin

lemma each_ok:
  "ok u \<Longrightarrow> \<exists>u'. unsubscribe_each unsub ss u = Some u' \<and> ok u' \<and> active u' = active u - set ss"
proof (induction ss arbitrary: u)
  case (Cons s ss)
  from unsub_ok[OF Cons.prems, of s] obtain v where v: "unsub s u = Some v" "ok v" "active v = active u - {s}"
    by blast
  from Cons.IH[OF v(2)] v(1,3) show ?case by auto
qed simp

lemma Close_ok:
  assumes "ok u" and "\<not> sc_closed sc" and "mset order = mset (tracked sc)"
  shows "\<exists>sc' u'. scope_Close unsub order sc u = Some (sc', u') \<and> ok u'
    \<and> active u' = active u - snd ` set (tracked sc) \<and> sc_closed sc' \<and> Count sc' = 0"
proof -
  from each_ok[OF assms(1), of "map snd order"] obtain u' where
    "unsubscribe_each unsub (map snd order) u = Some u'" "ok u'" "active u' = active u - snd ` set order" by auto
  moreover have "set order = set (tracked sc)" using assms(3) by (rule mset_eq_setD)
  ultimately show ?thesis using assms(2) by (simp add: scope_Close_def Count_def tracked_def)
qed

lemma Unsubscribe_ok:
  assumes "ok u"
  shows "\<exists>sc' u'. scopeSub_Unsubscribe unsub w sc u = Some (sc', u') \<and> ok u' \<and> active u' = active u - {snd w}
    \<and> tracked sc' = filter (\<lambda>e. fst e \<noteq> fst w) (tracked sc)"
proof -
  from unsub_ok[OF assms, of "snd w"] obtain u' where u': "unsub (snd w) u = Some u'" "ok u'"
    "active u' = active u - {snd w}" by blast
  let ?sc = "sc\<lparr>sc_subs := map_option (filter (\<lambda>e. fst e \<noteq> fst w)) (sc_subs sc)\<rparr>"
  have "tracked ?sc = filter (\<lambda>e. fst e \<noteq> fst w) (tracked sc)"
    by (cases "sc_subs sc") (simp_all add: tracked_def)
  with u' show ?thesis by (simp add: scopeSub_Unsubscribe_def)
qed

end

interpretation feed_subs: subscription "ps_inv t" live ps_unsubscribe
  for t
  by unfold_locales (rule ps_unsubscribe_ok)

text \<open>C11: Closing a scope. If the subscriptions of a feed and the feed agree, then closing
  an open scope, in whatever order the map is visited, panics in no subscription, cancels
  every tracked subscription that was still live and no other, leaves the feed with exactly
  the channels of the subscriptions that stay live, and leaves the scope empty; a later
  \<open>Track\<close> returns nil and a later \<open>Close\<close> does nothing.\<close>

theorem Close_cancels_tracked:
  assumes "ps_inv t ps" and "\<not> sc_closed sc" and "mset order = mset (tracked sc)"
  shows "\<exists>sc' ps'. scope_Close ps_unsubscribe order sc ps = Some (sc', ps')
    \<and> live ps' = live ps - snd ` set (tracked sc) \<and> feed_chans (ps_feed ps') = live_chans (ps_subs ps')
    \<and> Count sc' = 0 \<and> Track s sc' = (sc', None) \<and> scope_Close ps_unsubscribe order' sc' ps' = Some (sc', ps')"
proof -
  from feed_subs.Close_ok[OF assms] obtain sc' ps' where
    "scope_Close ps_unsubscribe order sc ps = Some (sc', ps')" "ps_inv t ps'"
    "live ps' = live ps - snd ` set (tracked sc)" "sc_closed sc'" "Count sc' = 0" by blast
  then show ?thesis by (auto simp: ps_inv_def Track_def scope_Close_def)
qed

definition scope_of_two :: SubscriptionScope where
  "scope_of_two = fst (Track 1 (fst (Track 0 zero_scope)))"

definition pubsub_of_two :: "nat pubsub" where
  "pubsub_of_two = \<lparr>ps_feed = feed_of_two,
     ps_subs = [\<lparr>fs_channel = 1, fs_errOnce = False, fs_err_closed = False\<rparr>,
                \<lparr>fs_channel = 2, fs_errOnce = False, fs_err_closed = False\<rparr>]\<rparr>"

lemma Close_cancels_tracked_witness:
  "\<exists>sc' ps'. scope_Close ps_unsubscribe [(1, 1), (0, 0)] scope_of_two pubsub_of_two = Some (sc', ps')
    \<and> live ps' = live pubsub_of_two - snd ` set (tracked scope_of_two)
    \<and> feed_chans (ps_feed ps') = live_chans (ps_subs ps')
    \<and> Count sc' = 0 \<and> Track 5 sc' = (sc', None) \<and> scope_Close ps_unsubscribe [] sc' ps' = Some (sc', ps')"
  by (rule Close_cancels_tracked[where t = stringType])
    (simp_all add: ps_inv_def pubsub_of_two_def feed_of_two_def zero_feed_def feed_good_def idle_case_def
      feed_chans_def firstSubSendCase_def live_chans_def scope_of_two_def Track_def tracked_def zero_scope_def Let_def)

text \<open>Tracking hands out a new wrapper; cancelling through the wrapper undoes the tracking.\<close>

definition scope_inv :: "SubscriptionScope \<Rightarrow> bool" where
  "scope_inv sc \<longleftrightarrow> (\<forall>e\<in>set (tracked sc). fst e < sc_next sc) \<and> distinct (map fst (tracked sc))"

lemma Track_inv:
  assumes "scope_inv sc" "Track s sc = (sc', Some w)"
  shows "scope_inv sc'" and "tracked sc' = tracked sc @ [(w, s)]" and "w \<notin> fst ` set (tracked sc)"
  using assms by (fastforce simp: scope_inv_def Track_def tracked_def Let_def split: if_splits option.splits)+

lemma Track_then_Unsubscribe:
  assumes inv: "scope_inv sc" and tr: "Track s sc = (sc', Some w)" and ps: "ps_inv t ps"
  shows "\<exists>sc'' ps'. scopeSub_Unsubscribe ps_unsubscribe (w, s) sc' ps = Some (sc'', ps')
    \<and> tracked sc'' = tracked sc \<and> s \<notin> live ps'"
proof -
  from feed_subs.Unsubscribe_ok[OF ps, of "(w, s)" sc'] obtain sc'' ps' where
    u: "scopeSub_Unsubscribe ps_unsubscribe (w, s) sc' ps = Some (sc'', ps')" "live ps' = live ps - {s}"
      "tracked sc'' = filter (\<lambda>e. fst e \<noteq> w) (tracked sc')" by auto
  have "filter (\<lambda>e. fst e \<noteq> w) (tracked sc) = tracked sc"
    using Track_inv(3)[OF inv tr] by (force simp: filter_id_conv)
  with u Track_inv(2)[OF inv tr] show ?thesis by simp
qed

end
