(* ===== verification/Service_Registry.thy ===== *)
theory Service_Registry
  imports Go_Json "HOL-Library.AList"
begin

text \<open>
  Service discovery (src/pkg/registry): the description of a service with its tags
  (entity.go), and its registration in etcd (etcd.go) and consul (consul.go). The clients
  of etcd and consul are arguments; what the theorems need of them is a named hypothesis.
  A panic is \<open>None\<close>. The maps in which services are collected are association lists with
  unique keys, in the order of insertion; the order in which Go lists a map is open, so a
  list built from a map is returned as a multiset.
\<close>

section \<open>entity.go\<close>

definition DefaultPrefixService :: string where "DefaultPrefixService = ''airman''"
definition DefaultTagService :: string where "DefaultTagService = ''service''"

record Node =
  nd_Id :: string
  nd_Host :: string
  nd_Port :: int

text \<open>The tags of a node and the field \<open>TTL\<close> of a service are never used.\<close>

record reg_Service =
  rs_Name :: string
  rs_Version :: string
  rs_Check :: string
  rs_Tags :: "string list"
  rs_Nodes :: "Node list"

definition NewService :: "string \<Rightarrow> string \<Rightarrow> string \<Rightarrow> int \<Rightarrow> reg_Service" where
  "NewService name version address port =
     (let hostIP = (if address = '''' then ''127.0.0.1'' else address);
          hostPort = (if port = 0 then 8500 else port);
          node = \<lparr>nd_Id = ''/'' @ DefaultPrefixService @ ''/'' @ name @ version @ ''/'' @ hostIP @ ''/'' @ fmt_d hostPort,
                  nd_Host = hostIP, nd_Port = hostPort\<rparr>
      in \<lparr>rs_Name = name, rs_Version = version, rs_Check = '''', rs_Tags = [], rs_Nodes = [node]\<rparr>)"

text \<open>On a service whose list of nodes is empty but not nil the source would panic; the only
  lists it builds are nil or non-empty.\<close>

definition GetTags :: "reg_Service \<Rightarrow> string list" where
  "GetTags s =
     [''a-'' @ DefaultTagService]
     @ (if rs_Version s \<noteq> '''' then [''v-'' @ rs_Version s] else [])
     @ (case rs_Nodes s of [] \<Rightarrow> [] | n # _ \<Rightarrow> if nd_Host n \<noteq> '''' then [''h-'' @ nd_Host n] else [])"

definition GetId :: "reg_Service \<Rightarrow> string" where
  "GetId s = (case rs_Nodes s of [] \<Rightarrow> '''' | n # _ \<Rightarrow> nd_Id n)"

fun tagsVersion :: "string list \<Rightarrow> string" where
  "tagsVersion [] = ''''"
| "tagsVersion (t # tags) = (if HasPrefix t ''v-'' then drop 2 t else tagsVersion tags)"

fun tagsHost :: "string list \<Rightarrow> string" where
  "tagsHost [] = ''''"
| "tagsHost (t # tags) = (if HasPrefix t ''h-'' then drop 2 t else tagsHost tags)"

text \<open>Slicing a text of less than two bytes from its second byte panics.\<close>

fun tagsCheck :: "string list \<Rightarrow> string \<Rightarrow> string option" where
  "tagsCheck [] input = Some ''''"
| "tagsCheck (t # tags) input =
     (if t = input then (if length t < 2 then None else Some (drop 2 t)) else tagsCheck tags input)"

section \<open>strconv.Atoi\<close>

text \<open>The value that \<open>Atoi\<close> returns beside its error: zero on a syntax error, the nearest
  \<open>int64\<close> on a range error.\<close>

definition Atoi :: "string \<Rightarrow> int" where
  "Atoi s =
     (let neg = HasPrefix s ''-'';
          digs = (if neg \<or> HasPrefix s ''+'' then drop 1 s else s)
      in case ParseUint digs 10 of
           (_, Some ErrSyntaxNum) \<Rightarrow> 0
         | (un, _) \<Rightarrow>
             if neg then - min (uint un) (2 ^ 63) else min (uint un) (2 ^ 63 - 1))"

section \<open>etcd.go\<close>

datatype registry_error = NoNode | ErrNilKey | ClientError string

type_synonym kvs = "(string \<times> string) list"

text \<open>
  The collected services: a new key starts a service with the tags of this entry, and the
  node is added to the service of the key.
\<close>

definition add_node ::
  "string \<Rightarrow> string \<Rightarrow> string \<Rightarrow> string list \<Rightarrow> Node \<Rightarrow> (string \<times> reg_Service) list
   \<Rightarrow> (string \<times> reg_Service) list" where
  "add_node key name version tags node m =
     (let svc = (case map_of m key of
                   Some s \<Rightarrow> s
                 | None \<Rightarrow> \<lparr>rs_Name = name, rs_Version = version, rs_Check = '''', rs_Tags = tags, rs_Nodes = []\<rparr>)
      in AList.update key (svc\<lparr>rs_Nodes := rs_Nodes svc @ [node]\<rparr>) m)"

fun etcd_collect ::
  "string \<Rightarrow> string \<Rightarrow> kvs \<Rightarrow> (string \<times> reg_Service) list \<Rightarrow> (string \<times> reg_Service) list option" where
  "etcd_collect name tag [] m = Some m"
| "etcd_collect name tag ((k, v) # rest) m =
     (let tags = Split v (CHR '','');
          keys = Split k (CHR ''/'')
      in if length keys < 4 \<or> keys ! 2 \<noteq> name then etcd_collect name tag rest m
         else
          (let version = tagsVersion tags;
               address = (if keys ! 3 = '''' then tagsHost tags else keys ! 3)
           in case tagsCheck tags tag of
                None \<Rightarrow> None
              | Some chk \<Rightarrow>
                 (let key = (if tag = '''' then version else chk)
                  in if length keys < 5 then None
                     else etcd_collect name tag rest
                            (add_node key name version tags
                              \<lparr>nd_Id = k, nd_Host = address, nd_Port = Atoi (keys ! 4)\<rparr> m))))"

text \<open>\<open>get\<close> is the client's prefix query: the entries, an error, or no response.\<close>

definition etcd_GetService ::
  "(string \<Rightarrow> string + kvs option) \<Rightarrow> string \<Rightarrow> string
   \<Rightarrow> (registry_error + reg_Service multiset) option" where
  "etcd_GetService get name tag =
     (if name = '''' then Some (Inl ErrNilKey)
      else
       (case get (''/'' @ DefaultPrefixService @ ''/'' @ name) of
          Inl err \<Rightarrow> Some (Inl (ClientError err))
        | Inr None \<Rightarrow> Some (Inr {#})
        | Inr (Some kvs) \<Rightarrow> map_option (\<lambda>m. Inr (mset (map snd m))) (etcd_collect name tag kvs [])))"

definition named_service :: "string \<Rightarrow> reg_Service" where
  "named_service name = \<lparr>rs_Name = name, rs_Version = '''', rs_Check = '''', rs_Tags = [], rs_Nodes = []\<rparr>"

definition etcd_ListServices :: "(string \<Rightarrow> string + kvs option) \<Rightarrow> registry_error + reg_Service list" where
  "etcd_ListServices get =
     (case get (''/'' @ DefaultPrefixService) of
        Inl err \<Rightarrow> Inl (ClientError err)
      | Inr None \<Rightarrow> Inr []
      | Inr (Some kvs) \<Rightarrow>
          Inr (map (\<lambda>(k, v). named_service (Split k (CHR ''/'') ! 2))
                (filter (\<lambda>(k, v). length (Split k (CHR ''/'')) > 3) kvs)))"

text \<open>The calls on the client, with their errors, over a state of the store.\<close>

definition etcd_Register ::
  "(string \<Rightarrow> string \<Rightarrow> 's \<Rightarrow> 's \<times> string option) \<Rightarrow> reg_Service \<Rightarrow> 's \<Rightarrow> 's \<times> registry_error option" where
  "etcd_Register put s st =
     (case rs_Nodes s of
        [] \<Rightarrow> (st, Some NoNode)
      | node # _ \<Rightarrow>
          (let (st', err) = put (nd_Id node) (Join (GetTags s) (CHR '','')) st
           in (st', map_option ClientError err)))"

definition etcd_Deregister ::
  "(string \<Rightarrow> 's \<Rightarrow> 's \<times> string option) \<Rightarrow> reg_Service \<Rightarrow> 's \<Rightarrow> 's \<times> registry_error option" where
  "etcd_Deregister del s st =
     (case rs_Nodes s of
        [] \<Rightarrow> (st, Some NoNode)
      | node # _ \<Rightarrow> (let (st', err) = del (nd_Id node) st in (st', map_option ClientError err)))"

text \<open>
  With a time to live: \<open>grant\<close> answers with a lease or, on an error that is ignored, with
  nil, whose use panics. \<open>get1\<close> queries one key; \<open>True\<close> marks the error for a missing key.
\<close>

definition etcd_RegisterWithTTL ::
  "(int \<Rightarrow> 's \<Rightarrow> 's \<times> nat option) \<Rightarrow> (string \<Rightarrow> 's \<Rightarrow> (string \<times> bool) option)
   \<Rightarrow> (string \<Rightarrow> string \<Rightarrow> nat \<Rightarrow> 's \<Rightarrow> 's \<times> string option) \<Rightarrow> reg_Service \<Rightarrow> int \<Rightarrow> 's
   \<Rightarrow> ('s \<times> registry_error option) option" where
  "etcd_RegisterWithTTL grant get1 put s timeTTL st =
     (case rs_Nodes s of
        [] \<Rightarrow> Some (st, Some NoNode)
      | node # _ \<Rightarrow>
          (let val = Join (GetTags s) (CHR '','');
               (st1, resp) = grant timeTTL st;
               store = (case resp of
                          None \<Rightarrow> None
                        | Some lease \<Rightarrow>
                            (let (st2, err) = put (nd_Id node) val lease st1
                             in Some (st2, map_option ClientError err)))
           in case get1 (nd_Id node) st1 of
                Some (err, notFound) \<Rightarrow> if notFound then store else Some (st1, Some (ClientError err))
              | None \<Rightarrow> store))"


section \<open>consul.go\<close>

text \<open>A duration is its number of nanoseconds, an \<open>int64\<close> whose addition wraps around.\<close>

definition second :: int where "second = 1000000000"
definition DefaultInterval :: int where "DefaultInterval = 10 * second"

definition wrap64 :: "int \<Rightarrow> int" where
  "wrap64 i = (i + 2 ^ 63) mod 2 ^ 64 - 2 ^ 63"

definition getDeregisterTTL :: "int \<Rightarrow> int" where
  "getDeregisterTTL t =
     (let deregTTL = wrap64 (t + DefaultInterval)
      in if t < 2 * (60 * second) then 2 * (60 * second) else deregTTL)"

text \<open>\<open>net.SplitHostPort\<close>, an argument, gives host and port, or whether the port is missing.\<close>

definition consul_address :: "(string \<Rightarrow> bool + string \<times> string) \<Rightarrow> string \<Rightarrow> string \<Rightarrow> string" where
  "consul_address splitHostPort defaultAddr address =
     (if address = '''' then defaultAddr
      else
       (case splitHostPort address of
          Inl missingPort \<Rightarrow> if missingPort then address @ '':'' @ ''8500'' else defaultAddr
        | Inr (addr, port) \<Rightarrow> addr @ '':'' @ port))"

text \<open>Building the registries: \<open>newClient\<close> connects to the given addresses or fails. A failure ends the
  process for etcd (\<open>None\<close>).\<close>

record 'cl ConsulRegistry =
  cr_addr :: string
  cr_client :: 'cl
  cr_timeout :: int
  cr_AllowStale :: bool

definition NewConsulRegistry ::
  "(string \<Rightarrow> bool + string \<times> string) \<Rightarrow> string \<Rightarrow> (string \<Rightarrow> 'e + 'cl) \<Rightarrow> string \<Rightarrow> int \<Rightarrow> 'e + 'cl ConsulRegistry" where
  "NewConsulRegistry splitHostPort defaultAddr newClient address timeout =
     (let addr = consul_address splitHostPort defaultAddr address in
      case newClient addr of
        Inl err \<Rightarrow> Inl err
      | Inr client \<Rightarrow> Inr \<lparr>cr_addr = addr, cr_client = client, cr_timeout = timeout, cr_AllowStale = True\<rparr>)"

definition consul_Close :: "'cl ConsulRegistry \<Rightarrow> string option" where
  "consul_Close c = None"

record 'cl EtcdRegistry =
  eg_dailTimeOut :: int
  eg_reqTimeout :: int
  eg_endPoints :: "string list"
  eg_client :: 'cl

definition NewEtcdRegistry ::
  "(string list \<Rightarrow> int \<Rightarrow> 'e + 'cl) \<Rightarrow> int \<Rightarrow> int \<Rightarrow> string list \<Rightarrow> 'cl EtcdRegistry option" where
  "NewEtcdRegistry newClient tmDail tmReq endPoints =
     (case newClient endPoints tmDail of
        Inl err \<Rightarrow> None
      | Inr cli \<Rightarrow> Some \<lparr>eg_dailTimeOut = tmDail, eg_reqTimeout = tmReq, eg_endPoints = endPoints, eg_client = cli\<rparr>)"

definition etcd_Close :: "('cl \<Rightarrow> 'cl) \<Rightarrow> 'cl EtcdRegistry option \<Rightarrow> 'cl EtcdRegistry option \<times> string option" where
  "etcd_Close closeClient c =
     (case c of
        None \<Rightarrow> (None, None)
      | Some c \<Rightarrow> (Some (c\<lparr>eg_client := closeClient (eg_client c)\<rparr>), None))"

text \<open>The durations of a check are kept as durations; the source sends their text.\<close>

record AgentServiceCheck =
  ck_Name :: string
  ck_Notes :: string
  ck_TTL :: "int option"
  ck_HTTP :: string
  ck_Interval :: string
  ck_Timeout :: string
  ck_DeregisterAfter :: int

record AgentServiceRegistration =
  ar_ID :: string
  ar_Name :: string
  ar_Tags :: "string list"
  ar_Port :: int
  ar_Address :: string
  ar_Check :: AgentServiceCheck

definition registration :: "reg_Service \<Rightarrow> Node \<Rightarrow> AgentServiceCheck \<Rightarrow> AgentServiceRegistration" where
  "registration s node check =
     \<lparr>ar_ID = nd_Id node, ar_Name = rs_Name s, ar_Tags = GetTags s, ar_Port = nd_Port node,
      ar_Address = nd_Host node, ar_Check = check\<rparr>"

definition consul_RegisterWithTTL ::
  "(string \<Rightarrow> 's \<Rightarrow> 's \<times> string option) \<Rightarrow> (AgentServiceRegistration \<Rightarrow> 's \<Rightarrow> 's \<times> string option)
   \<Rightarrow> reg_Service \<Rightarrow> int \<Rightarrow> 's \<Rightarrow> 's \<times> registry_error option" where
  "consul_RegisterWithTTL passTTL serviceRegister s timeTTL st =
     (case rs_Nodes s of
        [] \<Rightarrow> (st, Some NoNode)
      | node # _ \<Rightarrow>
          (case passTTL (''service:'' @ nd_Id node) st of
             (st1, None) \<Rightarrow> (st1, None)
           | (st1, Some _) \<Rightarrow>
              (let check = \<lparr>ck_Name = rs_Name s, ck_Notes = nd_Id node, ck_TTL = Some timeTTL, ck_HTTP = '''',
                            ck_Interval = '''', ck_Timeout = '''', ck_DeregisterAfter = getDeregisterTTL timeTTL\<rparr>
               in case serviceRegister (registration s node check) st1 of
                    (st2, Some err) \<Rightarrow> (st2, Some (ClientError err))
                  | (st2, None) \<Rightarrow>
                      if timeTTL = 0 then (st2, None)
                      else (let (st3, err) = passTTL (''service:'' @ nd_Id node) st2
                            in (st3, map_option ClientError err)))))"

definition health_url :: "Node \<Rightarrow> string \<Rightarrow> string" where
  "health_url node check =
     (if check = '''' then ''http://'' @ nd_Host node @ '':'' @ fmt_d (nd_Port node)
      else ''http://'' @ nd_Host node @ '':'' @ fmt_d (nd_Port node) @ ''/'' @ check)"

definition consul_Register ::
  "(string \<Rightarrow> 's \<Rightarrow> 's \<times> string option) \<Rightarrow> (AgentServiceRegistration \<Rightarrow> 's \<Rightarrow> 's \<times> string option)
   \<Rightarrow> reg_Service \<Rightarrow> 's \<Rightarrow> 's \<times> registry_error option" where
  "consul_Register passTTL serviceRegister s st =
     (case rs_Nodes s of
        [] \<Rightarrow> (st, Some NoNode)
      | node # _ \<Rightarrow>
          (case passTTL (''service:'' @ nd_Id node) st of
             (st1, None) \<Rightarrow> (st1, None)
           | (st1, Some _) \<Rightarrow>
              (let check = \<lparr>ck_Name = rs_Name s, ck_Notes = nd_Id node, ck_TTL = None,
                            ck_HTTP = health_url node (rs_Check s), ck_Interval = ''10s'', ck_Timeout = ''30s'',
                            ck_DeregisterAfter = getDeregisterTTL 0\<rparr>;
                   (st2, err) = serviceRegister (registration s node check) st1
               in (st2, map_option ClientError err))))"

definition consul_Deregister ::
  "(string \<Rightarrow> 's \<Rightarrow> 's \<times> string option) \<Rightarrow> reg_Service \<Rightarrow> 's \<Rightarrow> 's \<times> registry_error option" where
  "consul_Deregister serviceDeregister s st =
     (case rs_Nodes s of
        [] \<Rightarrow> (st, Some NoNode)
      | node # _ \<Rightarrow> (let (st', err) = serviceDeregister (nd_Id node) st in (st', map_option ClientError err)))"

text \<open>What the program reads of an entry of the health query.\<close>

record ServiceEntry =
  se_Service :: string
  se_ID :: string
  se_Tags :: "string list"
  se_Address :: string
  se_Port :: int
  se_NodeAddress :: string
  se_Checks :: "string list"

fun consul_collect ::
  "string \<Rightarrow> string \<Rightarrow> ServiceEntry list \<Rightarrow> (string \<times> reg_Service) list \<Rightarrow> (string \<times> reg_Service) list option" where
  "consul_collect name tag [] m = Some m"
| "consul_collect name tag (s # rest) m =
     (if se_Service s \<noteq> name then consul_collect name tag rest m
      else if list_ex (\<lambda>status. status = ''critical'') (se_Checks s) then consul_collect name tag rest m
      else
       (let version = tagsVersion (se_Tags s);
            address = (if se_Address s = '''' then se_NodeAddress s else se_Address s)
        in case tagsCheck (se_Tags s) tag of
             None \<Rightarrow> None
           | Some chk \<Rightarrow>
               consul_collect name tag rest
                 (add_node (if tag = '''' then version else chk) (se_Service s) version (se_Tags s)
                   \<lparr>nd_Id = se_ID s, nd_Host = address, nd_Port = se_Port s\<rparr> m)))"

definition consul_GetService ::
  "(string \<Rightarrow> string \<Rightarrow> string + ServiceEntry list) \<Rightarrow> string \<Rightarrow> string
   \<Rightarrow> (registry_error + reg_Service multiset) option" where
  "consul_GetService health name tag =
     (case health name tag of
        Inl err \<Rightarrow> Some (Inl (ClientError err))
      | Inr rsp \<Rightarrow> map_option (\<lambda>m. Inr (mset (map snd m))) (consul_collect name tag rsp []))"

definition consul_ListServices :: "(string + string list) \<Rightarrow> registry_error + reg_Service multiset" where
  "consul_ListServices catalog =
     (case catalog of
        Inl err \<Rightarrow> Inl (ClientError err)
      | Inr names \<Rightarrow> Inr (mset (map named_service names)))"

section \<open>Collecting services\<close>

text \<open>All nodes of a collection, whatever service they belong to.\<close>

definition all_nodes :: "(string \<times> reg_Service) list \<Rightarrow> Node multiset" where
  "all_nodes m = (\<Sum>e \<in># mset m. mset (rs_Nodes (snd e)))"

lemma all_nodes_simps [simp]:
  "all_nodes [] = {#}" "all_nodes ((k, s) # m) = mset (rs_Nodes s) + all_nodes m"
  by (simp_all add: all_nodes_def)

lemma all_nodes_update:
  "all_nodes (AList.update k s m) + (case map_of m k of None \<Rightarrow> {#} | Some s' \<Rightarrow> mset (rs_Nodes s'))
   = all_nodes m + mset (rs_Nodes s)"
  by (induction m) (auto split: option.splits)

lemma add_node_nodes: "all_nodes (add_node key name version tags node m) = add_mset node (all_nodes m)"
proof (cases "map_of m key")
  case None
  then show ?thesis using all_nodes_update[of key _ m] by (simp add: add_node_def)
next
  case (Some s)
  then show ?thesis using all_nodes_update[of key "s\<lparr>rs_Nodes := rs_Nodes s @ [node]\<rparr>" m]
    by (simp add: add_node_def)
qed

text \<open>Every collected service has the name asked for, some node, and a key of its own.\<close>

definition collected :: "string \<Rightarrow> (string \<times> reg_Service) list \<Rightarrow> bool" where
  "collected name m \<longleftrightarrow> distinct (map fst m) \<and> (\<forall>e\<in>set m. rs_Name (snd e) = name \<and> rs_Nodes (snd e) \<noteq> [])"

lemma collected_Nil [simp]: "collected name []"
  by (simp add: collected_def)

lemma collected_update:
  assumes "collected name m" "rs_Name t = name" "rs_Nodes t \<noteq> []"
  shows "collected name (AList.update key t m)"
proof -
  have "\<forall>e\<in>set (AList.update key t m). e = (key, t) \<or> e \<in> set m"
    by (induction m) auto
  with assms show ?thesis by (auto simp: collected_def distinct_update)
qed

lemma collected_add:
  assumes "collected name m"
  shows "collected name (add_node key name version tags node m)"
proof (cases "map_of m key")
  case None
  then show ?thesis unfolding add_node_def Let_def by (auto intro!: collected_update[OF assms])
next
  case (Some s)
  with assms have "rs_Name s = name" by (auto simp: collected_def dest!: map_of_SomeD)
  with Some show ?thesis by (simp add: add_node_def collected_update[OF assms])
qed


text \<open>
  What the two registries share: entries that are not wanted are skipped, a wanted entry
  that is malformed ends in a panic, and every other wanted entry adds its node.
\<close>

locale service_collector =
  fixes collect :: "'e list \<Rightarrow> (string \<times> reg_Service) list \<Rightarrow> (string \<times> reg_Service) list option"
    and name :: string
    and wanted :: "'e \<Rightarrow> bool"
    and bad :: "'e \<Rightarrow> bool"
    and node :: "'e \<Rightarrow> Node"
  assumes collect_Nil: "collect [] m = Some m"
    and collect_skip: "\<not> wanted e \<Longrightarrow> collect (e # es) m = collect es m"
    and collect_bad: "wanted e \<Longrightarrow> bad e \<Longrightarrow> collect (e # es) m = None"
    and collect_add: "wanted e \<Longrightarrow> \<not> bad e \<Longrightarrow>
      \<exists>key version tags. collect (e # es) m = collect es (add_node key name version tags (node e) m)"
begin

lemma collect_outcome:
  assumes "collected name m"
  shows "case collect es m of
      None \<Rightarrow> list_ex (\<lambda>e. wanted e \<and> bad e) es
    | Some m' \<Rightarrow> \<not> list_ex (\<lambda>e. wanted e \<and> bad e) es \<and> collected name m'
        \<and> all_nodes m' = all_nodes m + mset (map node (filter wanted es))"
  using assms
proof (induction es arbitrary: m)
  case (Cons e es)
  consider "\<not> wanted e" | "wanted e" "bad e" | "wanted e" "\<not> bad e" by blast
  then show ?case
  proof cases
    case 3
    from collect_add[OF 3, of es m] obtain key version tags
      where "collect (e # es) m = collect es (add_node key name version tags (node e) m)" by blast
    with Cons.IH[OF collected_add[OF Cons.prems], of key version tags "node e"] 3 show ?thesis
      by (auto simp: add_node_nodes split: option.splits)
  qed (use Cons.IH[OF Cons.prems] in \<open>simp_all add: collect_skip collect_bad split: option.splits\<close>)
qed (simp add: collect_Nil)

text \<open>The services as they are returned.\<close>

lemma services_outcome:
  "case map_option (\<lambda>m. mset (map snd m)) (collect es []) of
     None \<Rightarrow> list_ex (\<lambda>e. wanted e \<and> bad e) es
   | Some svcs \<Rightarrow> \<not> list_ex (\<lambda>e. wanted e \<and> bad e) es
       \<and> set_mset (image_mset rs_Name svcs) \<subseteq> {name} \<and> [] \<notin># image_mset rs_Nodes svcs
       \<and> (\<Sum>s \<in># svcs. mset (rs_Nodes s)) = mset (map node (filter wanted es))"
proof (cases "collect es []")
  case (Some m)
  with collect_outcome[of "[]" es] have "collected name m" "\<not> list_ex (\<lambda>e. wanted e \<and> bad e) es"
    "all_nodes m = mset (map node (filter wanted es))" by simp_all
  with Some show ?thesis by (auto simp: collected_def all_nodes_def image_mset.compositionality comp_def)
qed (use collect_outcome[of "[]" es] in simp)

end

lemma tagsCheck_None_iff: "tagsCheck tags tag = None \<longleftrightarrow> tag \<in> set tags \<and> length tag < 2"
  by (induction tags) auto

definition etcd_wanted :: "string \<Rightarrow> string \<times> string \<Rightarrow> bool" where
  "etcd_wanted name e \<longleftrightarrow> length (Split (fst e) (CHR ''/'')) \<ge> 4 \<and> Split (fst e) (CHR ''/'') ! 2 = name"

definition etcd_bad :: "string \<Rightarrow> string \<times> string \<Rightarrow> bool" where
  "etcd_bad tag e \<longleftrightarrow> length (Split (fst e) (CHR ''/'')) = 4
     \<or> tag \<in> set (Split (snd e) (CHR '','')) \<and> length tag < 2"

definition etcd_node :: "string \<times> string \<Rightarrow> Node" where
  "etcd_node e =
     (let keys = Split (fst e) (CHR ''/'') in
      \<lparr>nd_Id = fst e,
       nd_Host = (if keys ! 3 = '''' then tagsHost (Split (snd e) (CHR '','')) else keys ! 3),
       nd_Port = Atoi (keys ! 4)\<rparr>)"

interpretation etcd: service_collector "etcd_collect name tag" name "etcd_wanted name" "etcd_bad tag" etcd_node
  for name tag
proof unfold_locales
  fix e :: "string \<times> string" and es m
  obtain k v where e: "e = (k, v)" by (cases e)
  show "\<not> etcd_wanted name e \<Longrightarrow> etcd_collect name tag (e # es) m = etcd_collect name tag es m"
    by (auto simp: e etcd_wanted_def)
  show "etcd_wanted name e \<Longrightarrow> etcd_bad tag e \<Longrightarrow> etcd_collect name tag (e # es) m = None"
    using tagsCheck_None_iff[of "Split v (CHR '','')" tag]
    by (auto simp: e etcd_wanted_def etcd_bad_def Let_def split: option.splits)
  show "etcd_wanted name e \<Longrightarrow> \<not> etcd_bad tag e \<Longrightarrow>
      \<exists>key version tags. etcd_collect name tag (e # es) m
        = etcd_collect name tag es (add_node key name version tags (etcd_node e) m)"
    using tagsCheck_None_iff[of "Split v (CHR '','')" tag]
    by (cases "tagsCheck (Split v (CHR '','')) tag")
      (auto simp: e etcd_wanted_def etcd_bad_def etcd_node_def Let_def)
qed simp

definition consul_wanted :: "string \<Rightarrow> ServiceEntry \<Rightarrow> bool" where
  "consul_wanted name s \<longleftrightarrow> se_Service s = name \<and> ''critical'' \<notin> set (se_Checks s)"

definition consul_bad :: "string \<Rightarrow> ServiceEntry \<Rightarrow> bool" where
  "consul_bad tag s \<longleftrightarrow> tag \<in> set (se_Tags s) \<and> length tag < 2"

definition consul_node :: "ServiceEntry \<Rightarrow> Node" where
  "consul_node s =
     \<lparr>nd_Id = se_ID s, nd_Host = (if se_Address s = '''' then se_NodeAddress s else se_Address s),
      nd_Port = se_Port s\<rparr>"

interpretation consul: service_collector "consul_collect name tag" name "consul_wanted name" "consul_bad tag" consul_node
  for name tag
proof unfold_locales
  fix e :: ServiceEntry and es m
  have crit: "list_ex (\<lambda>status. status = ''critical'') (se_Checks e) \<longleftrightarrow> ''critical'' \<in> set (se_Checks e)"
    by (simp add: list_ex_iff)
  show "\<not> consul_wanted name e \<Longrightarrow> consul_collect name tag (e # es) m = consul_collect name tag es m"
    by (auto simp: consul_wanted_def crit)
  show "consul_wanted name e \<Longrightarrow> consul_bad tag e \<Longrightarrow> consul_collect name tag (e # es) m = None"
    using tagsCheck_None_iff[of "se_Tags e" tag]
    by (auto simp: consul_wanted_def consul_bad_def crit)
  show "consul_wanted name e \<Longrightarrow> \<not> consul_bad tag e \<Longrightarrow>
      \<exists>key version tags. consul_collect name tag (e # es) m
        = consul_collect name tag es (add_node key name version tags (consul_node e) m)"
    using tagsCheck_None_iff[of "se_Tags e" tag]
    by (cases "tagsCheck (se_Tags e) tag")
      (auto simp: consul_wanted_def consul_bad_def consul_node_def crit Let_def)
qed simp


section \<open>Looking services up\<close>

text \<open>C16: Looking a service up in consul returns exactly the healthy nodes: every entry of that
  name without a critical check contributes its node once, nodes are grouped into services of
  that name that are never empty, and nothing else is returned; an error of the client is
  passed on. The look-up panics exactly when the tag asked for is shorter than two bytes and
  is carried by a healthy entry of the name.\<close>

theorem consul_GetService_healthy:
  "case health name tag of
     Inl err \<Rightarrow> consul_GetService health name tag = Some (Inl (ClientError err))
   | Inr rsp \<Rightarrow>
       if list_ex (\<lambda>s. consul_wanted name s \<and> tag \<in> set (se_Tags s) \<and> length tag < 2) rsp
       then consul_GetService health name tag = None
       else \<exists>svcs. consul_GetService health name tag = Some (Inr svcs)
         \<and> set_mset (image_mset rs_Name svcs) \<subseteq> {name} \<and> [] \<notin># image_mset rs_Nodes svcs
         \<and> (\<Sum>s \<in># svcs. mset (rs_Nodes s)) = mset (map consul_node (filter (consul_wanted name) rsp))"
proof (cases "health name tag")
  case (Inr rsp)
  with consul.services_outcome[of name tag rsp] show ?thesis
    by (cases "consul_collect name tag rsp []") (simp_all add: consul_GetService_def consul_bad_def)
qed (simp add: consul_GetService_def)

text \<open>C17: Looking a service up in etcd returns exactly the nodes of the keys whose third
  part is the name: each contributes a node once, with the host of the key (or of the tags, when
  that is empty) and the port of the key, and nothing else is returned; an error of the
  client is passed on and an empty name is refused. The look-up panics exactly when such a key
  has no part for the port, although it passed the length check, or when the tag asked for is
  shorter than two bytes and among the tags of such a key.\<close>

theorem etcd_GetService_nodes:
  "if name = '''' then etcd_GetService get name tag = Some (Inl ErrNilKey)
   else case get (''/airman/'' @ name) of
     Inl err \<Rightarrow> etcd_GetService get name tag = Some (Inl (ClientError err))
   | Inr None \<Rightarrow> etcd_GetService get name tag = Some (Inr {#})
   | Inr (Some kvs) \<Rightarrow>
       if list_ex (\<lambda>e. etcd_wanted name e \<and>
            (length (Split (fst e) (CHR ''/'')) = 4 \<or> tag \<in> set (Split (snd e) (CHR '','')) \<and> length tag < 2)) kvs
       then etcd_GetService get name tag = None
       else \<exists>svcs. etcd_GetService get name tag = Some (Inr svcs)
         \<and> set_mset (image_mset rs_Name svcs) \<subseteq> {name} \<and> [] \<notin># image_mset rs_Nodes svcs
         \<and> (\<Sum>s \<in># svcs. mset (rs_Nodes s)) = mset (map etcd_node (filter (etcd_wanted name) kvs))"
proof -
  have "etcd_GetService get name tag =
      (if name = '''' then Some (Inl ErrNilKey)
       else case get (''/airman/'' @ name) of
          Inl err \<Rightarrow> Some (Inl (ClientError err)) | Inr None \<Rightarrow> Some (Inr {#})
        | Inr (Some kvs) \<Rightarrow> map_option (\<lambda>m. Inr (mset (map snd m))) (etcd_collect name tag kvs []))"
    by (simp add: etcd_GetService_def DefaultPrefixService_def)
  note eq = this
  show ?thesis
  proof (cases "name = ''''")
    case False
    show ?thesis
    proof (cases "get (''/airman/'' @ name)")
      case (Inr o')
      show ?thesis
      proof (cases o')
        case (Some kvs)
        with eq False Inr etcd.services_outcome[of name tag kvs] show ?thesis
          by (cases "etcd_collect name tag kvs []") (simp_all add: etcd_bad_def)
      qed (use eq False Inr in simp)
    qed (use eq False in simp)
  qed (use eq in simp)
qed

section \<open>Registering and looking up\<close>

lemma slash_fmt_d: "CHR ''/'' \<notin> set (fmt_d n)"
  using decimal_chars(2)[of "CHR ''/''" "nat \<bar>n\<bar>"] dig10_chars(3) by (auto simp: fmt_d_def)

lemma Atoi_fmt_d:
  assumes "- (2 ^ 63) \<le> n" "n < 2 ^ 63"
  shows "Atoi (fmt_d n) = n"
proof -
  define s where "s = map ((!) digits36) (digits 10 (nat \<bar>n\<bar>))"
  have ne: "s \<noteq> []" by (simp add: s_def)
  have small: "nat \<bar>n\<bar> < 2 ^ 64" using assms by (simp add: nat_less_iff)
  define w :: u64 where "w = of_nat (nat \<bar>n\<bar>)"
  have parse: "ParseUint s 10 = (w, None)"
    unfolding w_def using ParseUint_eq[OF decimal_chars(1)[of "nat \<bar>n\<bar>", folded s_def] ne] small by simp
  have no: "CHR ''-'' \<notin> set s" "CHR ''+'' \<notin> set s"
    using decimal_chars(2)[of _ "nat \<bar>n\<bar>", folded s_def] dig10_chars by metis+
  then have sign: "\<not> HasPrefix s ''-''" "\<not> HasPrefix s ''+''"
    using ne by (cases s; auto simp: HasPrefix_def)+
  have val: "uint w = \<bar>n\<bar>"
    unfolding w_def using unat_of_nat_u64[OF small] by (metis int_nat_eq abs_ge_zero uint_nat)
  show ?thesis
  proof (cases "n < 0")
    case True
    then have "fmt_d n = CHR ''-'' # s" by (simp add: fmt_d_def s_def)
    then show ?thesis using True assms by (simp add: Atoi_def HasPrefix_def parse val Let_def)
  next
    case False
    then have "fmt_d n = s" by (simp add: fmt_d_def s_def)
    then show ?thesis using False assms by (simp add: Atoi_def sign parse val Let_def)
  qed
qed


text \<open>The parts of a key and of a value that \<open>Register\<close> writes.\<close>

definition host_of :: "string \<Rightarrow> string" where
  "host_of address = (if address = '''' then ''127.0.0.1'' else address)"

lemma NewService_key_parts:
  assumes "CHR ''/'' \<notin> set (name @ version)" "CHR ''/'' \<notin> set address"
  shows "Split (GetId (NewService name version address port)) (CHR ''/'') =
    ['''', ''airman'', name @ version, host_of address, fmt_d (if port = 0 then 8500 else port)]"
proof -
  let ?parts = "['''', ''airman'', name @ version, host_of address, fmt_d (if port = 0 then 8500 else port)]"
  have id: "GetId (NewService name version address port) = Join ?parts (CHR ''/'')"
    by (simp add: GetId_def NewService_def DefaultPrefixService_def host_of_def)
  have all: "\<forall>w\<in>set ?parts. CHR ''/'' \<notin> set w"
    using assms slash_fmt_d by (simp add: host_of_def)
  show ?thesis unfolding id by (rule Split_Join[OF list.distinct(2) all])
qed

lemma NewService_tags:
  assumes plain: "CHR '','' \<notin> set version" "CHR '','' \<notin> set address"
    and s_def: "s = NewService name version address port"
  shows "Split (Join (GetTags s) (CHR '','')) (CHR '','') = GetTags s"
    and "tagsVersion (GetTags s) = version" and "'''' \<notin> set (GetTags s)"
proof -
  have tags: "GetTags s = [''a-service''] @ (if version = '''' then [] else [''v-'' @ version]) @ [''h-'' @ host_of address]"
    by (simp add: s_def GetTags_def NewService_def DefaultTagService_def host_of_def)
  have "\<forall>w\<in>set (GetTags s). CHR '','' \<notin> set w" using plain by (simp add: tags host_of_def)
  moreover have "GetTags s \<noteq> []" by (simp add: tags)
  ultimately show "Split (Join (GetTags s) (CHR '','')) (CHR '','') = GetTags s" by (rule Split_Join[rotated])
  show "tagsVersion (GetTags s) = version" by (simp add: tags HasPrefix_def)
  show "'''' \<notin> set (GetTags s)" by (simp add: tags)
qed

lemma HasPrefix_key:
  "HasPrefix (GetId (NewService name version address port)) (''/'' @ DefaultPrefixService @ ''/'' @ name)"
  "HasPrefix (GetId (NewService name version address port)) (''/'' @ DefaultPrefixService @ ''/'' @ name @ version)"
  by (simp_all add: GetId_def NewService_def HasPrefix_iff)

lemma tagsCheck_missing: "tag \<notin> set tags \<Longrightarrow> tagsCheck tags tag = Some ''''"
  by (induction tags) auto

text \<open>C15: Registration and look-up in etcd. With a client that stores what is put and returns
  the entries below a prefix, a service registered in an empty store is found again, with
  its version, tags, host and port, under its name followed by its version; if the version is
  not empty, a look-up of the name alone finds nothing. After deregistration it is gone.\<close>

theorem etcd_register_lookup:
  assumes put: "\<And>k v st. put k v st = (AList.update k v st, None)"
    and del: "\<And>k st. del k st = (AList.delete k st, None)"
    and get: "\<And>st p. get st p = Inr (Some (filter (\<lambda>(k, v). HasPrefix k p) st))"
    and plain: "CHR ''/'' \<notin> set (name @ version)" "CHR ''/'' \<notin> set address"
      "CHR '','' \<notin> set version" "CHR '','' \<notin> set address"
    and port: "- (2 ^ 63) \<le> port" "port < 2 ^ 63" and name: "name \<noteq> ''''"
    and s: "s = NewService name version address port" and reg: "etcd_Register put s [] = (st, err)"
  shows "err = None
    \<and> etcd_GetService (get st) (name @ version) ''''
        = Some (Inr {#s\<lparr>rs_Name := name @ version, rs_Tags := GetTags s\<rparr>#})
    \<and> (if version = '''' then True else etcd_GetService (get st) name '''' = Some (Inr {#}))
    \<and> etcd_GetService (get (fst (etcd_Deregister del s st))) (name @ version) '''' = Some (Inr {#})"
proof -
  let ?k = "GetId s" and ?v = "Join (GetTags s) (CHR '','')"
  have node: "rs_Nodes s = [\<lparr>nd_Id = ?k, nd_Host = host_of address, nd_Port = (if port = 0 then 8500 else port)\<rparr>]"
    by (simp add: s NewService_def host_of_def GetId_def Let_def)
  have st: "st = [(?k, ?v)]" "err = None" using reg by (simp_all add: etcd_Register_def node put)
  note key = NewService_key_parts[OF plain(1,2), of port, folded s]
  note tags = NewService_tags[OF plain(3,4) s]
  have host: "host_of address \<noteq> ''''" by (simp add: host_of_def)
  have atoi: "Atoi (fmt_d (if port = 0 then 8500 else port)) = (if port = 0 then 8500 else port)"
    using port by (intro Atoi_fmt_d) auto
  have chk: "tagsCheck (GetTags s) '''' = Some ''''" using tagsCheck_missing[OF tags(3)] .
  have found: "etcd_GetService (get st) (name @ version) ''''
      = Some (Inr {#s\<lparr>rs_Name := name @ version, rs_Tags := GetTags s\<rparr>#})"
    using HasPrefix_key(2)[of name version address port, folded s] name
    by (simp add: etcd_GetService_def get st key tags chk host atoi add_node_def node Let_def)
      (simp add: s NewService_def host_of_def GetId_def)
  have other: "etcd_GetService (get st) name '''' = Some (Inr {#})" if "version \<noteq> ''''"
    using HasPrefix_key(1)[of name version address port, folded s] name that
    by (simp add: etcd_GetService_def get st key Let_def)
  have gone: "etcd_GetService (get (fst (etcd_Deregister del s st))) (name @ version) '''' = Some (Inr {#})"
    using name by (simp add: etcd_GetService_def get etcd_Deregister_def node del st)
  show ?thesis using st(2) found other gone by simp
qed

lemma etcd_register_lookup_witness:
  "etcd_GetService (\<lambda>p. Inr (Some (filter (\<lambda>(k, v). HasPrefix k p)
       (fst (etcd_Register (\<lambda>k v st. (AList.update k v st, None)) (NewService ''user'' ''2'' ''10.0.0.1'' 80) []))))) ''user2'' ''''
     = Some (Inr {#(NewService ''user'' ''2'' ''10.0.0.1'' 80)\<lparr>rs_Name := ''user2'',
         rs_Tags := GetTags (NewService ''user'' ''2'' ''10.0.0.1'' 80)\<rparr>#})
   \<and> etcd_GetService (\<lambda>p. Inr (Some (filter (\<lambda>(k, v). HasPrefix k p)
       (fst (etcd_Register (\<lambda>k v st. (AList.update k v st, None)) (NewService ''user'' ''2'' ''10.0.0.1'' 80) []))))) ''user'' ''''
     = Some (Inr {#})"
proof -
  let ?put = "\<lambda>k v st. (AList.update k v st, None :: string option)"
  let ?s = "NewService ''user'' ''2'' ''10.0.0.1'' 80"
  obtain st err where r: "etcd_Register ?put ?s [] = (st, err)" by fastforce
  show ?thesis
    using etcd_register_lookup[of ?put "\<lambda>k st. (AList.delete k st, None)"
        "\<lambda>st p. Inr (Some (filter (\<lambda>(k, v). HasPrefix k p) st))" "''user''" "''2''" "''10.0.0.1''" 80 ?s st err, OF _ _ _ _ _ _ _ _ _ _ _ r]
    by (simp add: r)
qed

text \<open>C18: Registration in consul with a time to live. A service without a node is refused and
  nothing is sent; a service that consul still knows is only refreshed; otherwise it is
  registered under the identity, address and tags of its first node, with a removal delay
  of at least two minutes that exceeds the time to live, and then refreshed unless the time to
  live is zero. Errors of the client are passed on.\<close>

theorem consul_RegisterWithTTL_outcomes:
  assumes "timeTTL \<le> 2 ^ 63 - 1 - 10000000000"
  shows "case rs_Nodes s of
     [] \<Rightarrow> consul_RegisterWithTTL pass reg s timeTTL st = (st, Some NoNode)
   | node # _ \<Rightarrow>
       (case pass (''service:'' @ nd_Id node) st of
          (st1, None) \<Rightarrow> consul_RegisterWithTTL pass reg s timeTTL st = (st1, None)
        | (st1, Some _) \<Rightarrow>
            \<exists>asr. ar_ID asr = nd_Id node \<and> ar_Name asr = rs_Name s \<and> ar_Address asr = nd_Host node
              \<and> ar_Port asr = nd_Port node \<and> ar_Tags asr = GetTags s
              \<and> ck_TTL (ar_Check asr) = Some timeTTL \<and> ck_DeregisterAfter (ar_Check asr) \<ge> 120000000000
              \<and> ck_DeregisterAfter (ar_Check asr) > timeTTL
              \<and> consul_RegisterWithTTL pass reg s timeTTL st =
                  (case reg asr st1 of
                     (st2, Some err) \<Rightarrow> (st2, Some (ClientError err))
                   | (st2, None) \<Rightarrow>
                       if timeTTL = 0 then (st2, None)
                       else case pass (''service:'' @ nd_Id node) st2 of
                         (st3, err) \<Rightarrow> (st3, map_option ClientError err)))"
proof -
  have ttl: "getDeregisterTTL timeTTL \<ge> 120000000000 \<and> getDeregisterTTL timeTTL > timeTTL"
  proof (cases "timeTTL < 120000000000")
    case False
    then have "wrap64 (timeTTL + DefaultInterval) = timeTTL + DefaultInterval"
      using assms by (simp add: wrap64_def DefaultInterval_def second_def)
    then show ?thesis using False by (simp add: getDeregisterTTL_def second_def DefaultInterval_def)
  qed (simp add: getDeregisterTTL_def second_def)
  show ?thesis
  proof (cases "rs_Nodes s")
    case Nil
    then show ?thesis by (simp add: consul_RegisterWithTTL_def)
  next
    case (Cons node rest)
    obtain st1 e where p: "pass (''service:'' @ nd_Id node) st = (st1, e)" by fastforce
    let ?asr = "registration s node \<lparr>ck_Name = rs_Name s, ck_Notes = nd_Id node, ck_TTL = Some timeTTL, ck_HTTP = '''',
      ck_Interval = '''', ck_Timeout = '''', ck_DeregisterAfter = getDeregisterTTL timeTTL\<rparr>"
    show ?thesis
    proof (cases e)
      case None
      with Cons p show ?thesis by (simp add: consul_RegisterWithTTL_def)
    next
      case (Some err)
      with Cons p ttl show ?thesis
        by (auto simp: consul_RegisterWithTTL_def registration_def intro!: exI[of _ ?asr] split: prod.splits option.splits)
    qed
  qed
qed

lemma consul_RegisterWithTTL_outcomes_witness:
  "\<exists>asr :: AgentServiceRegistration. ar_ID asr = ''/airman/user/h/1'' \<and> ck_DeregisterAfter (ar_Check asr) > 300000000000
    \<and> consul_RegisterWithTTL (\<lambda>id st. (id # st, if st = [] then Some ''unknown'' else None)) (\<lambda>(asr :: AgentServiceRegistration) st. (ar_ID asr # st, None))
        (NewService ''user'' '''' ''h'' 1) 300000000000 [] =
        ([''service:/airman/user/h/1'', ''/airman/user/h/1'', ''service:/airman/user/h/1''], None)"
proof -
  let ?s = "NewService ''user'' '''' ''h'' 1"
  let ?pass = "\<lambda>id (st :: string list). (id # st, if st = [] then Some ''unknown'' else None)"
  let ?reg = "\<lambda>(asr :: AgentServiceRegistration) (st :: string list). (ar_ID asr # st, None)"
  have "fmt_d 1 = ''1''" by code_simp
  then have "rs_Nodes ?s = [\<lparr>nd_Id = ''/airman/user/h/1'', nd_Host = ''h'', nd_Port = 1\<rparr>]"
    by (simp add: NewService_def DefaultPrefixService_def)
  then have "\<exists>asr :: AgentServiceRegistration. ar_ID asr = ''/airman/user/h/1'' \<and> ck_DeregisterAfter (ar_Check asr) > 300000000000
      \<and> consul_RegisterWithTTL ?pass ?reg ?s 300000000000 [] =
          (''service:/airman/user/h/1'' # ar_ID asr # [''service:/airman/user/h/1''], None)"
    using consul_RegisterWithTTL_outcomes[where timeTTL = 300000000000 and s = ?s and reg = ?reg and pass = ?pass and st = "[]"]
    by simp blast
  then show ?thesis by auto
qed

end
