(* ===== verification/Service_Context.thy ===== *)
theory Service_Context
  imports Go_Reflect
begin

text \<open>
  Looking a running service up by its type (src/pkg/service/service_context.go). The caller passes
  a pointer to a variable; the store maps the addresses of variables to what they hold. Which types
  implement which interface types is the argument \<open>impl\<close>.
\<close>

section \<open>Model\<close>

text \<open>A value of the interface \<open>Service\<close>: its dynamic type and the instance, or nil.\<close>

record running =
  rn_type :: gtype
  rn_id :: nat

record ServiceContext =
  sc_Services :: "gtype \<Rightarrow> running option option"

datatype service_arg = ArgPtr gtype nat | ArgNilPtr gtype | ArgOther gtype

datatype lookup_error = ErrServiceUnknown

definition assignable :: "(gtype \<Rightarrow> gtype \<Rightarrow> bool) \<Rightarrow> gtype \<Rightarrow> gtype \<Rightarrow> bool" where
  "assignable impl v t \<longleftrightarrow> v = t \<or> impl v t"

text \<open>
  \<open>None\<close> is a panic: of \<open>Elem\<close> on what is no pointer, of \<open>Type\<close> on the element of a nil
  pointer, or of \<open>Set\<close> with a value that is nil or does not fit.
\<close>

definition ServiceContext_Service ::
  "(gtype \<Rightarrow> gtype \<Rightarrow> bool) \<Rightarrow> ServiceContext \<Rightarrow> service_arg \<Rightarrow> (nat \<Rightarrow> running option)
   \<Rightarrow> ((nat \<Rightarrow> running option) \<times> lookup_error option) option" where
  "ServiceContext_Service impl ctx service store =
     (case service of
        ArgOther t \<Rightarrow> None
      | ArgNilPtr t \<Rightarrow> None
      | ArgPtr t a \<Rightarrow>
          (case sc_Services ctx t of
             Some running \<Rightarrow>
               (case running of
                  None \<Rightarrow> None
                | Some v \<Rightarrow> if assignable impl (rn_type v) t then Some (store(a \<mapsto> v), None) else None)
           | None \<Rightarrow> Some (store, Some ErrServiceUnknown)))"

section \<open>Typing\<close>

text \<open>Every variable holds a value that fits its declared type.\<close>

definition store_typed :: "(gtype \<Rightarrow> gtype \<Rightarrow> bool) \<Rightarrow> (nat \<Rightarrow> gtype) \<Rightarrow> (nat \<Rightarrow> running option) \<Rightarrow> bool" where
  "store_typed impl decl store \<longleftrightarrow> (\<forall>a v. store a = Some v \<longrightarrow> assignable impl (rn_type v) (decl a))"

text \<open>The index of the constructed services: each is listed under its own type.\<close>

definition context_ok :: "ServiceContext \<Rightarrow> bool" where
  "context_ok ctx \<longleftrightarrow> (\<forall>t r. sc_Services ctx t = Some r \<longrightarrow> (\<exists>v. r = Some v \<and> rn_type v = t))"

text \<open>C23: Look-ups respect types. Whatever the index holds, a look-up through a pointer to a declared
  variable that returns keeps every variable well-typed, and changes no other variable. With an index
  that lists every service under its own type it always returns: without an error exactly when a service
  of the type is running, which is then what the variable holds.\<close>

theorem ServiceContext_Service_typed:
  assumes "decl a = t" and "store_typed impl decl store"
  shows "(case ServiceContext_Service impl ctx (ArgPtr t a) store of
      None \<Rightarrow> \<not> context_ok ctx
    | Some (store', err) \<Rightarrow>
        store_typed impl decl store' \<and> (\<forall>b. b \<noteq> a \<longrightarrow> store' b = store b)
        \<and> (err = None \<longleftrightarrow> t \<in> dom (sc_Services ctx))
        \<and> (if err = None then sc_Services ctx t = Some (store' a) else store' = store))"
  using assms
  by (auto simp: ServiceContext_Service_def store_typed_def context_ok_def split: option.splits if_splits)
    (auto simp: assignable_def)

theorem ServiceContext_Service_typed_witness:
  "(case ServiceContext_Service (\<lambda>_ _. False)
        \<lparr>sc_Services = (\<lambda>t. if t = TPtr stringType then Some (Some \<lparr>rn_type = TPtr stringType, rn_id = 7\<rparr>) else None)\<rparr>
        (ArgPtr (TPtr stringType) 3) (\<lambda>_. None) of
      None \<Rightarrow> False
    | Some (store', err) \<Rightarrow> err = None \<and> store' 3 = Some \<lparr>rn_type = TPtr stringType, rn_id = 7\<rparr>)"
  using ServiceContext_Service_typed[where decl = "\<lambda>_. TPtr stringType" and a = 3 and t = "TPtr stringType"
      and impl = "\<lambda>_ _. False" and store = "\<lambda>_. None"
      and ctx = "\<lparr>sc_Services = (\<lambda>t. if t = TPtr stringType then Some (Some \<lparr>rn_type = TPtr stringType, rn_id = 7\<rparr>) else None)\<rparr>"]
  by (auto simp: store_typed_def context_ok_def split: option.splits if_splits)

end
