(* ===== verification/Level_DB.thy ===== *)
theory Level_DB
  imports Prelude
begin

text \<open>
  The wrapper of goleveldb (src/pkg/leveldb/database.go). The engine is an argument, a record of the
  functions that the wrapper calls; \<open>'db\<close> is the state of an open database, to which a wrapper and its
  batches hold the same pointer (it is passed to every operation and returned by those that change
  it), \<open>'b\<close> is an engine batch and \<open>'e\<close> an error. What the properties rely on, the documented behaviour
  of the engine, is \<open>engine_ok\<close>.
\<close>

section \<open>The engine\<close>

type_synonym bytes = "byte list"

record Options =
  o_OpenFilesCacheCapacity :: int
  o_BlockCacheCapacity :: int
  o_WriteBuffer :: int
  o_FilterBits :: nat

type_synonym key_range = "bytes \<times> bytes option"

record ('db, 'b, 'e) goleveldb =
  gl_OpenFile :: "string \<Rightarrow> Options \<Rightarrow> 'e + 'db"
  gl_RecoverFile :: "string \<Rightarrow> 'e + 'db"
  gl_ErrCorrupted :: "'e \<Rightarrow> bool"
  gl_Put :: "'db \<Rightarrow> bytes \<Rightarrow> bytes \<Rightarrow> 'db \<times> 'e option"
  gl_Has :: "'db \<Rightarrow> bytes \<Rightarrow> bool \<times> 'e option"
  gl_Get :: "'db \<Rightarrow> bytes \<Rightarrow> bytes \<times> 'e option"
  gl_Delete :: "'db \<Rightarrow> bytes \<Rightarrow> 'db \<times> 'e option"
  gl_NewIterator :: "'db \<Rightarrow> key_range option \<Rightarrow> (bytes \<times> bytes) list"
  gl_BytesPrefix :: "bytes \<Rightarrow> key_range"
  gl_Close :: "'db \<Rightarrow> 'db \<times> 'e option"
  gl_newBatch :: 'b
  gl_batch_Put :: "'b \<Rightarrow> bytes \<Rightarrow> bytes \<Rightarrow> 'b"
  gl_batch_Delete :: "'b \<Rightarrow> bytes \<Rightarrow> 'b"
  gl_batch_Reset :: "'b \<Rightarrow> 'b"
  gl_Write :: "'db \<Rightarrow> 'b \<Rightarrow> 'db \<times> 'e option"

section \<open>Databases\<close>

text \<open>\<open>ldb_quitChan\<close> is what the metrics collection would answer, if it is running.\<close>

record 'e LevelDB =
  ldb_fn :: string
  ldb_quitChan :: "'e option option"

definition MiB :: int where "MiB = 1048576"

definition int64 :: "int \<Rightarrow> int" where
  "int64 n = signed_take_bit 63 n"

definition open_options :: "int \<Rightarrow> int \<Rightarrow> Options" where
  "open_options cache handles =
     (let cache = (if cache < 16 then 16 else cache);
          handles = (if handles < 16 then 16 else handles)
      in \<lparr>o_OpenFilesCacheCapacity = handles, o_BlockCacheCapacity = int64 (cache div 2 * MiB),
          o_WriteBuffer = int64 (cache div 4 * MiB), o_FilterBits = 10\<rparr>)"

definition NewLDBDatabase ::
  "('db, 'b, 'e) goleveldb \<Rightarrow> string \<Rightarrow> int \<Rightarrow> int \<Rightarrow> 'e + 'e LevelDB \<times> 'db" where
  "NewLDBDatabase eng file cache handles =
     (let opened = gl_OpenFile eng file (open_options cache handles);
          opened = (case opened of
              Inl err \<Rightarrow> if gl_ErrCorrupted eng err then gl_RecoverFile eng file else opened
            | Inr db \<Rightarrow> opened)
      in case opened of
           Inl err \<Rightarrow> Inl err
         | Inr db \<Rightarrow> Inr (\<lparr>ldb_fn = file, ldb_quitChan = None\<rparr>, db))"

definition LevelDB_Path :: "'e LevelDB \<Rightarrow> string" where
  "LevelDB_Path db = ldb_fn db"

definition LevelDB_Put :: "('db, 'b, 'e) goleveldb \<Rightarrow> bytes \<Rightarrow> bytes \<Rightarrow> 'db \<Rightarrow> 'db \<times> 'e option" where
  "LevelDB_Put eng key val d = gl_Put eng d key val"

definition LevelDB_Has :: "('db, 'b, 'e) goleveldb \<Rightarrow> bytes \<Rightarrow> 'db \<Rightarrow> bool \<times> 'e option" where
  "LevelDB_Has eng key d = gl_Has eng d key"

definition LevelDB_Get :: "('db, 'b, 'e) goleveldb \<Rightarrow> bytes \<Rightarrow> 'db \<Rightarrow> bytes \<times> 'e option" where
  "LevelDB_Get eng key d =
     (case gl_Get eng d key of
        (dat, Some err) \<Rightarrow> ([], Some err)
      | (dat, None) \<Rightarrow> (dat, None))"

definition LevelDB_Delete :: "('db, 'b, 'e) goleveldb \<Rightarrow> bytes \<Rightarrow> 'db \<Rightarrow> 'db \<times> 'e option" where
  "LevelDB_Delete eng key d = gl_Delete eng d key"

definition LevelDB_NewIterator :: "('db, 'b, 'e) goleveldb \<Rightarrow> 'db \<Rightarrow> (bytes \<times> bytes) list" where
  "LevelDB_NewIterator eng d = gl_NewIterator eng d None"

definition NewIteratorWithPrefix :: "('db, 'b, 'e) goleveldb \<Rightarrow> bytes \<Rightarrow> 'db \<Rightarrow> (bytes \<times> bytes) list" where
  "NewIteratorWithPrefix eng prefix d = gl_NewIterator eng d (Some (gl_BytesPrefix eng prefix))"

text \<open>The errors of the collection and of closing are only logged: they are the last component.\<close>

definition LevelDB_Close :: "('db, 'b, 'e) goleveldb \<Rightarrow> 'e LevelDB \<Rightarrow> 'db \<Rightarrow> 'e LevelDB \<times> 'db \<times> 'e list" where
  "LevelDB_Close eng db d =
     (let (db', logged) = (case ldb_quitChan db of
            Some answer \<Rightarrow> (db\<lparr>ldb_quitChan := None\<rparr>, case answer of Some err \<Rightarrow> [err] | None \<Rightarrow> [])
          | None \<Rightarrow> (db, []));
          (d', err) = gl_Close eng d
      in (db', d', logged @ (case err of None \<Rightarrow> [] | Some err \<Rightarrow> [err])))"

section \<open>Batches\<close>

record 'b LevelDBBatch =
  bt_b :: 'b
  bt_size :: u64

definition NewBatch :: "('db, 'b, 'e) goleveldb \<Rightarrow> 'b LevelDBBatch" where
  "NewBatch eng = \<lparr>bt_b = gl_newBatch eng, bt_size = 0\<rparr>"

definition Batch_Put :: "('db, 'b, 'e) goleveldb \<Rightarrow> bytes \<Rightarrow> bytes \<Rightarrow> 'b LevelDBBatch \<Rightarrow> 'b LevelDBBatch" where
  "Batch_Put eng key val b = b\<lparr>bt_b := gl_batch_Put eng (bt_b b) key val, bt_size := bt_size b + of_nat (length val)\<rparr>"

definition Batch_Delete :: "('db, 'b, 'e) goleveldb \<Rightarrow> bytes \<Rightarrow> 'b LevelDBBatch \<Rightarrow> 'b LevelDBBatch" where
  "Batch_Delete eng key b = b\<lparr>bt_b := gl_batch_Delete eng (bt_b b) key, bt_size := bt_size b + 1\<rparr>"

definition Batch_Write :: "('db, 'b, 'e) goleveldb \<Rightarrow> 'b LevelDBBatch \<Rightarrow> 'db \<Rightarrow> 'db \<times> 'e option" where
  "Batch_Write eng b d = gl_Write eng d (bt_b b)"

definition ValueSize :: "'b LevelDBBatch \<Rightarrow> u64" where
  "ValueSize b = bt_size b"

definition Batch_Reset :: "('db, 'b, 'e) goleveldb \<Rightarrow> 'b LevelDBBatch \<Rightarrow> 'b LevelDBBatch" where
  "Batch_Reset eng b = b\<lparr>bt_b := gl_batch_Reset eng (bt_b b), bt_size := 0\<rparr>"

section \<open>What the engine documents\<close>

datatype kv_op = PutOp bytes bytes | DelOp bytes

fun kv_apply :: "kv_op \<Rightarrow> (bytes \<Rightarrow> bytes option) \<Rightarrow> (bytes \<Rightarrow> bytes option)" where
  "kv_apply (PutOp k v) m = m(k \<mapsto> v)"
| "kv_apply (DelOp k) m = m(k := None)"

text \<open>
  \<open>kv d\<close> is the content of the database and \<open>ops b\<close> what a batch records: a successful write of the
  engine has its effect, a batch is replayed in order, and reading a key that is present succeeds
  with its value or fails, reading another one fails.
\<close>

definition engine_ok ::
  "('db, 'b, 'e) goleveldb \<Rightarrow> ('db \<Rightarrow> bytes \<Rightarrow> bytes option) \<Rightarrow> ('b \<Rightarrow> kv_op list) \<Rightarrow> bool" where
  "engine_ok eng kv ops \<longleftrightarrow>
     (\<forall>d k v d'. gl_Put eng d k v = (d', None) \<longrightarrow> kv d' = kv_apply (PutOp k v) (kv d))
     \<and> (\<forall>d k d'. gl_Delete eng d k = (d', None) \<longrightarrow> kv d' = kv_apply (DelOp k) (kv d))
     \<and> (\<forall>d k v. gl_Get eng d k = (v, None) \<longrightarrow> kv d k = Some v)
     \<and> (\<forall>d k p. gl_Has eng d k = (p, None) \<longrightarrow> (p \<longleftrightarrow> kv d k \<noteq> None))
     \<and> ops (gl_newBatch eng) = []
     \<and> (\<forall>b k v. ops (gl_batch_Put eng b k v) = ops b @ [PutOp k v])
     \<and> (\<forall>b k. ops (gl_batch_Delete eng b k) = ops b @ [DelOp k])
     \<and> (\<forall>b. ops (gl_batch_Reset eng b) = [])
     \<and> (\<forall>d b d'. gl_Write eng d b = (d', None) \<longrightarrow> kv d' = fold kv_apply (ops b) (kv d))"

section \<open>Batches and single writes\<close>

text \<open>A sequence of writes, recorded in a batch, and made one by one.\<close>

fun record_op :: "('db, 'b, 'e) goleveldb \<Rightarrow> kv_op \<Rightarrow> 'b LevelDBBatch \<Rightarrow> 'b LevelDBBatch" where
  "record_op eng (PutOp k v) b = Batch_Put eng k v b"
| "record_op eng (DelOp k) b = Batch_Delete eng k b"

fun write_op :: "('db, 'b, 'e) goleveldb \<Rightarrow> kv_op \<Rightarrow> 'db \<Rightarrow> 'db \<times> 'e option" where
  "write_op eng (PutOp k v) d = LevelDB_Put eng k v d"
| "write_op eng (DelOp k) d = LevelDB_Delete eng k d"

fun write_ops :: "('db, 'b, 'e) goleveldb \<Rightarrow> kv_op list \<Rightarrow> 'db \<Rightarrow> 'db \<times> 'e option" where
  "write_ops eng [] d = (d, None)"
| "write_ops eng (x # xs) d =
     (case write_op eng x d of (d', Some err) \<Rightarrow> (d', Some err) | (d', None) \<Rightarrow> write_ops eng xs d')"

fun op_size :: "kv_op \<Rightarrow> nat" where
  "op_size (PutOp k v) = length v"
| "op_size (DelOp k) = 1"

lemma record_ops:
  assumes "engine_ok eng kv ops"
  shows "ops (bt_b (fold (record_op eng) acts b)) = ops (bt_b b) @ acts
    \<and> bt_size (fold (record_op eng) acts b) = bt_size b + of_nat (sum_list (map op_size acts))"
proof (induction acts arbitrary: b)
  case (Cons a acts)
  have "ops (bt_b (record_op eng a b)) = ops (bt_b b) @ [a]" "bt_size (record_op eng a b) = bt_size b + of_nat (op_size a)"
    using assms by (cases a; simp add: engine_ok_def Batch_Put_def Batch_Delete_def)+
  with Cons show ?case by simp
qed simp

lemma write_ops_content:
  assumes "engine_ok eng kv ops"
  shows "write_ops eng acts d = (d', None) \<Longrightarrow> kv d' = fold kv_apply acts (kv d)"
proof (induction acts arbitrary: d)
  case (Cons a acts)
  then obtain d1 where 1: "write_op eng a d = (d1, None)" "write_ops eng acts d1 = (d', None)"
    by (auto split: prod.splits option.splits)
  have "kv d1 = kv_apply a (kv d)"
    using assms 1(1) by (cases a) (auto simp: engine_ok_def LevelDB_Put_def LevelDB_Delete_def)
  with Cons.IH[OF 1(2)] show ?case by simp
qed simp

text \<open>C22: A batch is the sequence of its writes. Writing a batch that was filled after its creation or
  its last reset, when it succeeds, leaves the database with the content that the same puts and
  deletes leave, made one by one in the same order, and a later read that succeeds sees the last
  write of its key. The size of the batch is the number of value bytes plus one for each delete
  (modulo 2^64), whatever it held before the reset.\<close>

theorem batch_equals_writes:
  assumes engine: "engine_ok eng kv ops"
    and batch: "b \<in> {NewBatch eng, Batch_Reset eng old}"
    and "Batch_Write eng (fold (record_op eng) acts b) d = (d1, None)"
    and "write_ops eng acts d = (d2, None)"
  shows "kv d1 = kv d2
    \<and> (\<forall>k v. LevelDB_Get eng k d1 = (v, None) \<longrightarrow> fold kv_apply acts (kv d) k = Some v)
    \<and> ValueSize (fold (record_op eng) acts b) = of_nat (sum_list (map op_size acts))"
proof -
  have new: "ops (bt_b b) = []" "bt_size b = 0"
    using engine batch by (auto simp: engine_ok_def NewBatch_def Batch_Reset_def)
  have "kv d1 = fold kv_apply (ops (bt_b (fold (record_op eng) acts b))) (kv d)"
    using engine assms(3) by (auto simp: engine_ok_def Batch_Write_def)
  then have d1: "kv d1 = fold kv_apply acts (kv d)" using record_ops[OF engine, of acts b] new by simp
  moreover have "kv d1 k = Some v" if "LevelDB_Get eng k d1 = (v, None)" for k v
    using engine that by (auto simp: engine_ok_def LevelDB_Get_def split: prod.splits option.splits)
  ultimately show ?thesis
    using write_ops_content[OF engine assms(4)] record_ops[OF engine, of acts b] new by (simp add: ValueSize_def)
qed

text \<open>An engine that keeps the content in memory and refuses what is too large.\<close>

definition memory_engine :: "(bytes \<Rightarrow> bytes option, kv_op list, string) goleveldb" where
  "memory_engine =
     \<lparr>gl_OpenFile = (\<lambda>f opts. if o_WriteBuffer opts < 4 * MiB then Inl ''small buffer'' else Inr (\<lambda>_. None)),
      gl_RecoverFile = (\<lambda>f. Inl ''no file''), gl_ErrCorrupted = (\<lambda>e. e = ''corrupted''),
      gl_Put = (\<lambda>d k v. if length v > 1000 then (d, Some ''too large'') else (d(k \<mapsto> v), None)),
      gl_Has = (\<lambda>d k. (d k \<noteq> None, None)),
      gl_Get = (\<lambda>d k. case d k of None \<Rightarrow> ([], Some ''not found'') | Some v \<Rightarrow> (v, None)),
      gl_Delete = (\<lambda>d k. (d(k := None), None)),
      gl_NewIterator = (\<lambda>d r. []), gl_BytesPrefix = (\<lambda>p. (p, None)), gl_Close = (\<lambda>d. (d, None)),
      gl_newBatch = [], gl_batch_Put = (\<lambda>b k v. b @ [PutOp k v]), gl_batch_Delete = (\<lambda>b k. b @ [DelOp k]),
      gl_batch_Reset = (\<lambda>b. []), gl_Write = (\<lambda>d b. (fold kv_apply b d, None))\<rparr>"

lemma memory_engine_ok: "engine_ok memory_engine (\<lambda>d. d) (\<lambda>b. b)"
  by (auto simp: engine_ok_def memory_engine_def split: if_splits option.splits)

lemma memory_engine_sel:
  "gl_Put memory_engine d k v = (if length v > 1000 then (d, Some ''too large'') else (d(k \<mapsto> v), None))"
  "gl_Delete memory_engine d k = (d(k := None), None)" "gl_newBatch memory_engine = []"
  "gl_batch_Put memory_engine b k v = b @ [PutOp k v]" "gl_batch_Delete memory_engine b k = b @ [DelOp k]"
  "gl_Write memory_engine d b = (fold kv_apply b d, None)"
  by (simp_all add: memory_engine_def)

definition sample_ops :: "kv_op list" where
  "sample_ops = [PutOp [1] [2, 3], DelOp [1], PutOp [1] [4]]"

theorem batch_equals_writes_witness:
  "(\<exists>d1 d2. Batch_Write memory_engine (fold (record_op memory_engine) sample_ops (NewBatch memory_engine)) (\<lambda>_. None) = (d1, None)
      \<and> write_ops memory_engine sample_ops (\<lambda>_. None) = (d2, None) \<and> d1 = d2 \<and> d1 [1] = Some [4])
   \<and> ValueSize (fold (record_op memory_engine) sample_ops (NewBatch memory_engine)) = 4"
proof -
  let ?b = "fold (record_op memory_engine) sample_ops (NewBatch memory_engine)"
  have 1: "Batch_Write memory_engine ?b (\<lambda>_. None) = (fold kv_apply sample_ops (\<lambda>_. None), None)"
    by (simp add: Batch_Write_def Batch_Put_def Batch_Delete_def NewBatch_def memory_engine_sel sample_ops_def)
  have 2: "\<exists>d2. write_ops memory_engine sample_ops (\<lambda>_. None) = (d2, None)"
    by (simp add: LevelDB_Put_def LevelDB_Delete_def memory_engine_sel sample_ops_def)
  then obtain d2 where d2: "write_ops memory_engine sample_ops (\<lambda>_. None) = (d2, None)" ..
  have "fold kv_apply sample_ops (\<lambda>_. None) [1] = Some [4]" "sum_list (map op_size sample_ops) = 4"
    by (simp_all add: sample_ops_def)
  with batch_equals_writes[OF memory_engine_ok insertI1 1 d2] 1 d2 show ?thesis by auto
qed

section \<open>Opening\<close>

lemma int64_id: "0 \<le> n \<Longrightarrow> n < 2 ^ 63 \<Longrightarrow> int64 n = n"
  unfolding int64_def by (rule signed_take_bit_int_eq_self) simp_all

lemma open_options_eq:
  assumes "cache < 2 ^ 44"
  shows "open_options cache handles =
    \<lparr>o_OpenFilesCacheCapacity = max 16 handles, o_BlockCacheCapacity = max 16 cache div 2 * MiB,
     o_WriteBuffer = max 16 cache div 4 * MiB, o_FilterBits = 10\<rparr>"
proof -
  let ?c = "max 16 cache"
  have "?c div 2 < 2 ^ 43" "?c div 4 < 2 ^ 43" using assms by auto
  then have "?c div 2 * MiB < 2 ^ 63" "?c div 4 * MiB < 2 ^ 63" by (simp_all add: MiB_def)
  then have "int64 (?c div 2 * MiB) = ?c div 2 * MiB" "int64 (?c div 4 * MiB) = ?c div 4 * MiB"
    by (intro int64_id; simp add: MiB_def)+
  moreover have "(if cache < 16 then 16 else cache) = ?c" "(if handles < 16 then 16 else handles) = max 16 handles" by auto
  ultimately show ?thesis by (simp only: open_options_def Let_def)
qed

text \<open>Opening a database. The engine is asked for at least 16 file handles, 8 MiB of block cache and
  4 MiB of write buffer, and for no more than the requested cache (for requests below 2^44, where the
  products cannot overflow). The database is opened with the path that was given, directly or, exactly
  when the engine reports a corruption, by a recovery; every other error is returned.\<close>

theorem NewLDBDatabase_outcomes:
  assumes "cache < 2 ^ 44" and "opts = open_options cache handles"
  shows "max 16 handles = o_OpenFilesCacheCapacity opts
    \<and> 8 * MiB \<le> o_BlockCacheCapacity opts \<and> 4 * MiB \<le> o_WriteBuffer opts
    \<and> o_BlockCacheCapacity opts + 2 * o_WriteBuffer opts \<le> max 16 cache * MiB
    \<and> (case NewLDBDatabase eng file cache handles of
         Inr (db, d) \<Rightarrow> LevelDB_Path db = file
           \<and> (gl_OpenFile eng file opts = Inr d
              \<or> (\<exists>err. gl_OpenFile eng file opts = Inl err \<and> gl_ErrCorrupted eng err \<and> gl_RecoverFile eng file = Inr d))
       | Inl err \<Rightarrow>
           (gl_OpenFile eng file opts = Inl err \<and> \<not> gl_ErrCorrupted eng err)
           \<or> (\<exists>err'. gl_OpenFile eng file opts = Inl err' \<and> gl_ErrCorrupted eng err' \<and> gl_RecoverFile eng file = Inl err))"
proof -
  let ?c = "max 16 cache"
  have "8 \<le> ?c div 2" "4 \<le> ?c div 4" "?c div 2 + 2 * (?c div 4) \<le> ?c" by auto
  then have "8 * MiB \<le> ?c div 2 * MiB \<and> 4 * MiB \<le> ?c div 4 * MiB \<and> ?c div 2 * MiB + 2 * (?c div 4 * MiB) \<le> ?c * MiB"
    by (simp add: MiB_def)
  then show ?thesis
    by (auto simp: assms(2) open_options_eq[OF assms(1)] NewLDBDatabase_def LevelDB_Path_def Let_def
        split: sum.splits if_splits)
qed

theorem NewLDBDatabase_outcomes_witness:
  "4 * MiB \<le> o_WriteBuffer (open_options 0 0)
   \<and> (case NewLDBDatabase memory_engine ''/data'' 0 0 of
        Inr (db, d) \<Rightarrow> LevelDB_Path db = ''/data''
      | Inl err \<Rightarrow> gl_OpenFile memory_engine ''/data'' (open_options 0 0) = Inl err
          \<or> gl_RecoverFile memory_engine ''/data'' = Inl err)"
  using NewLDBDatabase_outcomes[OF _ refl, of 0 0 memory_engine "''/data''"] by (auto split: sum.splits)

end
