(* ===== verification/Exec_Cmd.thy ===== *)
theory Exec_Cmd
  imports Prelude
begin

text \<open>
  Running commands: the retry loops of src/pkg/common/cmd/exec.go, and \<open>ExecWithWait\<close> of
  src/pkg/common/cmd/reboot.go with the goroutine that waits for the process. The operating system
  is an argument: \<open>run k c\<close> is the combined output and the error, if any, of the command \<open>c\<close>
  when \<open>k\<close> commands were run before. A \<open>nil\<close> slice is the empty string.
\<close>

section \<open>exec.go\<close>

text \<open>What is executed: the argument vector, and the time limit in seconds, if there is one.\<close>

record command =
  c_argv :: "string list"
  c_timeout :: "int option"

type_synonym 'e os_run = "nat \<Rightarrow> command \<Rightarrow> string \<times> 'e option"

definition execCmdline :: "'e os_run \<Rightarrow> string \<Rightarrow> nat \<Rightarrow> string \<times> 'e option" where
  "execCmdline run c k =
     (case run k \<lparr>c_argv = [''/bin/sh'', ''-c'', c], c_timeout = None\<rparr> of
        (result, Some err) \<Rightarrow> ('''', Some err)
      | (result, None) \<Rightarrow> (result, None))"

definition execCmdlineWithTimeout :: "'e os_run \<Rightarrow> string \<Rightarrow> int \<Rightarrow> nat \<Rightarrow> string \<times> 'e option" where
  "execCmdlineWithTimeout run c timeout k = run k \<lparr>c_argv = [''/bin/sh'', ''-c'', c], c_timeout = Some timeout\<rparr>"

definition execCmdfile :: "'e os_run \<Rightarrow> string \<Rightarrow> nat \<Rightarrow> string \<times> 'e option" where
  "execCmdfile run cmdFile k = run k \<lparr>c_argv = [''/bin/sh'', cmdFile], c_timeout = None\<rparr>"

definition execCmdfileWithTimeout :: "'e os_run \<Rightarrow> string \<Rightarrow> int \<Rightarrow> nat \<Rightarrow> string \<times> 'e option" where
  "execCmdfileWithTimeout run cmdFile timeout k = run k \<lparr>c_argv = [''/bin/sh'', cmdFile], c_timeout = Some timeout\<rparr>"

text \<open>
  The loop, which the four functions below repeat word for word: \<open>i\<close> is the loop variable, \<open>result\<close>
  and \<open>err\<close> the variables that are returned; the first component of the outcome counts the runs.
\<close>

function exec_loop ::
  "(nat \<Rightarrow> string \<times> 'e option) \<Rightarrow> int \<Rightarrow> int \<Rightarrow> string \<times> 'e option \<Rightarrow> nat \<times> string \<times> 'e option" where
  "exec_loop once retry i vars =
     (if i < retry then
        (let vars' = once (nat i) in
         if snd vars' = None then (nat i + 1, vars') else exec_loop once retry (i + 1) vars')
      else (nat i, vars))"
  by pat_completeness auto
termination
  by (relation "measure (\<lambda>(once, retry, i, vars). nat (retry - i))") auto

declare exec_loop.simps [simp del]

definition ExecCmd :: "'e os_run \<Rightarrow> string \<Rightarrow> int \<Rightarrow> nat \<times> string \<times> 'e option" where
  "ExecCmd run cmd retry = exec_loop (execCmdline run cmd) retry 0 ('''', None)"

definition ExecCmdWithTimeout :: "'e os_run \<Rightarrow> string \<Rightarrow> int \<Rightarrow> int \<Rightarrow> nat \<times> string \<times> 'e option" where
  "ExecCmdWithTimeout run cmd retry timeout = exec_loop (execCmdlineWithTimeout run cmd timeout) retry 0 ('''', None)"

definition ExecCmdFile :: "'e os_run \<Rightarrow> string \<Rightarrow> int \<Rightarrow> nat \<times> string \<times> 'e option" where
  "ExecCmdFile run cmd retry = exec_loop (execCmdfile run cmd) retry 0 ('''', None)"

definition ExecCmdFileWithTimeout :: "'e os_run \<Rightarrow> string \<Rightarrow> int \<Rightarrow> int \<Rightarrow> nat \<times> string \<times> 'e option" where
  "ExecCmdFileWithTimeout run cmd retry timeout = exec_loop (execCmdfileWithTimeout run cmd timeout) retry 0 ('''', None)"

section \<open>The outcome of a retry loop\<close>

text \<open>
  The contract: without attempts nothing is run and nothing is returned; otherwise the result is that
  of the first attempt which succeeds, or that of the last one, and no attempt follows it.
\<close>

definition retry_outcome :: "(nat \<Rightarrow> string \<times> 'e option) \<Rightarrow> nat \<Rightarrow> nat \<times> string \<times> 'e option" where
  "retry_outcome once n =
     (case find (\<lambda>k. snd (once k) = None) [0..<n] of
        Some k \<Rightarrow> (k + 1, once k)
      | None \<Rightarrow> if n = 0 then (0, '''', None) else (n, once (n - 1)))"

lemma exec_loop_next:
  assumes "m < n" and "snd (once m) \<noteq> None"
  shows "exec_loop once (int n) (int m) v = exec_loop once (int n) (int (Suc m)) (once m)"
proof -
  have "int m + 1 = int (Suc m)" by simp
  with assms show ?thesis by (subst exec_loop.simps) (simp only: Let_def nat_int of_nat_less_iff if_True if_False)
qed

lemma exec_loop_all_fail:
  assumes "\<forall>k<n. snd (once k) \<noteq> None" and "i \<le> n"
  shows "exec_loop once (int n) (int i) (if i = 0 then v else once (i - 1)) = (n, if n = 0 then v else once (n - 1))"
  using assms(2)
proof (induction rule: inc_induct)
  case base
  then show ?case by (subst exec_loop.simps) simp
next
  case (step m)
  then show ?case using exec_loop_next[of m n once] assms(1) by simp
qed

lemma exec_loop_success:
  assumes "\<forall>j<k. snd (once j) \<noteq> None" and "snd (once k) = None" and "k < n" and "i \<le> k"
  shows "exec_loop once (int n) (int i) v = (k + 1, once k)"
  using assms(4)
proof (induction arbitrary: v rule: inc_induct)
  case base
  then show ?case using assms(2,3) by (subst exec_loop.simps) (simp add: Let_def)
next
  case (step m)
  then show ?case using exec_loop_next[of m n once v] assms(1,3) by simp
qed

lemma exec_loop_outcome: "exec_loop once retry 0 ('''', None) = retry_outcome once (nat retry)"
proof (cases "retry \<le> 0")
  case True
  then show ?thesis by (subst exec_loop.simps) (simp add: retry_outcome_def)
next
  case False
  define n where "n = nat retry"
  have n: "retry = int n" "n > 0" using False by (auto simp: n_def)
  show ?thesis
  proof (cases "find (\<lambda>k. snd (once k) = None) [0..<n]")
    case None
    then have "\<forall>k<n. snd (once k) \<noteq> None" by (auto simp: find_None_iff)
    from exec_loop_all_fail[OF this, of 0 "('''', None)"] None n show ?thesis by (simp add: retry_outcome_def)
  next
    case (Some k)
    then have "k < n" "snd (once k) = None" "\<forall>j<k. snd (once j) \<noteq> None"
      by (auto simp: find_Some_iff)
    from exec_loop_success[OF this(3,2,1), of 0 "('''', None)"] Some n show ?thesis by (simp add: retry_outcome_def)
  qed
qed

text \<open>C38: The four ways of running a command with retries stop at the first success, run the command
  at most as often as asked, and return the outcome of the last run; on failure the output of a
  plain command line is dropped, while the other three return it together with the error. With no
  attempts, they return no error although nothing was run.\<close>

theorem Exec_retries:
  "ExecCmd run cmd retry = retry_outcome (\<lambda>k. case run k \<lparr>c_argv = [''/bin/sh'', ''-c'', cmd], c_timeout = None\<rparr> of
       (out, err) \<Rightarrow> (if err = None then out else '''', err)) (nat retry)
   \<and> ExecCmdWithTimeout run cmd retry t = retry_outcome (\<lambda>k. run k \<lparr>c_argv = [''/bin/sh'', ''-c'', cmd], c_timeout = Some t\<rparr>) (nat retry)
   \<and> ExecCmdFile run cmd retry = retry_outcome (\<lambda>k. run k \<lparr>c_argv = [''/bin/sh'', cmd], c_timeout = None\<rparr>) (nat retry)
   \<and> ExecCmdFileWithTimeout run cmd retry t = retry_outcome (\<lambda>k. run k \<lparr>c_argv = [''/bin/sh'', cmd], c_timeout = Some t\<rparr>) (nat retry)
   \<and> fst (ExecCmd run cmd retry) \<le> nat retry"
proof -
  have "execCmdline run cmd = (\<lambda>k. case run k \<lparr>c_argv = [''/bin/sh'', ''-c'', cmd], c_timeout = None\<rparr> of
       (out, err) \<Rightarrow> (if err = None then out else '''', err))"
    by (rule ext) (auto simp: execCmdline_def split: prod.splits option.splits)
  moreover have "fst (retry_outcome once n) \<le> n" for once :: "nat \<Rightarrow> string \<times> 'a option" and n
    by (auto simp: retry_outcome_def find_Some_iff split: option.splits)
  ultimately show ?thesis
    by (simp add: ExecCmd_def ExecCmdWithTimeout_def ExecCmdFile_def ExecCmdFileWithTimeout_def exec_loop_outcome
        execCmdlineWithTimeout_def[abs_def] execCmdfile_def[abs_def] execCmdfileWithTimeout_def[abs_def])
qed


section \<open>reboot.go\<close>

text \<open>
  \<open>ExecWithWait\<close> starts the process, and a goroutine that sends the outcome of waiting for it into a
  channel with room for one value; on an error it sends twice. \<open>ww_pc\<close> is where the goroutine is,
  \<open>ww_chan\<close> what the channel holds, \<open>ww_ret\<close> what the function has returned, if it has.
\<close>

datatype 'e wait_pc = Waiting | Send_err 'e | Send_nil | Exited

record 'e wait_state =
  ww_pc :: "'e wait_pc"
  ww_chan :: "'e option list"
  ww_ret :: "'e option option"

definition wait_argv :: "string \<Rightarrow> string \<Rightarrow> string list" where
  "wait_argv cmdfile conf =
     (if conf \<noteq> '''' then [cmdfile, ''-c'', conf] else [''sh'', ''-c'', cmdfile])"

definition ExecWithWait :: "(string list \<Rightarrow> 'e option) \<Rightarrow> string \<Rightarrow> string \<Rightarrow> 'e wait_state" where
  "ExecWithWait start cmdfile conf =
     (case start (wait_argv cmdfile conf) of
        Some err \<Rightarrow> \<lparr>ww_pc = Exited, ww_chan = [], ww_ret = Some (Some err)\<rparr>
      | None \<Rightarrow> \<lparr>ww_pc = Waiting, ww_chan = [], ww_ret = None\<rparr>)"

definition chanError_cap :: nat where "chanError_cap = 1"

text \<open>\<open>outcome\<close> is what \<open>bin.Wait\<close> returns once the process has ended.\<close>

inductive wait_step :: "'e option \<Rightarrow> 'e wait_state \<Rightarrow> 'e wait_state \<Rightarrow> bool" for outcome where
  wait_done: "ww_pc s = Waiting
    \<Longrightarrow> wait_step outcome s (s\<lparr>ww_pc := (case outcome of Some err \<Rightarrow> Send_err err | None \<Rightarrow> Send_nil)\<rparr>)"
| send_err: "ww_pc s = Send_err err \<Longrightarrow> length (ww_chan s) < chanError_cap
    \<Longrightarrow> wait_step outcome s (s\<lparr>ww_pc := Send_nil, ww_chan := ww_chan s @ [Some err]\<rparr>)"
| send_nil: "ww_pc s = Send_nil \<Longrightarrow> length (ww_chan s) < chanError_cap
    \<Longrightarrow> wait_step outcome s (s\<lparr>ww_pc := Exited, ww_chan := ww_chan s @ [None]\<rparr>)"
| receive: "ww_ret s = None \<Longrightarrow> ww_chan s = x # xs
    \<Longrightarrow> wait_step outcome s (s\<lparr>ww_ret := Some x, ww_chan := xs\<rparr>)"

inductive_cases wait_stepE: "wait_step outcome s t"

text \<open>The states that occur, for a process that was started.\<close>

definition wait_inv :: "'e option \<Rightarrow> 'e wait_state \<Rightarrow> bool" where
  "wait_inv outcome s \<longleftrightarrow>
     (case ww_pc s of
        Waiting \<Rightarrow> ww_chan s = [] \<and> ww_ret s = None
      | Send_err err \<Rightarrow> outcome = Some err \<and> ww_chan s = [] \<and> ww_ret s = None
      | Send_nil \<Rightarrow>
          (case outcome of
             None \<Rightarrow> ww_chan s = [] \<and> ww_ret s = None
           | Some err \<Rightarrow> ww_chan s = [Some err] \<and> ww_ret s = None \<or> ww_chan s = [] \<and> ww_ret s = Some (Some err))
      | Exited \<Rightarrow>
          (case outcome of
             None \<Rightarrow> ww_chan s = [None] \<and> ww_ret s = None \<or> ww_chan s = [] \<and> ww_ret s = Some None
           | Some err \<Rightarrow> ww_chan s = [None] \<and> ww_ret s = Some (Some err)))"

definition wait_left :: "'e wait_state \<Rightarrow> nat" where
  "wait_left s = (case ww_pc s of Waiting \<Rightarrow> 3 | Send_err _ \<Rightarrow> 2 | Send_nil \<Rightarrow> 1 | Exited \<Rightarrow> 0)
     + (if ww_ret s = None then 1 else 0)"

lemma wait_step_inv: "wait_inv outcome s \<Longrightarrow> wait_step outcome s t \<Longrightarrow> wait_inv outcome t"
  by (erule wait_stepE)
    (auto simp: wait_inv_def chanError_cap_def split: wait_pc.splits option.splits)

interpretation waiting: transition_system
  "\<lambda>s. s = \<lparr>ww_pc = Waiting, ww_chan = [], ww_ret = None\<rparr>" "wait_step outcome" "wait_inv outcome" for outcome
  by unfold_locales (simp add: wait_inv_def, rule wait_step_inv)

lemma wait_progress:
  assumes "wait_inv outcome s"
  shows "(ww_ret s = Some outcome \<and> ww_pc s = Exited) \<or> (\<exists>t. wait_step outcome s t)"
proof (cases "ww_ret s = None \<and> ww_chan s \<noteq> []")
  case True
  then show ?thesis by (meson wait_step.receive neq_Nil_conv)
next
  case False
  show ?thesis
  proof (cases "ww_pc s")
    case Waiting
    then show ?thesis by (meson wait_step.wait_done)
  next
    case (Send_err err)
    with assms have "length (ww_chan s) < chanError_cap" by (simp add: wait_inv_def chanError_cap_def)
    with Send_err show ?thesis by (meson wait_step.send_err)
  next
    case Send_nil
    with assms False have "length (ww_chan s) < chanError_cap"
      by (auto simp: wait_inv_def chanError_cap_def split: option.splits)
    with Send_nil show ?thesis by (meson wait_step.send_nil)
  next
    case Exited
    with assms False show ?thesis by (auto simp: wait_inv_def split: option.splits)
  qed
qed

text \<open>C21: Running a process and waiting for it. Once the process has started, in every state that is
  reached the function has returned nothing but the outcome of the process; every step makes progress,
  so that at most four steps are taken; and where no step is left, the function has returned and the
  goroutine has ended: the room for one value in the channel is what keeps it from waiting forever
  with its second message.\<close>

theorem ExecWithWait_returns:
  assumes "start (wait_argv cmdfile conf) = None"
    and "(wait_step outcome)\<^sup>*\<^sup>* (ExecWithWait start cmdfile conf) s"
  shows "ww_ret s \<in> {None, Some outcome}
    \<and> (\<forall>t. wait_step outcome s t \<longrightarrow> wait_left t < wait_left s) \<and> wait_left s \<le> 4
    \<and> ((\<nexists>t. wait_step outcome s t) \<longrightarrow> ww_ret s = Some outcome \<and> ww_pc s = Exited)"
proof -
  have "(wait_step outcome)\<^sup>*\<^sup>* \<lparr>ww_pc = Waiting, ww_chan = [], ww_ret = None\<rparr> s"
    using assms by (simp add: ExecWithWait_def)
  then have inv: "wait_inv outcome s" using waiting.reachable_inv[OF refl] by blast
  then have "ww_ret s \<in> {None, Some outcome}"
    by (auto simp: wait_inv_def split: wait_pc.splits option.splits)
  moreover have "wait_left t < wait_left s" if "wait_step outcome s t" for t
    using that by (rule wait_stepE) (auto simp: wait_left_def split: option.splits)
  moreover have "wait_left s \<le> 4" by (simp add: wait_left_def split: wait_pc.splits)
  ultimately show ?thesis using wait_progress[OF inv] by blast
qed

theorem ExecWithWait_returns_witness:
  "\<exists>s. (wait_step (Some ''exit status 1''))\<^sup>*\<^sup>* (ExecWithWait (\<lambda>_. None) ''run.sh'' '''') s
     \<and> (\<nexists>t. wait_step (Some ''exit status 1'') s t) \<and> ww_ret s = Some (Some ''exit status 1'') \<and> ww_pc s = Exited"
proof -
  let ?e = "''exit status 1''" and ?mk = "\<lambda>pc ch ret. \<lparr>ww_pc = pc, ww_chan = ch, ww_ret = ret\<rparr>"
  let ?step = "wait_step (Some ?e)" and ?fin = "?mk Exited [None] (Some (Some ?e))"
  have 1: "?step (?mk Waiting [] None) (?mk (Send_err ?e) [] None)"
    using wait_step.wait_done[of "?mk Waiting [] None" "Some ?e"] by simp
  have 2: "?step (?mk (Send_err ?e) [] None) (?mk Send_nil [Some ?e] None)"
    using wait_step.send_err[of "?mk (Send_err ?e) [] None" ?e "Some ?e"] by (simp add: chanError_cap_def)
  have 3: "?step (?mk Send_nil [Some ?e] None) (?mk Send_nil [] (Some (Some ?e)))"
    using wait_step.receive[of "?mk Send_nil [Some ?e] None" "Some ?e" "[]" "Some ?e"] by simp
  have 4: "?step (?mk Send_nil [] (Some (Some ?e))) ?fin"
    using wait_step.send_nil[of "?mk Send_nil [] (Some (Some ?e))" "Some ?e"] by (simp add: chanError_cap_def)
  have "?step\<^sup>*\<^sup>* (ExecWithWait (\<lambda>_. None) ''run.sh'' '''') ?fin"
    using 1 2 3 4 by (auto simp: ExecWithWait_def intro: converse_rtranclp_into_rtranclp)
  moreover have stuck: "\<nexists>t. ?step ?fin t" by (auto elim: wait_stepE)
  ultimately show ?thesis
    using ExecWithWait_returns[of "\<lambda>_. None" "''run.sh''" "''''" "Some ?e" ?fin] by auto
qed

end
