(* ===== verification/Rand_Source.thy ===== *)
theory Rand_Source
  imports Go_Std
begin

text \<open>
  The random source of src/pkg/common/rand.go, which reads \<open>crypto/rand\<close>: the reader is the list
  of the bytes that it still delivers, and it fails when they run out. \<open>crand_Int\<close> is
  \<open>crypto/rand.Int\<close>.
\<close>

section \<open>crypto/rand.Int\<close>

datatype rand_error = Short_read | Not_positive

definition first_mask :: "nat \<Rightarrow> byte" where
  "first_mask bitLen = (let b = bitLen mod 8 in of_nat (2 ^ (if b = 0 then 8 else b) - 1))"

definition mask_first :: "byte \<Rightarrow> byte list \<Rightarrow> byte list" where
  "mask_first m bs = (case bs of [] \<Rightarrow> [] | b # bs' \<Rightarrow> (b AND m) # bs')"

text \<open>Read \<open>k\<close> bytes, drop the surplus bits of the first one, and repeat until the number is small
  enough.\<close>

function int_loop :: "nat \<Rightarrow> byte \<Rightarrow> bigint \<Rightarrow> byte list \<Rightarrow> byte list \<times> (rand_error + bigint)" where
  "int_loop k m lim s =
     (if k = 0 \<or> length s < k then ([], Inl Short_read)
      else
       (let n = big_SetBytes (mask_first m (take k s)) in
        if n < lim then (drop k s, Inr n) else int_loop k m lim (drop k s)))"
  by pat_completeness auto
termination
  by (relation "measure (\<lambda>(k, m, lim, s). length s)") auto

declare int_loop.simps [simp del]

definition crand_Int :: "byte list \<Rightarrow> bigint \<Rightarrow> byte list \<times> (rand_error + bigint)" where
  "crand_Int s lim =
     (if lim \<le> 0 then (s, Inl Not_positive)
      else
       (let bitLen = big_BitLen (lim - 1) in
        if bitLen = 0 then (s, Inr 0)
        else int_loop ((bitLen + 7) div 8) (first_mask bitLen) lim s))"

section \<open>rand.go\<close>

definition maxInt63 :: bigint where "maxInt63 = int (unat (push_bit 63 1 :: u64))"

definition maxUint64 :: bigint where "maxUint64 = int (unat (- 1 :: u64)) + 1"

text \<open>\<open>None\<close> is the panic.\<close>

definition Int63 :: "byte list \<Rightarrow> byte list \<times> int option" where
  "Int63 s =
     (case crand_Int s maxInt63 of
        (s', Inl err) \<Rightarrow> (s', None)
      | (s', Inr i) \<Rightarrow> (s', Some (signed_take_bit 63 i)))"

definition Uint64 :: "byte list \<Rightarrow> byte list \<times> u64 option" where
  "Uint64 s =
     (case crand_Int s maxUint64 of
        (s', Inl err) \<Rightarrow> (s', None)
      | (s', Inr i) \<Rightarrow> (s', Some (of_int i)))"

definition Seed :: "int \<Rightarrow> byte list \<Rightarrow> byte list \<times> unit option" where
  "Seed x s = (s, None)"

section \<open>What is drawn\<close>

lemma maxInt63_eq: "maxInt63 = 2 ^ 63"
  by (simp add: maxInt63_def push_bit_eq_mult)

lemma maxUint64_eq: "maxUint64 = 2 ^ 64"
  by (simp add: maxUint64_def unat_u64_max)

lemma bitlens: "big_BitLen (2 ^ 63 - 1) = 63" "big_BitLen (2 ^ 64 - 1) = 64"
proof -
  have "k = n" if "k \<le> n" "\<not> k \<le> n - 1" for k n :: nat using that by simp
  then show "big_BitLen (2 ^ 63 - 1) = 63" "big_BitLen (2 ^ 64 - 1) = 64" by (simp_all add: big_BitLen_le_iff)
qed

lemma masks: "first_mask 63 = 127" "first_mask 64 = 255"
  by (simp_all add: first_mask_def)

definition be_val :: "byte list \<Rightarrow> nat" where
  "be_val bs = horner 256 (map unat bs)"

lemma be_val_less: "be_val bs < 256 ^ length bs"
  using horner_less[of "map unat bs" 256] by (simp add: be_val_def unat_byte_less)

lemma and_127: "unat (b AND 127 :: byte) = unat b mod 128"
proof -
  have "b AND 127 = take_bit 7 b" by (simp add: take_bit_eq_mask mask_eq_decr_exp)
  then show ?thesis by (simp only: unsigned_take_bit_eq) (simp add: take_bit_eq_mod)
qed

lemma mask_first_127:
  assumes "length bs = 8"
  shows "be_val (mask_first 127 bs) = be_val bs mod 2 ^ 63"
proof -
  obtain b bs' where bs: "bs = b # bs'" using assms by (cases bs) auto
  have lt: "be_val bs' < 256 ^ 7" using be_val_less[of bs'] assms by (simp add: bs)
  have "be_val bs = unat b * 256 ^ 7 + be_val bs'" using assms by (simp add: bs be_val_def)
  moreover have "be_val (mask_first 127 bs) = (unat b mod 128) * 256 ^ 7 + be_val bs'"
    using assms by (simp add: bs be_val_def mask_first_def and_127)
  moreover have "(x * 256 ^ 7 + y) mod 2 ^ 63 = (x mod 128) * 256 ^ 7 + y" if "y < 256 ^ 7" for x y :: nat
  proof -
    have "x * 256 ^ 7 = (128 * (x div 128) + x mod 128) * 256 ^ 7" by simp
    then have "x * 256 ^ 7 + y = (x div 128) * 2 ^ 63 + ((x mod 128) * 256 ^ 7 + y)"
      by (simp only: add_mult_distrib) simp
    moreover have "(x mod 128) * 256 ^ 7 + y < 2 ^ 63"
    proof -
      have "x mod 128 \<le> 127" by (simp add: less_Suc_eq_le[symmetric])
      then have "(x mod 128) * 256 ^ 7 \<le> 127 * 256 ^ 7" by (rule mult_right_mono) simp
      with that show ?thesis by simp
    qed
    ultimately show ?thesis by (simp only: mod_mult_self3 mod_less)
  qed
  ultimately show ?thesis using lt by presburger
qed


lemma int_loop_first:
  "0 < k \<Longrightarrow> k \<le> length s \<Longrightarrow> big_SetBytes (mask_first m (take k s)) < lim
   \<Longrightarrow> int_loop k m lim s = (drop k s, Inr (big_SetBytes (mask_first m (take k s))))"
  by (subst int_loop.simps) (simp add: Let_def)

lemma int_loop_short: "length s < k \<Longrightarrow> int_loop k m lim s = ([], Inl Short_read)"
  by (subst int_loop.simps) simp

lemma SetBytes_be: "big_SetBytes bs = int (be_val bs)"
  by (simp add: big_SetBytes_def be_val_def)

lemma mask_first_255: "mask_first 255 bs = bs"
proof -
  have "b AND 255 = b" for b :: byte
  proof -
    have "(255 :: byte) = - 1" by simp
    then show ?thesis by (simp only: and.right_neutral)
  qed
  then show ?thesis by (simp add: mask_first_def split: list.splits)
qed

lemma Int63_eq:
  "Int63 s = (if length s < 8 then ([], None) else (drop 8 s, Some (int (be_val (take 8 s) mod 2 ^ 63))))"
proof (cases "length s < 8")
  case True
  then show ?thesis
    by (simp add: Int63_def crand_Int_def maxInt63_eq bitlens[simplified] masks int_loop_short)
next
  case False
  let ?v = "be_val (take 8 s) mod 2 ^ 63"
  have v: "big_SetBytes (mask_first 127 (take 8 s)) = int ?v"
    using False mask_first_127[of "take 8 s"] by (simp only: SetBytes_be length_take)
  have lt: "int ?v < 2 ^ 63"
    by (simp add: zmod_int)
  have loop: "int_loop 8 127 (2 ^ 63) s = (drop 8 s, Inr (int ?v))"
    using int_loop_first[of 8 s 127 "2 ^ 63"] False v lt by simp
  have "signed_take_bit 63 (int ?v) = int ?v"
    using lt by (intro signed_take_bit_int_eq_self) auto
  with loop False show ?thesis
    by (simp add: Int63_def crand_Int_def maxInt63_eq bitlens[simplified] masks)
qed

lemma Uint64_eq:
  "Uint64 s = (if length s < 8 then ([], None) else (drop 8 s, Some (of_nat (be_val (take 8 s)))))"
proof (cases "length s < 8")
  case True
  then show ?thesis
    by (simp add: Uint64_def crand_Int_def maxUint64_eq bitlens[simplified] masks int_loop_short)
next
  case False
  have "be_val (take 8 s) < 256 ^ 8" using be_val_less[of "take 8 s"] False by simp
  then have "int (be_val (take 8 s)) < 2 ^ 64" by simp
  then have "int_loop 8 255 (2 ^ 64) s = (drop 8 s, Inr (int (be_val (take 8 s))))"
    using int_loop_first[of 8 s 255 "2 ^ 64"] False by (simp add: mask_first_255 SetBytes_be)
  with False show ?thesis
    by (simp add: Uint64_def crand_Int_def maxUint64_eq bitlens[simplified] masks)
qed

lemma be_val_inj: "length xs = length ys \<Longrightarrow> be_val xs = be_val ys \<Longrightarrow> xs = ys"
  using bytes_eqI by (simp add: be_val_def)

lemma be_val_surj:
  assumes "n < 256 ^ k"
  shows "\<exists>bs. length bs = k \<and> be_val bs = n"
proof -
  let ?bs = "map (of_nat :: nat \<Rightarrow> byte) (low_digits 256 k n)"
  have "map unat ?bs = low_digits 256 k n"
    using low_digits_less[of 256 k n] by (auto intro!: map_idI simp: unat_of_nat_byte)
  then have "be_val ?bs = n" using assms by (simp add: be_val_def horner_low_digits)
  then show ?thesis by (intro exI[of _ ?bs]) simp
qed

lemma be_val_bij: "bij_betw be_val {bs. length bs = k} {n. n < 256 ^ k}"
  unfolding bij_betw_def inj_on_def
  using be_val_inj be_val_surj be_val_less by (auto simp: image_iff) (metis)+


lemma be_val_card: "N \<subseteq> {n. n < 256 ^ k} \<Longrightarrow> card {bs. length bs = k \<and> be_val bs \<in> N} = card N"
proof -
  assume N: "N \<subseteq> {n. n < 256 ^ k}"
  have "bij_betw be_val {bs. length bs = k \<and> be_val bs \<in> N} N"
    using be_val_bij[of k] N by (auto simp: bij_betw_def inj_on_def image_iff)
  then show ?thesis by (rule bij_betw_same_card)
qed

lemma mod_two_ways: "n < 2 * M \<Longrightarrow> c < M \<Longrightarrow> n mod M = c \<longleftrightarrow> n = c \<or> n = c + M" for n :: nat
  by (cases "n < M") (auto simp: le_mod_geq)

text \<open>C39: The source is uniform. Each call reads eight bytes and panics exactly when the reader has no
  more; every value of \<open>Int63\<close> in its range is the outcome of exactly two of the \<open>256^8\<close> inputs, and
  every value of \<open>Uint64\<close> of exactly one. Seeding always panics.\<close>

theorem CryptoSource_uniform:
  assumes "0 \<le> v" and "v < 2 ^ 63"
  shows "card {bs. length bs = 8 \<and> Int63 (bs @ s) = (s, Some v)} = 2
    \<and> card {bs. length bs = 8 \<and> Uint64 (bs @ s) = (s, Some w)} = 1
    \<and> (snd (Int63 s) = None \<longleftrightarrow> length s < 8) \<and> (snd (Uint64 s) = None \<longleftrightarrow> length s < 8)
    \<and> snd (Seed x s) = None"
proof -
  have "{bs. length bs = 8 \<and> Int63 (bs @ s) = (s, Some v)} = {bs. length bs = 8 \<and> be_val bs \<in> {nat v, nat v + 2 ^ 63}}"
  proof -
    have "int (n mod 2 ^ 63) = v \<longleftrightarrow> n \<in> {nat v, nat v + 2 ^ 63}" if "n < 256 ^ 8" for n
      using mod_two_ways[of n "2 ^ 63" "nat v"] that assms by (simp add: int_eq_iff nat_less_iff)
    moreover have "Int63 (bs @ s) = (s, Some v) \<longleftrightarrow> int (be_val bs mod 2 ^ 63) = v" if "length bs = 8" for bs
      using that by (simp add: Int63_eq)
    ultimately have "Int63 (bs @ s) = (s, Some v) \<longleftrightarrow> be_val bs \<in> {nat v, nat v + 2 ^ 63}" if "length bs = 8" for bs
      using that be_val_less[of bs] by presburger
    then show ?thesis by blast
  qed
  moreover have "card {bs. length bs = 8 \<and> be_val bs \<in> {nat v, nat v + 2 ^ 63}} = card {nat v, nat v + 2 ^ 63}"
    using assms by (intro be_val_card) (auto simp: nat_less_iff)
  moreover have "{bs. length bs = 8 \<and> Uint64 (bs @ s) = (s, Some w)} = {bs. length bs = 8 \<and> be_val bs \<in> {unat w}}"
  proof -
    have "of_nat n = w \<longleftrightarrow> n = unat w" if "n < 256 ^ 8" for n
      using that unat_of_nat_u64[of n] by auto
    moreover have "Uint64 (bs @ s) = (s, Some w) \<longleftrightarrow> of_nat (be_val bs) = w" if "length bs = 8" for bs
      using that by (simp add: Uint64_eq)
    ultimately have "Uint64 (bs @ s) = (s, Some w) \<longleftrightarrow> be_val bs \<in> {unat w}" if "length bs = 8" for bs
      using that be_val_less[of bs] by simp
    then show ?thesis by blast
  qed
  moreover have "card {bs. length bs = 8 \<and> be_val bs \<in> {unat w}} = card {unat w}"
    using unat_u64_less[of w] by (intro be_val_card) simp
  ultimately show ?thesis by (simp add: Int63_eq Uint64_eq Seed_def)
qed

theorem CryptoSource_uniform_witness:
  "card {bs. length bs = 8 \<and> Int63 (bs @ []) = ([], Some 5)} = 2 \<and> card {bs. length bs = 8 \<and> Uint64 (bs @ []) = ([], Some 7)} = 1"
  using CryptoSource_uniform[of 5 "[]" 7 0] by simp

end
