(* ===== verification/Net_Utils.thy ===== *)
theory Net_Utils
  imports Go_Json
begin

text \<open>
  The network helpers of src/pkg/common/net.go. The interface addresses, resolving and listening
  are arguments; \<open>IP\<close> values are byte slices, with the operations of package \<open>net\<close> on them.
\<close>

section \<open>net.IP\<close>

definition To4 :: "byte list \<Rightarrow> byte list option" where
  "To4 ip =
     (if length ip = 4 then Some ip
      else if length ip = 16 \<and> take 10 ip = replicate 10 0 \<and> ip ! 10 = 255 \<and> ip ! 11 = 255 then Some (drop 12 ip)
      else None)"

definition IPv6loopback :: "byte list" where
  "IPv6loopback = replicate 15 0 @ [1]"

definition IsLoopback :: "byte list \<Rightarrow> bool" where
  "IsLoopback ip = (case To4 ip of Some ip4 \<Rightarrow> ip4 ! 0 = 127 | None \<Rightarrow> ip = IPv6loopback)"

text \<open>\<open>IP.String\<close> of an IPv4 address, the only ones the program prints.\<close>

definition ip4_String :: "byte list \<Rightarrow> string" where
  "ip4_String ip4 = Join (map (\<lambda>b. fmt_d (int (unat b))) ip4) (CHR ''.'')"

section \<open>net.go\<close>

datatype net_addr = IPNet "byte list" | OtherAddr string

definition GetListener :: "(string \<Rightarrow> 'e + 'addr) \<Rightarrow> ('addr \<Rightarrow> 'e + 'ln) \<Rightarrow> string \<Rightarrow> 'e + 'ln" where
  "GetListener resolve listen address =
     (case resolve address of
        Inl err \<Rightarrow> Inl err
      | Inr ld \<Rightarrow> (case listen ld of Inl e \<Rightarrow> Inl e | Inr ln \<Rightarrow> Inr ln))"

fun local_ips :: "net_addr list \<Rightarrow> string list \<Rightarrow> string list" where
  "local_ips [] ipList = ipList"
| "local_ips (addr # addrs) ipList =
     (case addr of
        IPNet ip \<Rightarrow>
          if \<not> IsLoopback ip then
            (case To4 ip of
               Some ip4 \<Rightarrow> local_ips addrs (ipList @ [ip4_String ip4])
             | None \<Rightarrow> local_ips addrs ipList)
          else local_ips addrs ipList
      | OtherAddr _ \<Rightarrow> local_ips addrs ipList)"

definition GetLocalAddress :: "'e + net_addr list \<Rightarrow> string list \<times> 'e option" where
  "GetLocalAddress interfaceAddrs =
     (case interfaceAddrs of
        Inl err \<Rightarrow> ([''localhost''], Some err)
      | Inr addrs \<Rightarrow> (local_ips addrs [], None))"

section \<open>Facts\<close>

lemma To4_length: "To4 ip = Some ip4 \<Longrightarrow> length ip4 = 4"
  by (auto simp: To4_def split: if_splits)

lemma local_ips_acc: "local_ips addrs acc = acc @ local_ips addrs []"
proof (induction addrs arbitrary: acc)
  case (Cons a addrs)
  show ?case
  proof (cases a)
    case (IPNet ip)
    then show ?thesis using Cons[of "acc @ _"] Cons[of acc] Cons[of "[_]"]
      by (auto split: option.splits)
  qed (use Cons[of acc] in simp)
qed simp

text \<open>The addresses that count: IPv4, also where an interface reports them in their 16-byte form,
  outside of 127.0.0.0/8.\<close>

definition public_ip4 :: "net_addr \<Rightarrow> byte list option" where
  "public_ip4 addr =
     (case addr of OtherAddr _ \<Rightarrow> None
      | IPNet ip \<Rightarrow> (case To4 ip of None \<Rightarrow> None | Some ip4 \<Rightarrow> if hd ip4 = 127 then None else Some ip4))"

lemma local_ips_eq: "local_ips addrs [] = map ip4_String (List.map_filter public_ip4 addrs)"
proof (induction addrs)
  case (Cons a addrs)
  have "hd ip4 = ip4 ! 0" if "To4 ip = Some ip4" for ip ip4
    using To4_length[OF that] by (cases ip4) auto
  with Cons local_ips_acc[of addrs "[_]"] show ?case
    by (auto simp: public_ip4_def IsLoopback_def List.map_filter_simps split: net_addr.splits option.splits)
qed (simp add: List.map_filter_simps)

lemma dot_fmt_d: "CHR ''.'' \<notin> set (fmt_d n)"
proof -
  have "dig 10 (CHR ''.'') = None" by code_simp
  with decimal_chars(2)[of "CHR ''.''" "nat \<bar>n\<bar>"] show ?thesis by (auto simp: fmt_d_def)
qed

lemma fmt_d_inj: "fmt_d (int m) = fmt_d (int n) \<longleftrightarrow> m = n"
proof
  assume "fmt_d (int m) = fmt_d (int n)"
  then have "numeral_of 10 (fmt_d (int m)) = numeral_of 10 (fmt_d (int n))" by simp
  then have "digits 10 m = digits 10 n" using decimal_chars(1) by (simp add: fmt_d_def)
  from arg_cong[OF this, of "horner 10"] show "m = n" by simp
qed simp

lemma ip4_String_inj:
  assumes "length a = 4" and "length b = 4" and "ip4_String a = ip4_String b"
  shows "a = b"
proof -
  have "Split (ip4_String x) (CHR ''.'') = map (\<lambda>b. fmt_d (int (unat b))) x" if "length x = 4" for x
    unfolding ip4_String_def using that dot_fmt_d by (intro Split_Join) auto
  with assms have "map (\<lambda>b. fmt_d (int (unat b))) a = map (\<lambda>b. fmt_d (int (unat b))) b" by metis
  moreover have "inj (\<lambda>b :: byte. fmt_d (int (unat b)))"
    unfolding inj_def fmt_d_inj by (simp add: word_unat_eq_iff)
  ultimately show ?thesis by (rule map_injective)
qed

text \<open>
  The local addresses are, in the order of the interfaces, the texts of the IPv4 addresses that are
  not loopback ones; different addresses have different texts. When the interfaces cannot be read, the
  name of the local host is returned together with the error.
\<close>

lemma GetLocalAddress_correct:
  "GetLocalAddress (Inr addrs :: 'e + _) = (map ip4_String (List.map_filter public_ip4 addrs), None)
   \<and> inj_on ip4_String (set (List.map_filter public_ip4 addrs))
   \<and> GetLocalAddress (Inl err) = ([''localhost''], Some err)"
proof -
  have "length ip4 = 4" if "ip4 \<in> set (List.map_filter public_ip4 addrs)" for ip4
  proof -
    from that obtain addr where "public_ip4 addr = Some ip4" by (auto simp: List.map_filter_def)
    then show ?thesis by (auto simp: public_ip4_def dest: To4_length split: net_addr.splits option.splits if_splits)
  qed
  then show ?thesis using ip4_String_inj by (simp add: GetLocalAddress_def local_ips_eq inj_on_def)
qed

end
