(* ===== verification/Go_Path.thy ===== *)
theory Go_Path
  imports Go_Std
begin

text \<open>
  What the program uses of \<open>path/filepath\<close>, on a Unix target: cleaning, joining and splitting
  paths; and of \<open>strings\<close> on longer patterns. The lemmas reduce the paths the program builds
  (a clean absolute path with simple names added to it) to lists of names.
\<close>

section \<open>strings\<close>

fun Contains :: "string \<Rightarrow> string \<Rightarrow> bool" where
  "Contains [] p = (p = [])"
| "Contains (c # cs) p = (HasPrefix (c # cs) p \<or> Contains cs p)"

text \<open>\<open>strings.Replace(s, p, q, 1)\<close> for a non-empty pattern.\<close>

fun Replace1 :: "string \<Rightarrow> string \<Rightarrow> string \<Rightarrow> string" where
  "Replace1 [] p q = []"
| "Replace1 (c # cs) p q =
     (if HasPrefix (c # cs) p then q @ drop (length p) (c # cs) else c # Replace1 cs p q)"

lemma HasPrefix_append_left: "HasPrefix a p \<Longrightarrow> HasPrefix (a @ b) p"
  by (auto simp: HasPrefix_iff)

lemma Contains_Nil_pattern [simp]: "Contains s []"
  by (cases s) (auto simp: HasPrefix_def)

lemma Contains_append: "Contains a p \<Longrightarrow> Contains (a @ b) p"
proof (induction a)
  case (Cons c cs)
  then show ?case using HasPrefix_append_left[of "c # cs" p b] by auto
qed simp

section \<open>path/filepath\<close>

text \<open>The loop of \<open>Clean\<close> over the parts of a path, with the parts kept so far in reverse.\<close>

fun clean_parts :: "bool \<Rightarrow> string list \<Rightarrow> string list \<Rightarrow> string list" where
  "clean_parts rooted [] st = rev st"
| "clean_parts rooted (c # cs) st =
     (if c = '''' \<or> c = ''.'' then clean_parts rooted cs st
      else if c = ''..'' then
        (case st of
           [] \<Rightarrow> clean_parts rooted cs (if rooted then [] else [''..''])
         | t # st' \<Rightarrow> if t = ''..'' then clean_parts rooted cs (''..'' # st) else clean_parts rooted cs st')
      else clean_parts rooted cs (c # st))"

definition build_path :: "bool \<Rightarrow> string list \<Rightarrow> string" where
  "build_path rooted cs =
     (if rooted then CHR ''/'' # Join cs (CHR ''/'') else if cs = [] then ''.'' else Join cs (CHR ''/''))"

definition path_parts :: "string \<Rightarrow> string list" where
  "path_parts p = clean_parts (HasPrefix p ''/'') (Split p (CHR ''/'')) []"

definition Clean :: "string \<Rightarrow> string" where
  "Clean p = (if p = '''' then ''.'' else build_path (HasPrefix p ''/'') (path_parts p))"

definition filepath_Join :: "string list \<Rightarrow> string" where
  "filepath_Join elems =
     (let es = dropWhile (\<lambda>e. e = '''') elems in if es = [] then '''' else Clean (Join es (CHR ''/'')))"

definition filepath_Dir :: "string \<Rightarrow> string" where
  "filepath_Dir p = Clean (rev (dropWhile (\<lambda>c. c \<noteq> CHR ''/'') (rev p)))"

definition filepath_Base :: "string \<Rightarrow> string" where
  "filepath_Base p =
     (if p = '''' then ''.''
      else
       (let q = rev (dropWhile (\<lambda>c. c = CHR ''/'') (rev p));
            b = rev (takeWhile (\<lambda>c. c \<noteq> CHR ''/'') (rev q))
        in if b = '''' then ''/'' else b))"

definition IsAbs :: "string \<Rightarrow> bool" where
  "IsAbs p \<longleftrightarrow> HasPrefix p ''/''"

section \<open>Clean absolute paths\<close>

definition simple_name :: "string \<Rightarrow> bool" where
  "simple_name n \<longleftrightarrow> n \<noteq> '''' \<and> n \<noteq> ''.'' \<and> n \<noteq> ''..'' \<and> CHR ''/'' \<notin> set n"

definition abs_path :: "string list \<Rightarrow> string" where
  "abs_path cs = build_path True cs"

lemma clean_parts_simple: "list_all simple_name cs \<Longrightarrow> clean_parts r cs st = rev st @ cs"
  by (induction cs arbitrary: st) (auto simp: simple_name_def)

lemma clean_parts_trailing: "clean_parts r (cs @ ['''']) st = clean_parts r cs st"
  by (induction r cs st rule: clean_parts.induct) (auto split: list.splits)

lemma clean_parts_append_simple:
  "list_all simple_name ds \<Longrightarrow> clean_parts r (cs @ ds) st = clean_parts r cs st @ ds"
  by (induction r cs st rule: clean_parts.induct) (auto simp: clean_parts_simple split: list.splits)

lemma Split_slash: "Split (CHR ''/'' # s) (CHR ''/'') = '''' # Split s (CHR ''/'')"
  by simp

lemma Split_Join_simple:
  "list_all simple_name cs \<Longrightarrow> Split (Join cs (CHR ''/'')) (CHR ''/'') = (if cs = [] then [''''] else cs)"
  using Split_Join[of cs "CHR ''/''"] by (auto simp: list_all_iff simple_name_def)

lemma path_parts_abs [simp]:
  assumes "list_all simple_name cs"
  shows "path_parts (abs_path cs) = cs"
  using assms clean_parts_simple[OF assms, of True "[]"]
  by (simp add: path_parts_def abs_path_def build_path_def Split_Join_simple HasPrefix_def)

lemma Clean_abs [simp]: "list_all simple_name cs \<Longrightarrow> Clean (abs_path cs) = abs_path cs"
  using path_parts_abs[of cs] by (simp add: Clean_def abs_path_def build_path_def HasPrefix_def)

lemma abs_path_inj:
  "list_all simple_name cs \<Longrightarrow> list_all simple_name ds \<Longrightarrow> abs_path cs = abs_path ds \<longleftrightarrow> cs = ds"
  using path_parts_abs by metis

lemma Join_snoc: "Join (cs @ [n]) sep = (if cs = [] then n else Join cs sep @ sep # n)"
proof (induction cs)
  case (Cons c cs)
  then show ?case by (cases cs) auto
qed simp

lemma Split_append: "Split (a @ sep # b) sep = Split a sep @ Split b sep"
proof (induction a)
  case (Cons c cs)
  then show ?case by (cases "Split cs sep") auto
qed simp

lemma Clean_snoc:
  assumes "list_all simple_name cs" "list_all simple_name ns" "ns \<noteq> []"
  shows "Clean (abs_path cs @ CHR ''/'' # Join ns (CHR ''/'')) = abs_path (cs @ ns)"
proof -
  have "Split (abs_path cs @ CHR ''/'' # Join ns (CHR ''/'')) (CHR ''/'')
      = '''' # (if cs = [] then [''''] else cs) @ ns"
    using assms Split_Join_simple[of cs] Split_Join_simple[of ns]
    by (simp add: Split_append abs_path_def build_path_def)
  moreover have "clean_parts True ('''' # (if cs = [] then [''''] else cs) @ ns) [] = cs @ ns"
    using assms clean_parts_simple[of "cs @ ns" True "[]"] clean_parts_simple[of ns True "[]"] by auto
  ultimately show ?thesis
    by (simp add: Clean_def path_parts_def HasPrefix_def abs_path_def build_path_def)
qed

lemma Join_abs [simp]:
  assumes "list_all simple_name cs" "simple_name n"
  shows "filepath_Join [abs_path cs, n] = abs_path (cs @ [n])"
  using Clean_snoc[OF assms(1), of "[n]"] assms(2)
  by (simp add: filepath_Join_def abs_path_def build_path_def simple_name_def)

lemma while_no_slash:
  assumes "CHR ''/'' \<notin> set n"
  shows "dropWhile (\<lambda>c. c \<noteq> CHR ''/'') (rev n @ CHR ''/'' # xs) = CHR ''/'' # xs"
    and "takeWhile (\<lambda>c. c \<noteq> CHR ''/'') (rev n @ CHR ''/'' # xs) = rev n"
proof -
  have all: "\<And>x. x \<in> set (rev n) \<Longrightarrow> x \<noteq> CHR ''/''" using assms by auto
  show "dropWhile (\<lambda>c. c \<noteq> CHR ''/'') (rev n @ CHR ''/'' # xs) = CHR ''/'' # xs"
    using dropWhile_append2[of "rev n" "\<lambda>c. c \<noteq> CHR ''/''"] all by simp
  show "takeWhile (\<lambda>c. c \<noteq> CHR ''/'') (rev n @ CHR ''/'' # xs) = rev n"
    using takeWhile_append2[of "rev n" "\<lambda>c. c \<noteq> CHR ''/''"] all by simp
qed

lemma Dir_abs [simp]:
  assumes "list_all simple_name cs" "simple_name n"
  shows "filepath_Dir (abs_path (cs @ [n])) = abs_path cs"
proof -
  have n: "CHR ''/'' \<notin> set n" using assms(2) by (simp add: simple_name_def)
  have path: "abs_path (cs @ [n]) = (CHR ''/'' # (if cs = [] then [] else Join cs (CHR ''/'') @ ''/'')) @ n"
    by (simp add: abs_path_def build_path_def Join_snoc)
  let ?d = "CHR ''/'' # (if cs = [] then [] else Join cs (CHR ''/'') @ ''/'')"
  have "dropWhile (\<lambda>c. c \<noteq> CHR ''/'') (rev (?d @ n)) = rev ?d"
    using while_no_slash(1)[OF n] by simp
  then have dir: "filepath_Dir (abs_path (cs @ [n])) = Clean ?d" by (simp only: filepath_Dir_def path rev_rev_ident)
  have "Split ?d (CHR ''/'') = '''' # cs @ ['''']"
    using Split_Join_simple[OF assms(1)] Split_append[of "Join cs (CHR ''/'')" "CHR ''/''" "[]"] by auto
  moreover have "clean_parts True ('''' # cs @ ['''']) [] = cs"
    using clean_parts_simple[OF assms(1), of True "[]"] clean_parts_trailing[of True "'''' # cs" "[]"] by simp
  ultimately show ?thesis unfolding dir
    by (simp add: Clean_def path_parts_def HasPrefix_def abs_path_def build_path_def)
qed

lemma Base_abs [simp]:
  assumes "simple_name n"
  shows "filepath_Base (abs_path (cs @ [n])) = n"
proof -
  have n: "CHR ''/'' \<notin> set n" "n \<noteq> []" using assms by (simp_all add: simple_name_def)
  obtain d where path: "abs_path (cs @ [n]) = (d @ ''/'') @ n"
  proof (cases "cs = []")
    case True
    then show thesis using that[of "[]"] by (simp add: abs_path_def build_path_def)
  next
    case False
    then show thesis using that[of "CHR ''/'' # Join cs (CHR ''/'')"] by (simp add: abs_path_def build_path_def Join_snoc)
  qed
  have "dropWhile (\<lambda>c. c = CHR ''/'') (rev n @ xs) = rev n @ xs" for xs
    using n by (cases "rev n") auto
  moreover note while_no_slash(2)[OF n(1)]
  ultimately show ?thesis using n(2) by (simp add: filepath_Base_def path)
qed

end
