(* ===== verification/File_Utils.thy ===== *)
theory File_Utils
  imports Go_Path
begin

text \<open>
  A file system with the system calls that the program uses, and the helpers of
  src/pkg/common/files.go on top of it. A file system maps clean paths to nodes (no symbolic
  links, no permissions). A call looks its clean path up; besides the failures that follow
  from the state, the environment can make any call fail: \<open>fault op path\<close> is the
  error it injects, if any. A write that fails leaves the file empty.
\<close>

section \<open>System calls\<close>

datatype node = Dir | File string

type_synonym fs = "string \<Rightarrow> node option"

type_synonym faults = "string \<Rightarrow> string \<Rightarrow> string option"

definition no_faults :: faults where "no_faults op p = None"

definition os_Mkdir :: "faults \<Rightarrow> string \<Rightarrow> fs \<Rightarrow> fs \<times> string option" where
  "os_Mkdir fault p fs =
     (let q = Clean p in
      case fault ''mkdir'' q of
        Some e \<Rightarrow> (fs, Some e)
      | None \<Rightarrow>
          if fs q \<noteq> None then (fs, Some ''file exists'')
          else if fs (filepath_Dir q) \<noteq> Some Dir then (fs, Some ''no such file or directory'')
          else (fs(q \<mapsto> Dir), None))"

text \<open>The ancestors of a path and the path itself, outermost first.\<close>

definition ancestors :: "string \<Rightarrow> string list" where
  "ancestors p =
     (let cs = path_parts p in map (\<lambda>k. build_path (IsAbs p) (take k cs)) [1..<length cs + 1])"

fun mkdir_each :: "faults \<Rightarrow> string list \<Rightarrow> fs \<Rightarrow> fs \<times> string option" where
  "mkdir_each fault [] fs = (fs, None)"
| "mkdir_each fault (p # ps) fs =
     (case fs p of
        Some Dir \<Rightarrow> mkdir_each fault ps fs
      | Some (File _) \<Rightarrow> (fs, Some ''not a directory'')
      | None \<Rightarrow>
          (case os_Mkdir fault p fs of
             (fs', Some e) \<Rightarrow> (fs', Some e)
           | (fs', None) \<Rightarrow> mkdir_each fault ps fs'))"

definition os_MkdirAll :: "faults \<Rightarrow> string \<Rightarrow> fs \<Rightarrow> fs \<times> string option" where
  "os_MkdirAll fault p fs =
     (if p = '''' then (fs, Some ''no such file or directory'') else mkdir_each fault (ancestors p) fs)"

lemma abs_path_nonempty [simp]: "abs_path cs \<noteq> ''''"
  by (simp add: abs_path_def build_path_def)

definition os_Create :: "faults \<Rightarrow> string \<Rightarrow> fs \<Rightarrow> fs \<times> string option" where
  "os_Create fault p fs =
     (let q = Clean p in
      case fault ''create'' q of
        Some e \<Rightarrow> (fs, Some e)
      | None \<Rightarrow>
          if fs q = Some Dir then (fs, Some ''is a directory'')
          else if fs (filepath_Dir q) \<noteq> Some Dir then (fs, Some ''no such file or directory'')
          else (fs(q \<mapsto> File ''''), None))"

definition file_Write :: "faults \<Rightarrow> string \<Rightarrow> string \<Rightarrow> fs \<Rightarrow> fs \<times> string option" where
  "file_Write fault p content fs =
     (case fault ''write'' (Clean p) of
        Some e \<Rightarrow> (fs, Some e)
      | None \<Rightarrow> (fs(Clean p \<mapsto> File content), None))"

text \<open>\<open>os.Remove\<close>; that a directory is not empty is one of the failures which the environment
  reports.\<close>

definition os_Remove :: "faults \<Rightarrow> string \<Rightarrow> fs \<Rightarrow> fs \<times> string option" where
  "os_Remove fault p fs =
     (let q = Clean p in
      case fault ''remove'' q of
        Some e \<Rightarrow> (fs, Some e)
      | None \<Rightarrow>
          if fs q = None then (fs, Some ''no such file or directory'')
          else (fs(q := None), None))"

definition os_Rename :: "faults \<Rightarrow> string \<Rightarrow> string \<Rightarrow> fs \<Rightarrow> fs \<times> string option" where
  "os_Rename fault src dst fs =
     (let p = Clean src; q = Clean dst in
      case fault ''rename'' p of
        Some e \<Rightarrow> (fs, Some e)
      | None \<Rightarrow>
          if fs p = None then (fs, Some ''no such file or directory'')
          else if fs q = Some Dir then (fs, Some ''file exists'')
          else (fs(p := None, q := fs p), None))"

text \<open>\<open>ioutil.TempFile\<close>: the suffix is random, and a name that is taken is not used.\<close>

definition TempFile :: "faults \<Rightarrow> string \<Rightarrow> string \<Rightarrow> string \<Rightarrow> fs \<Rightarrow> fs \<times> (string + string)" where
  "TempFile fault suffix dir prefix fs =
     (let name = filepath_Join [dir, prefix @ suffix] in
      if fs (Clean name) \<noteq> None then (fs, Inl ''file exists'')
      else case os_Create fault name fs of
        (fs', Some e) \<Rightarrow> (fs', Inl e)
      | (fs', None) \<Rightarrow> (fs', Inr name))"

section \<open>files.go\<close>

text \<open>\<open>os.Stat\<close> reports that the file does not exist; any other error counts as existing.\<close>

definition not_exist :: "faults \<Rightarrow> string \<Rightarrow> fs \<Rightarrow> bool" where
  "not_exist fault p fs \<longleftrightarrow> fault ''stat'' (Clean p) = None \<and> fs (Clean p) = None"

definition FileExist :: "faults \<Rightarrow> string \<Rightarrow> fs \<Rightarrow> bool" where
  "FileExist fault filePath fs = (if not_exist fault filePath fs then False else True)"

definition AbsolutePath :: "string \<Rightarrow> string \<Rightarrow> string" where
  "AbsolutePath datadir filename =
     (if IsAbs filename then filename else filepath_Join [datadir, filename])"

definition WriteFile :: "faults \<Rightarrow> string \<Rightarrow> string \<Rightarrow> string \<Rightarrow> fs \<Rightarrow> fs \<times> string option" where
  "WriteFile fault suffix file content fs =
     (let (fs1, err) = (if not_exist fault file fs then os_MkdirAll fault (filepath_Dir file) fs else (fs, None)) in
      case err of
        Some e \<Rightarrow> (fs1, Some e)
      | None \<Rightarrow>
          (case TempFile fault suffix (filepath_Dir file) (''.'' @ filepath_Base file @ ''.tmp'') fs1 of
             (fs2, Inl e) \<Rightarrow> (fs2, Some e)
           | (fs2, Inr f) \<Rightarrow>
               (case file_Write fault f content fs2 of
                  (fs3, Some e) \<Rightarrow> (fst (os_Remove fault f fs3), Some e)
                | (fs3, None) \<Rightarrow> os_Rename fault f file fs3)))"

text \<open>\<open>entries\<close> is the outcome of \<open>ioutil.ReadDir\<close>: names, and whether they are directories.\<close>

definition GetFileList :: "(string + (string \<times> bool) list) \<Rightarrow> string \<Rightarrow> bool \<Rightarrow> string + string list" where
  "GetFileList entries expZipFile isExtName =
     (case entries of
        Inl e \<Rightarrow> Inl e
      | Inr files \<Rightarrow>
          Inr (concat (map (\<lambda>(name, isDir).
            if isDir then []
            else
             (let fileTemp = Split name (CHR ''.'') in
              if last fileTemp = expZipFile then [if isExtName then name else hd fileTemp] else [])) files)))"

definition ReadFile :: "faults \<Rightarrow> string \<Rightarrow> fs \<Rightarrow> string + string" where
  "ReadFile fault file fs =
     (case fault ''read'' (Clean file) of
        Some e \<Rightarrow> Inl e
      | None \<Rightarrow>
          (case fs (Clean file) of
             None \<Rightarrow> Inl ''no such file or directory''
           | Some Dir \<Rightarrow> Inl ''is a directory''
           | Some (File content) \<Rightarrow> Inr content))"

definition RemoveFile :: "faults \<Rightarrow> string \<Rightarrow> fs \<Rightarrow> fs \<times> string option" where
  "RemoveFile fault file fs =
     (if not_exist fault file fs then (fs, Some ''no such file or directory'') else os_Remove fault file fs)"

text \<open>The directory that \<open>ioutil.TempDir\<close> makes, or a panic with its error.\<close>

definition GetRandFilePath :: "string + string \<Rightarrow> string option" where
  "GetRandFilePath tempDir = (case tempDir of Inl err \<Rightarrow> None | Inr dir \<Rightarrow> Some dir)"

section \<open>Facts on the calls\<close>

text \<open>\<open>fs'\<close> extends \<open>fs\<close> by directories only.\<close>

definition adds_dirs :: "fs \<Rightarrow> fs \<Rightarrow> bool" where
  "adds_dirs fs fs' \<longleftrightarrow> (\<forall>q. fs' q = fs q \<or> fs q = None \<and> fs' q = Some Dir)"

lemma adds_dirs_refl [simp]: "adds_dirs fs fs"
  by (simp add: adds_dirs_def)

lemma adds_dirs_trans: "adds_dirs a b \<Longrightarrow> adds_dirs b c \<Longrightarrow> adds_dirs a c"
  unfolding adds_dirs_def by metis

lemma os_Mkdir_adds: "adds_dirs fs (fst (os_Mkdir fault p fs))"
  by (auto simp: os_Mkdir_def adds_dirs_def Let_def split: option.splits)

lemma mkdir_each_adds: "adds_dirs fs (fst (mkdir_each fault ps fs))"
proof (induction fault ps fs rule: mkdir_each.induct)
  case (2 fault p ps fs)
  have "adds_dirs fs (fst (os_Mkdir fault p fs))" by (rule os_Mkdir_adds)
  with 2 show ?case by (auto split: option.splits node.splits prod.splits intro: adds_dirs_trans)
qed simp

lemma os_MkdirAll_adds: "adds_dirs fs (fst (os_MkdirAll fault p fs))"
  by (simp add: os_MkdirAll_def mkdir_each_adds)

lemma mkdir_each_made:
  "mkdir_each fault ps fs = (fs', None) \<Longrightarrow> \<forall>p\<in>set ps. Clean p = p \<longrightarrow> fs' p = Some Dir"
proof (induction fault ps fs rule: mkdir_each.induct)
  case (2 fault p ps fs)
  have keep: "fs1 p = Some Dir \<Longrightarrow> mkdir_each fault ps fs1 = (fs', None) \<Longrightarrow> fs' p = Some Dir" for fs1
    using mkdir_each_adds[of fs1 fault ps] by (auto simp: adds_dirs_def) (metis option.distinct(1))
  show ?case
  proof (cases "fs p")
    case None
    with "2.prems" obtain fs1 where m: "os_Mkdir fault p fs = (fs1, None)" "mkdir_each fault ps fs1 = (fs', None)"
      by (auto split: prod.splits option.splits)
    then have "Clean p = p \<Longrightarrow> fs1 p = Some Dir"
      by (auto simp: os_Mkdir_def Let_def split: option.splits if_splits)
    with 2 None m keep show ?thesis by auto
  next
    case (Some nd)
    with 2 keep[of fs] show ?thesis by (cases nd) auto
  qed
qed simp

section \<open>Atomic writing\<close>

text \<open>The file that is written, its directory and the temporary file next to it.\<close>

lemma simple_tmp: "simple_name n \<Longrightarrow> CHR ''/'' \<notin> set suffix \<Longrightarrow> simple_name (''.'' @ n @ ''.tmp'' @ suffix)"
  by (auto simp: simple_name_def)

lemma tmp_differs: "(''.'' @ n @ ''.tmp'' @ suffix) \<noteq> n"
proof
  assume "''.'' @ n @ ''.tmp'' @ suffix = n"
  then have "length (''.'' @ n @ ''.tmp'' @ suffix) = length n" by (rule arg_cong)
  then show False by simp
qed

lemma write_tail:
  assumes path: "list_all simple_name cs" "simple_name n" "CHR ''/'' \<notin> set suffix"
    and p: "p = abs_path (cs @ [n])"
    and tail: "(fs', err) =
      (case TempFile fault suffix (filepath_Dir p) (''.'' @ filepath_Base p @ ''.tmp'') fs of
         (fs2, Inl e) \<Rightarrow> (fs2, Some e)
       | (fs2, Inr f) \<Rightarrow>
           (case file_Write fault f content fs2 of
              (fs3, Some e) \<Rightarrow> (fst (os_Remove fault f fs3), Some e)
            | (fs3, None) \<Rightarrow> os_Rename fault f p fs3))"
  defines "tmp \<equiv> abs_path (cs @ [''.'' @ n @ ''.tmp'' @ suffix])"
  shows "(err = None \<longrightarrow> fs' = fs(p \<mapsto> File content)) \<and> (err \<noteq> None \<longrightarrow> fs' = fs \<or> (\<exists>nd. fs' = fs(tmp := nd)) \<and> fs tmp = None)"
    and "tmp \<noteq> p"
proof -
  note nm = simple_tmp[OF path(2,3)]
  have all: "list_all simple_name (cs @ [n])" "list_all simple_name (cs @ [''.'' @ n @ ''.tmp'' @ suffix])"
    using path(1,2) nm by simp_all
  show ne: "tmp \<noteq> p"
    using abs_path_inj[OF all(2,1)] tmp_differs[of n suffix] by (simp add: p tmp_def)
  have name: "filepath_Join [filepath_Dir p, (''.'' @ filepath_Base p @ ''.tmp'') @ suffix] = tmp"
    using Join_abs[OF path(1) nm] path(1,2) by (simp add: p tmp_def)
  have clean: "Clean tmp = tmp" "Clean p = p"
    unfolding p tmp_def using Clean_abs[OF all(1)] Clean_abs[OF all(2)] by blast+
  have temp: "TempFile fault suffix (filepath_Dir p) (''.'' @ filepath_Base p @ ''.tmp'') fs =
      (if fs tmp \<noteq> None then (fs, Inl ''file exists'')
       else case os_Create fault tmp fs of (fs', Some e) \<Rightarrow> (fs', Inl e) | (fs', None) \<Rightarrow> (fs', Inr tmp))"
    by (simp only: TempFile_def Let_def name clean)
  note defs = os_Create_def file_Write_def os_Remove_def os_Rename_def clean Let_def
  show "(err = None \<longrightarrow> fs' = fs(p \<mapsto> File content)) \<and> (err \<noteq> None \<longrightarrow> fs' = fs \<or> (\<exists>nd. fs' = fs(tmp := nd)) \<and> fs tmp = None)"
    using tail[unfolded temp] ne by (auto simp: defs fun_upd_twist split: if_splits option.splits)
qed


lemma mkdir_each_other:
  "q \<notin> Clean ` set ps \<Longrightarrow> fst (mkdir_each fault ps fs) q = fs q"
proof (induction fault ps fs rule: mkdir_each.induct)
  case (2 fault p ps fs)
  have "fst (os_Mkdir fault p fs) q = fs q"
    using "2.prems" by (auto simp: os_Mkdir_def Let_def split: option.splits)
  with 2 show ?case by (auto split: option.splits node.splits prod.splits)
qed simp

lemma ancestors_abs:
  "list_all simple_name cs \<Longrightarrow> ancestors (abs_path cs) = map (\<lambda>k. abs_path (take k cs)) [1..<length cs + 1]"
  using path_parts_abs[of cs] by (simp add: ancestors_def IsAbs_def HasPrefix_def abs_path_def build_path_def)

lemma list_all_take: "list_all P xs \<Longrightarrow> list_all P (take k xs)"
  by (auto simp: list_all_iff dest: in_set_takeD)

lemma MkdirAll_keeps_file:
  assumes "list_all simple_name cs" "simple_name n"
  shows "fst (os_MkdirAll fault (abs_path cs) fs) (abs_path (cs @ [n])) = fs (abs_path (cs @ [n]))"
proof -
  have "abs_path (cs @ [n]) \<noteq> Clean (abs_path (take k cs))" for k
  proof -
    have "list_all simple_name (take k cs)" by (rule list_all_take[OF assms(1)])
    then have "abs_path (cs @ [n]) = Clean (abs_path (take k cs)) \<longleftrightarrow> cs @ [n] = take k cs"
      using assms by (simp add: abs_path_inj)
    moreover have "length (take k cs) < length (cs @ [n])" by simp
    ultimately show ?thesis by fastforce
  qed
  then have "abs_path (cs @ [n]) \<notin> Clean ` set (ancestors (abs_path cs))"
    by (auto simp: ancestors_abs[OF assms(1)])
  then show ?thesis by (simp add: os_MkdirAll_def mkdir_each_other)
qed

text \<open>C20: Writing a file is atomic. Whatever system call fails, the file holds either all of
  the new content, and then no error is returned, or exactly what it held before, with the
  error. Apart from it, only missing directories are created; a failed write can leave nothing
  else behind than the temporary file, whose name was free before.\<close>

theorem WriteFile_atomic:
  assumes path: "list_all simple_name cs" "simple_name n" "CHR ''/'' \<notin> set suffix"
    and p: "p = abs_path (cs @ [n])" and tmp: "tmp = abs_path (cs @ [''.'' @ n @ ''.tmp'' @ suffix])"
  shows "case WriteFile fault suffix p content fs of
      (fs', None) \<Rightarrow> fs' p = Some (File content) \<and> adds_dirs (fs(p \<mapsto> File content)) fs'
    | (fs', Some e) \<Rightarrow> fs' p = fs p \<and> adds_dirs (fs(tmp := fs' tmp)) fs' \<and> fs tmp \<in> {None, fs' tmp}"
proof -
  let ?start = "if not_exist fault p fs then os_MkdirAll fault (filepath_Dir p) fs else (fs, None)"
  obtain fs1 e1 where start: "?start = (fs1, e1)" by fastforce
  have dir: "filepath_Dir p = abs_path cs" using path by (simp add: p)
  have adds: "adds_dirs fs fs1"
    using start os_MkdirAll_adds[of fs fault "filepath_Dir p"] by (auto split: if_splits)
  have same: "fs1 p = fs p"
    using start[unfolded dir] MkdirAll_keeps_file[OF path(1,2), of fault fs, folded p] by (auto split: if_splits)
  have stmp: "fs1 tmp = fs tmp"
    using start[unfolded dir] MkdirAll_keeps_file[OF path(1) simple_tmp[OF path(2,3)], of fault fs, folded tmp]
    by (auto split: if_splits)
  obtain fs' err where w: "WriteFile fault suffix p content fs = (fs', err)" by fastforce
  show ?thesis
  proof (cases e1)
    case (Some e)
    with w start have "fs' = fs1" "err = Some e" by (simp_all add: WriteFile_def)
    then show ?thesis using w adds same stmp by (simp add: adds_dirs_def)
  next
    case None
    with w start have "(fs', err) = (case TempFile fault suffix (filepath_Dir p) (''.'' @ filepath_Base p @ ''.tmp'') fs1 of
         (fs2, Inl e) \<Rightarrow> (fs2, Some e)
       | (fs2, Inr f) \<Rightarrow>
           (case file_Write fault f content fs2 of
              (fs3, Some e) \<Rightarrow> (fst (os_Remove fault f fs3), Some e)
            | (fs3, None) \<Rightarrow> os_Rename fault f p fs3))"
      by (simp add: WriteFile_def)
    note tail = write_tail[OF path p this, folded tmp]
    show ?thesis
    proof (cases err)
      case None
      with tail have "fs' = fs1(p \<mapsto> File content)" by simp
      with w None adds show ?thesis by (simp add: adds_dirs_def)
    next
      case (Some e)
      with tail consider "fs' = fs1" | nd where "fs' = fs1(tmp := nd)" "fs1 tmp = None" by auto
      then show ?thesis using w Some adds same stmp tail(2) by cases (auto simp: adds_dirs_def)
    qed
  qed
qed

lemma WriteFile_atomic_witness:
  "case WriteFile (\<lambda>op q. if op = ''rename'' then Some ''cross-device link'' else None) ''7''
      (abs_path [''data'', ''key'']) ''secret'' (\<lambda>q. if q = ''/'' then Some Dir else None) of
      (fs', None) \<Rightarrow> fs' (abs_path [''data'', ''key'']) = Some (File ''secret'')
    | (fs', Some e) \<Rightarrow> fs' (abs_path [''data'', ''key'']) = None"
  using WriteFile_atomic[where cs = "[''data'']" and n = "''key''" and suffix = "''7''"
      and p = "abs_path [''data'', ''key'']" and tmp = "abs_path [''data'', ''.key.tmp7'']"
      and fault = "\<lambda>op q. if op = ''rename'' then Some ''cross-device link'' else None"
      and content = "''secret''" and fs = "\<lambda>q. if q = ''/'' then Some Dir else None"]
  by (auto simp: simple_name_def abs_path_def build_path_def split: prod.splits option.splits)

text \<open>The listing keeps the order, skips directories and takes files by the text after the
  last dot; without the extension it returns the text before the first dot.\<close>

lemma GetFileList_names:
  assumes "GetFileList (Inr files) ext True = Inr names"
  shows "names = map fst (filter (\<lambda>(name, isDir). \<not> isDir \<and> last (Split name (CHR ''.'')) = ext) files)"
proof -
  have "GetFileList (Inr files) ext True =
      Inr (map fst (filter (\<lambda>(name, isDir). \<not> isDir \<and> last (Split name (CHR ''.'')) = ext) files))"
    unfolding GetFileList_def sum.case sum.inject
    by (induction files) (simp_all add: Let_def split: prod.splits)
  with assms show ?thesis by simp
qed

lemma GetFileList_drops_middle: "GetFileList (Inr [(''a.b.txt'', False)]) ''txt'' False = Inr [''a'']"
  by (simp add: GetFileList_def)

lemma WriteFile_ReadFile:
  assumes "list_all simple_name cs" "simple_name n" "CHR ''/'' \<notin> set suffix" "p = abs_path (cs @ [n])"
    and "WriteFile fault suffix p content fs = (fs', None)" and "fault ''read'' p = None"
  shows "ReadFile fault p fs' = Inr content"
proof -
  have "Clean p = p" using assms(1,2,4) by simp
  moreover have "fs' p = Some (File content)"
  proof -
    obtain fs1 e1 where start: "(if not_exist fault p fs then os_MkdirAll fault (filepath_Dir p) fs else (fs, None)) = (fs1, e1)"
      by fastforce
    with assms(5) have "e1 = None" by (cases e1) (auto simp: WriteFile_def)
    with assms(5) start
      write_tail(1)[OF assms(1-4), where fs' = fs' and err = None and fault = fault and fs = fs1 and content = content]
    show ?thesis by (simp add: WriteFile_def)
  qed
  ultimately show ?thesis using assms(6) by (simp add: ReadFile_def)
qed

end
