(* ===== verification/Version_Info.thy ===== *)
theory Version_Info
  imports Go_Json
begin

text \<open>
  The version string of an application (src/pkg/types/version.go). A \<open>time.Time\<close> is given by the
  fields which its accessors return; the version of the Go runtime is an argument.
\<close>

section \<open>Time stamps\<close>

record go_time =
  t_Year :: int
  t_Month :: nat
  t_Day :: nat
  t_Hour :: nat
  t_Minute :: nat
  t_Second :: nat
  t_Nanosecond :: nat
  t_zone :: string
  t_offset :: int

definition decimal :: "nat \<Rightarrow> string" where
  "decimal n = map ((!) digits36) (digits 10 n)"

definition zero_pad :: "nat \<Rightarrow> string \<Rightarrow> string" where
  "zero_pad w s = replicate (w - length s) (CHR ''0'') @ s"

text \<open>The verb \<open>%0<w>d\<close>: the sign counts for the width.\<close>

definition fmt_0d :: "nat \<Rightarrow> int \<Rightarrow> string" where
  "fmt_0d w n = (if n < 0 then CHR ''-'' # zero_pad (w - 1) (decimal (nat (- n))) else zero_pad w (decimal (nat n)))"

text \<open>Division of Go truncates towards zero.\<close>

definition quot3600 :: "int \<Rightarrow> int" where
  "quot3600 n = (if n < 0 then - ((- n) div 3600) else n div 3600)"

definition TimeToISO8601 :: "go_time \<Rightarrow> string" where
  "TimeToISO8601 t =
     (let tz = (if t_zone t = ''UTC'' then ''Z'' else fmt_0d 3 (quot3600 (t_offset t)) @ ''00'')
      in fmt_0d 4 (t_Year t) @ ''-'' @ fmt_0d 2 (int (t_Month t)) @ ''-'' @ fmt_0d 2 (int (t_Day t)) @ ''T''
         @ fmt_0d 2 (int (t_Hour t)) @ ''-'' @ fmt_0d 2 (int (t_Minute t)) @ ''-'' @ fmt_0d 2 (int (t_Second t))
         @ ''.'' @ fmt_0d 9 (int (t_Nanosecond t)) @ tz)"

section \<open>Versions\<close>

record Version =
  v_ver :: string
  v_runtime :: string
  v_timestamp :: go_time

definition NewVersion :: "string \<Rightarrow> go_time \<Rightarrow> string \<Rightarrow> Version" where
  "NewVersion runtime now ver = \<lparr>v_ver = ver, v_runtime = runtime, v_timestamp = now\<rparr>"

definition Version_String :: "Version \<Rightarrow> string" where
  "Version_String v = v_ver v @ '' '' @ v_runtime v @ '' '' @ TimeToISO8601 (v_timestamp v)"

definition WithCommit :: "Version \<Rightarrow> string \<Rightarrow> string" where
  "WithCommit v gitCommit =
     (let str = Version_String v in if length gitCommit \<ge> 8 then str @ '' '' @ take 8 gitCommit else str)"

section \<open>Facts\<close>

lemma numeral_decimal: "numeral_of 10 (decimal n) = Some (digits 10 n)"
  unfolding decimal_def by (rule decimal_chars(1))

lemma numeral_zeros: "numeral_of 10 (replicate k (CHR ''0'')) = Some (replicate k 0)"
proof -
  have "dig 10 (CHR ''0'') = Some 0" by code_simp
  then show ?thesis by (induction k) simp_all
qed

lemma numeral_zero_pad: "numeral_of 10 (zero_pad w (decimal n)) = Some (replicate (w - length (decimal n)) 0 @ digits 10 n)"
  by (simp add: zero_pad_def numeral_of_append numeral_zeros numeral_decimal)

lemma zero_pad_inj: "zero_pad w (decimal m) = zero_pad w' (decimal n) \<Longrightarrow> m = n"
  using numeral_zero_pad[of w m] numeral_zero_pad[of w' n] horner_digits[of 10 m] horner_digits[of 10 n] horner_zeros
  by (metis one_less_numeral_iff option.inject semiring_norm(76))

lemma zero_pad_no_sign: "zero_pad w (decimal m) \<noteq> CHR ''-'' # s"
  using numeral_zero_pad[of w m] dig10_chars(1) by auto

lemma fmt_0d_inj: "fmt_0d w m = fmt_0d w n \<longleftrightarrow> m = n"
  using zero_pad_inj[of w "nat m" w "nat n"] zero_pad_inj[of "w - 1" "nat (- m)" "w - 1" "nat (- n)"]
    zero_pad_no_sign[of w "nat m"] zero_pad_no_sign[of w "nat n"]
  by (auto simp: fmt_0d_def split: if_splits) metis+

lemma length_fmt_0d: "0 \<le> n \<Longrightarrow> n < 10 ^ w \<Longrightarrow> 0 < w \<Longrightarrow> length (fmt_0d w n) = w"
proof -
  assume n: "0 \<le> n" "n < 10 ^ w" "0 < w"
  then have "nat n < 10 ^ w" by (simp add: nat_less_iff)
  then have "length (decimal (nat n)) \<le> w" using length_digits_le_iff[of 10 w "nat n"] n(3) by (simp add: decimal_def)
  then show ?thesis using n(1) by (simp add: fmt_0d_def zero_pad_def)
qed


definition civil :: "go_time \<Rightarrow> bool" where
  "civil t \<longleftrightarrow> 0 \<le> t_Year t \<and> t_Year t < 10000 \<and> 1 \<le> t_Month t \<and> t_Month t \<le> 12 \<and> 1 \<le> t_Day t \<and> t_Day t \<le> 31
     \<and> t_Hour t < 24 \<and> t_Minute t < 60 \<and> t_Second t < 60 \<and> t_Nanosecond t < 1000000000"

definition date_of :: "go_time \<Rightarrow> int \<times> nat \<times> nat" where
  "date_of t = (t_Year t, t_Month t, t_Day t)"

definition clock_of :: "go_time \<Rightarrow> nat \<times> nat \<times> nat \<times> nat" where
  "clock_of t = (t_Hour t, t_Minute t, t_Second t, t_Nanosecond t)"

lemma fields_length:
  assumes "civil t"
  shows "length (fmt_0d 4 (t_Year t)) = 4" "length (fmt_0d 2 (int (t_Month t))) = 2" "length (fmt_0d 2 (int (t_Day t))) = 2"
    "length (fmt_0d 2 (int (t_Hour t))) = 2" "length (fmt_0d 2 (int (t_Minute t))) = 2"
    "length (fmt_0d 2 (int (t_Second t))) = 2" "length (fmt_0d 9 (int (t_Nanosecond t))) = 9"
  using assms unfolding civil_def by (auto intro!: length_fmt_0d)

lemma fmt_0d_not_Z: "fmt_0d 3 n @ s \<noteq> ''Z''"
proof
  assume "fmt_0d 3 n @ s = ''Z''"
  moreover have "length (zero_pad w x) = max w (length x)" for w x by (simp add: zero_pad_def)
  then have "length (fmt_0d 3 n) > 1" by (auto simp: fmt_0d_def max_def)
  ultimately show False by (cases "fmt_0d 3 n"; cases "tl (fmt_0d 3 n)") auto
qed

text \<open>What a time stamp tells. For times of the years 0 to 9999, two time stamps are equal exactly
  when the dates and the clock times agree to the nanosecond and both are in UTC, or neither is and
  the offsets agree in whole hours: minutes of the offset and the name of the zone are lost, nothing
  else is.\<close>

theorem TimeToISO8601_collisions:
  assumes "civil t" and "civil u"
  shows "TimeToISO8601 t = TimeToISO8601 u \<longleftrightarrow>
    date_of t = date_of u \<and> clock_of t = clock_of u
    \<and> (if t_zone t = ''UTC'' then t_zone u = ''UTC''
       else t_zone u \<noteq> ''UTC'' \<and> quot3600 (t_offset t) = quot3600 (t_offset u))"
proof -
  let ?tz = "\<lambda>t. if t_zone t = ''UTC'' then ''Z'' else fmt_0d 3 (quot3600 (t_offset t)) @ ''00''"
  have "?tz t = ?tz u \<longleftrightarrow> (if t_zone t = ''UTC'' then t_zone u = ''UTC''
       else t_zone u \<noteq> ''UTC'' \<and> quot3600 (t_offset t) = quot3600 (t_offset u))"
    by (auto simp: fmt_0d_inj fmt_0d_not_Z fmt_0d_not_Z[symmetric] split: if_splits)
  moreover have "TimeToISO8601 t = TimeToISO8601 u \<longleftrightarrow> date_of t = date_of u \<and> clock_of t = clock_of u \<and> ?tz t = ?tz u"
    unfolding TimeToISO8601_def Let_def date_of_def clock_of_def
    by (simp only: append_eq_append_conv[OF disjI1] fields_length[OF assms(1)] fields_length[OF assms(2)]
        fmt_0d_inj of_nat_eq_iff prod.inject) auto
  ultimately show ?thesis by simp
qed

definition sample_time :: go_time where
  "sample_time = \<lparr>t_Year = 2019, t_Month = 7, t_Day = 4, t_Hour = 9, t_Minute = 5, t_Second = 30, t_Nanosecond = 42,
     t_zone = ''CST'', t_offset = 28800\<rparr>"

theorem TimeToISO8601_collisions_witness:
  "TimeToISO8601 sample_time = TimeToISO8601 (sample_time\<lparr>t_zone := ''IST'', t_offset := 30600\<rparr>)
   \<and> TimeToISO8601 sample_time = ''2019-07-04T09-05-30.00000004200800''"
proof
  show "TimeToISO8601 sample_time = TimeToISO8601 (sample_time\<lparr>t_zone := ''IST'', t_offset := 30600\<rparr>)"
    using TimeToISO8601_collisions[of sample_time "sample_time\<lparr>t_zone := ''IST'', t_offset := 30600\<rparr>"]
    by (simp add: civil_def sample_time_def date_of_def clock_of_def quot3600_def)
  show "TimeToISO8601 sample_time = ''2019-07-04T09-05-30.00000004200800''" by code_simp
qed

end
