(* ===== verification/Project_Tool.thy ===== *)
theory Project_Tool
  imports File_Utils Version_Info
begin

text \<open>
  The project generator: file trees that are rendered from templates (src/pkg/zoo/file.go),
  projects (src/pkg/zoo/project.go) and the tree of the command line tool
  (src/cmd/tool/tool.go). Parsing and executing a template and formatting Go code are
  arguments, as are the environment of the process and the commands it runs.
\<close>

section \<open>file.go\<close>

record ZooFile =
  zf_Name :: string
  zf_AbsPath :: string
  zf_Template :: string

datatype ZooFolder =
  ZooFolder (zd_Name: string) (zd_AbsPath: string) (zd_files: "ZooFile list") (zd_folders: "ZooFolder list")

text \<open>A new folder is appended empty, and the returned pointer is used to fill it: \<open>in_last\<close>
  applies what the program does through that pointer.\<close>

fun AddFolder :: "string \<Rightarrow> ZooFolder \<Rightarrow> ZooFolder" where
  "AddFolder name (ZooFolder fn fp files folders) =
     ZooFolder fn fp files (folders @ [ZooFolder name (filepath_Join [fp, name]) [] []])"

fun in_last :: "(ZooFolder \<Rightarrow> ZooFolder) \<Rightarrow> ZooFolder \<Rightarrow> ZooFolder" where
  "in_last g (ZooFolder fn fp files folders) =
     ZooFolder fn fp files (if folders = [] then [] else butlast folders @ [g (last folders)])"

fun AddFile :: "string \<Rightarrow> string \<Rightarrow> ZooFolder \<Rightarrow> ZooFolder" where
  "AddFile name tmpl (ZooFolder fn fp files folders) =
     ZooFolder fn fp
       (files @ [\<lparr>zf_Name = name, zf_AbsPath = filepath_Join [fp, name], zf_Template = tmpl\<rparr>]) folders"

text \<open>
  The template engine: \<open>rd_parse\<close> reads a template, \<open>rd_execute\<close> gives the output so far and
  an error, if any, and \<open>rd_format\<close> formats Go code.
\<close>

record 't renderer =
  rd_parse :: "string \<Rightarrow> string + 't"
  rd_execute :: "'t \<Rightarrow> string \<times> string option"
  rd_format :: "string \<Rightarrow> string + string"

definition render_file ::
  "'t renderer \<Rightarrow> faults \<Rightarrow> string \<Rightarrow> ZooFile \<Rightarrow> fs \<Rightarrow> fs \<times> string option" where
  "render_file rd fault templatePath v fs =
     (case rd_parse rd (filepath_Join [templatePath, zf_Template v]) of
        Inl err \<Rightarrow> (fs, Some err)
      | Inr t \<Rightarrow>
          (case os_Create fault (zf_AbsPath v) fs of
             (fs1, Some err) \<Rightarrow> (fs1, Some err)
           | (fs1, None) \<Rightarrow>
               if Contains (zf_AbsPath v) ''.go'' then
                 (case rd_execute rd t of
                    (out, Some err) \<Rightarrow> (fs1, Some err)
                  | (out, None) \<Rightarrow>
                      (case rd_format rd out of
                         Inl err \<Rightarrow> (fs1, Some err)
                       | Inr b \<Rightarrow> file_Write fault (zf_AbsPath v) b fs1))
               else
                 (case rd_execute rd t of
                    (out, err) \<Rightarrow>
                      (case file_Write fault (zf_AbsPath v) out fs1 of
                         (fs2, Some werr) \<Rightarrow> (fs2, Some werr)
                       | (fs2, None) \<Rightarrow> (fs2, err)))))"

fun render_files ::
  "'t renderer \<Rightarrow> faults \<Rightarrow> string \<Rightarrow> ZooFile list \<Rightarrow> fs \<Rightarrow> fs \<times> string option" where
  "render_files rd fault templatePath [] fs = (fs, None)"
| "render_files rd fault templatePath (v # vs) fs =
     (case render_file rd fault templatePath v fs of
        (fs', Some err) \<Rightarrow> (fs', Some err)
      | (fs', None) \<Rightarrow> render_files rd fault templatePath vs fs')"

fun render :: "'t renderer \<Rightarrow> faults \<Rightarrow> string \<Rightarrow> ZooFolder \<Rightarrow> fs \<Rightarrow> fs \<times> string option"
  and render_folders :: "'t renderer \<Rightarrow> faults \<Rightarrow> string \<Rightarrow> ZooFolder list \<Rightarrow> fs \<Rightarrow> fs \<times> string option" where
  "render rd fault templatePath (ZooFolder fn fp files folders) fs =
     (case render_files rd fault templatePath files fs of
        (fs', Some err) \<Rightarrow> (fs', Some err)
      | (fs', None) \<Rightarrow> render_folders rd fault templatePath folders fs')"
| "render_folders rd fault templatePath [] fs = (fs, None)"
| "render_folders rd fault templatePath (v # vs) fs =
     (case os_Mkdir fault (zd_AbsPath v) fs of
        (fs1, Some err) \<Rightarrow> (fs1, Some err)
      | (fs1, None) \<Rightarrow>
          (case render rd fault templatePath v fs1 of
             (fs2, Some err) \<Rightarrow> (fs2, Some err)
           | (fs2, None) \<Rightarrow> render_folders rd fault templatePath vs fs2))"

section \<open>project.go\<close>

record Project =
  pj_Name :: string
  pj_Website :: string
  pj_ProjectDir :: string
  pj_RelDir :: string
  pj_LibDir :: string
  pj_IsRemove :: bool
  pj_Folder :: ZooFolder

text \<open>The environment: the working directory, if it can be found, and \<open>GOPATH\<close>.\<close>

record process_env =
  env_Getwd :: "string option"
  env_GOPATH :: string

definition srcPath :: "process_env \<Rightarrow> string" where
  "srcPath env = filepath_Join [env_GOPATH env, ''src'']"

definition ProjectPath :: "process_env \<Rightarrow> string \<Rightarrow> string \<Rightarrow> string" where
  "ProjectPath env website name =
     (if website = '''' then
        (case env_Getwd env of None \<Rightarrow> '''' | Some x \<Rightarrow> filepath_Join [x, name])
      else filepath_Join [srcPath env, website, name])"

definition zoo_NewProject :: "process_env \<Rightarrow> string \<Rightarrow> string \<Rightarrow> string \<Rightarrow> bool \<Rightarrow> Project" where
  "zoo_NewProject env website name lib isRemove =
     \<lparr>pj_Name = name, pj_Website = website, pj_ProjectDir = ProjectPath env website name,
      pj_RelDir = website @ ''/'' @ name, pj_LibDir = lib, pj_IsRemove = isRemove,
      pj_Folder = ZooFolder '''' '''' [] []\<rparr>"

definition Project_AddFile ::
  "(Project \<Rightarrow> 't renderer) \<Rightarrow> faults \<Rightarrow> string \<Rightarrow> Project \<Rightarrow> fs \<Rightarrow> fs \<times> string option" where
  "Project_AddFile rd fault templatePath p fs =
     (case os_MkdirAll fault (pj_ProjectDir p) fs of
        (fs1, Some err) \<Rightarrow> (fs1, Some err)
      | (fs1, None) \<Rightarrow> render (rd p) fault templatePath (pj_Folder p) fs1)"

text \<open>\<open>os.RemoveAll\<close> removes what is at or below the path; what it cannot remove stays, and its
  error is ignored. It does nothing on the empty path.\<close>

definition os_RemoveAll :: "faults \<Rightarrow> string \<Rightarrow> fs \<Rightarrow> fs" where
  "os_RemoveAll fault p fs =
     (if p = '''' then fs
      else
       (let r = Clean p; below = (if r = ''/'' then r else r @ ''/'') in
        (\<lambda>q. if (q = r \<or> HasPrefix q below) \<and> fault ''removeall'' q = None then None else fs q)))"

definition Project_Write ::
  "(Project \<Rightarrow> 't renderer) \<Rightarrow> faults \<Rightarrow> string \<Rightarrow> Project \<Rightarrow> fs \<Rightarrow> fs \<times> string option" where
  "Project_Write rd fault templatePath p fs =
     (let fs0 = (if pj_IsRemove p then os_RemoveAll fault (pj_ProjectDir p) fs else fs) in
      case os_MkdirAll fault (pj_ProjectDir p) fs0 of
        (fs1, Some err) \<Rightarrow> (fs1, Some err)
      | (fs1, None) \<Rightarrow> render (rd p) fault templatePath (pj_Folder p) fs1)"

definition zoo_fileExist :: "faults \<Rightarrow> string \<Rightarrow> fs \<Rightarrow> bool" where
  "zoo_fileExist fault filePath fs = (if not_exist fault filePath fs then False else True)"

text \<open>
  Commands are run by the operating system: \<open>run argv fs\<close> is the file system afterwards, the output, and
  the error, if any. A command line that is passed as one string is the name of a program.
\<close>

type_synonym runner = "string list \<Rightarrow> fs \<Rightarrow> fs \<times> string \<times> string option"

text \<open>The last component is what is printed, line by line.\<close>

fun Clone :: "process_env \<Rightarrow> faults \<Rightarrow> runner \<Rightarrow> string list \<Rightarrow> fs \<Rightarrow> fs \<times> string option \<times> string list" where
  "Clone env fault run [] fs = (fs, None, [])"
| "Clone env fault run (url # gitList) fs =
     (if url = '''' then Clone env fault run gitList fs
      else
       (let dst = filepath_Join [srcPath env, url] in
        if zoo_fileExist fault dst fs then Clone env fault run gitList fs
        else
         (let c = ''go get '' @ url in
          case run [c] fs of
            (fs', out, Some err) \<Rightarrow> (fs', Some err, [''go get  error: '' @ err])
          | (fs', out, None) \<Rightarrow> Clone env fault run gitList fs')))"

definition Project_Test :: "Project \<Rightarrow> string \<Rightarrow> string option" where
  "Project_Test p url = None"

definition Build :: "runner \<Rightarrow> Project \<Rightarrow> fs \<Rightarrow> fs \<times> string option" where
  "Build run p fs =
     (case run [''cd '' @ pj_ProjectDir p @ '' && make build''] fs of
        (fs', out, Some err) \<Rightarrow> (fs', Some err)
      | (fs', out, None) \<Rightarrow> (fs', None))"

text \<open>\<open>camel\<close> and \<open>snake\<close> are \<open>strcase.ToCamel\<close> and \<open>strcase.ToSnake\<close>.\<close>

text \<open>The lists of files and the clone through git, an operation that nothing calls; \<open>git.PlainClone\<close> takes the
  directory, whether the repository is bare, and the address.\<close>

definition zoo_nodeFileList :: "(string \<times> string list) list" where
  "zoo_nodeFileList = [(''apis'', [''@@@@@.proto'']), (''config'', [''conf.go'']), (''metrics'', [''metrics.go'']),
     (''version'', [''version.go''])]"

definition zoo_distFileList :: "(string \<times> string list) list" where
  "zoo_distFileList = [(''etc'', [''@@@@@.ini'']), (''bin'', [''''])]"

definition gitClone ::
  "(string \<Rightarrow> bool \<Rightarrow> string \<Rightarrow> fs \<Rightarrow> fs \<times> string option) \<Rightarrow> string \<Rightarrow> string \<Rightarrow> fs \<Rightarrow> fs \<times> string option" where
  "gitClone PlainClone url store fs =
     (case PlainClone store False url fs of
        (fs', Some err) \<Rightarrow> (fs', Some err)
      | (fs', None) \<Rightarrow> (fs', None))"

definition CamelCaseName :: "(string \<Rightarrow> string) \<Rightarrow> Project \<Rightarrow> string" where
  "CamelCaseName camel p = camel (pj_Name p)"

definition SnakeCaseName :: "(string \<Rightarrow> string) \<Rightarrow> Project \<Rightarrow> string" where
  "SnakeCaseName snake p = map (\<lambda>c. if c = CHR ''-'' then CHR ''_'' else c) (snake (pj_Name p))"

definition DNSName :: "(string \<Rightarrow> string) \<Rightarrow> Project \<Rightarrow> string" where
  "DNSName snake p = map (\<lambda>c. if c = CHR ''_'' then CHR ''-'' else c) (snake (pj_Name p))"

definition LibName :: "Project \<Rightarrow> string" where
  "LibName p = pj_LibDir p"

section \<open>tool.go\<close>

definition nodeFileList :: "(string \<times> string list) list" where
  "nodeFileList =
     [(''admin'', [''api.go'', ''backend.go'', ''node.go'']), (''conf'', [''conf.go'']),
      (''version'', [''version.go'']), (''common'', [''errors.go'', ''result.go'']),
      (''subscribe'', [''interface.go'', ''subscribe.go'', ''subscribe_test.go'']),
      (''@@@@@'', [''@@@@@.go'', ''manager.go''])]"

definition distFileList :: "(string \<times> string list) list" where
  "distFileList = [(''etc'', [''@@@@@.json'']), (''bin'', [''''])]"

definition add_files :: "string \<Rightarrow> string list \<Rightarrow> ZooFolder \<Rightarrow> ZooFolder" where
  "add_files name ffs f =
     foldl (\<lambda>f ff. let fs = Replace1 ff ''@@@@@'' name in if fs \<noteq> '''' then AddFile fs (ff @ ''.tpl'') f else f) f ffs"

text \<open>The folders below \<open>node\<close> and \<open>dist\<close>; the names are substituted in the first only.\<close>

definition add_nodes :: "string \<Rightarrow> (string \<times> string list) list \<Rightarrow> ZooFolder \<Rightarrow> ZooFolder" where
  "add_nodes name entries node =
     foldl (\<lambda>nd (k, v). in_last (add_files name v) (AddFolder (Replace1 k ''@@@@@'' name) nd)) node entries"

definition add_dists :: "string \<Rightarrow> (string \<times> string list) list \<Rightarrow> ZooFolder \<Rightarrow> ZooFolder" where
  "add_dists name entries dist =
     foldl (\<lambda>nd (k, v). in_last (add_files name v) (AddFolder k nd)) dist entries"

text \<open>\<open>nodes\<close> and \<open>dists\<close> are the two maps in the order in which they are visited.\<close>

definition NewProject ::
  "process_env \<Rightarrow> (string \<times> string list) list \<Rightarrow> (string \<times> string list) list \<Rightarrow> string \<Rightarrow> string \<Rightarrow> Project" where
  "NewProject env nodes dists website name =
     (let rPath = ProjectPath env website name;
          f = ZooFolder name rPath [] [];
          f = AddFile ''main.go'' ''main.go.tpl'' f;
          f = AddFile ''Makefile'' ''Makefile.tpl'' f;
          f = AddFile ''Dockerfile'' ''Dockerfile.tpl'' f;
          f = AddFile ''.gitignore'' ''gitignore.tpl'' f;
          f = in_last (add_nodes name nodes) (AddFolder ''node'' f);
          f = in_last (add_dists name dists) (AddFolder ''dist'' f)
      in \<lparr>pj_Name = name, pj_Website = website, pj_ProjectDir = rPath, pj_RelDir = website @ ''/'' @ name,
          pj_LibDir = ''airman.com/airfk'', pj_IsRemove = True, pj_Folder = f\<rparr>)"


section \<open>What rendering does\<close>

text \<open>The content of a generated file, when its template can be processed.\<close>

definition file_content :: "'t renderer \<Rightarrow> string \<Rightarrow> ZooFile \<Rightarrow> string option" where
  "file_content rd templatePath v =
     (case rd_parse rd (filepath_Join [templatePath, zf_Template v]) of
        Inl err \<Rightarrow> None
      | Inr t \<Rightarrow>
          (case rd_execute rd t of
             (out, Some err) \<Rightarrow> None
           | (out, None) \<Rightarrow>
               if Contains (zf_AbsPath v) ''.go''
               then (case rd_format rd out of Inl err \<Rightarrow> None | Inr b \<Rightarrow> Some b) else Some out))"

fun tree_files :: "ZooFolder \<Rightarrow> ZooFile list" where
  "tree_files (ZooFolder fn fp files folders) = files @ concat (map tree_files folders)"

text \<open>The nodes a tree creates, in the order of their creation.\<close>

fun tree_nodes :: "(ZooFile \<Rightarrow> string) \<Rightarrow> ZooFolder \<Rightarrow> (string \<times> node) list" where
  "tree_nodes cont (ZooFolder fn fp files folders) =
     map (\<lambda>v. (zf_AbsPath v, File (cont v))) files
     @ concat (map (\<lambda>d. (zd_AbsPath d, Dir) # tree_nodes cont d) folders)"

fun put_all :: "(string \<times> node) list \<Rightarrow> fs \<Rightarrow> fs" where
  "put_all [] fs = fs"
| "put_all ((q, nd) # acts) fs = put_all acts (fs(q \<mapsto> nd))"

fun ready :: "(string \<times> node) list \<Rightarrow> fs \<Rightarrow> bool" where
  "ready [] fs = True"
| "ready ((q, nd) # acts) fs =
     (Clean q = q \<and> fs q = None \<and> fs (filepath_Dir q) = Some Dir \<and> ready acts (fs(q \<mapsto> nd)))"

lemma put_all_append: "put_all (as @ bs) fs = put_all bs (put_all as fs)"
  by (induction "as" arbitrary: fs) auto

lemma ready_append: "ready (as @ bs) fs \<longleftrightarrow> ready as fs \<and> ready bs (put_all as fs)"
  by (induction "as" arbitrary: fs) auto

lemma put_all_eq: "distinct (map fst acts) \<Longrightarrow> put_all acts fs = fs ++ map_of acts"
proof (induction acts arbitrary: fs)
  case (Cons a acts)
  obtain q nd where a: "a = (q, nd)" by (cases a)
  with Cons.prems have "q \<notin> dom (map_of acts)" by (simp add: dom_map_of_conv_image_fst)
  with Cons show ?case by (auto simp: a map_add_def fun_eq_iff split: option.splits)
qed simp

lemma render_file_ready:
  assumes "ready [(zf_AbsPath v, File c)] fs" and "file_content rd tp v = Some c"
  shows "render_file rd no_faults tp v fs = (fs(zf_AbsPath v \<mapsto> File c), None)"
  using assms
  by (auto simp: render_file_def file_content_def os_Create_def file_Write_def no_faults_def Let_def
      split: sum.splits option.splits prod.splits if_splits)

lemma render_files_ready:
  assumes "\<forall>v\<in>set vs. file_content rd tp v = Some (cont v)"
    and "ready (map (\<lambda>v. (zf_AbsPath v, File (cont v))) vs) fs"
  shows "render_files rd no_faults tp vs fs = (put_all (map (\<lambda>v. (zf_AbsPath v, File (cont v))) vs) fs, None)"
  using assms
proof (induction vs arbitrary: fs)
  case (Cons v vs)
  have "render_file rd no_faults tp v fs = (fs(zf_AbsPath v \<mapsto> File (cont v)), None)"
    using Cons.prems by (intro render_file_ready) auto
  with Cons show ?case by simp
qed simp

lemma render_ready:
  "\<forall>v\<in>set (tree_files f). file_content rd tp v = Some (cont v) \<Longrightarrow> ready (tree_nodes cont f) fs
   \<Longrightarrow> render rd no_faults tp f fs = (put_all (tree_nodes cont f) fs, None)"
  "\<forall>v\<in>set (concat (map tree_files fds)). file_content rd tp v = Some (cont v)
   \<Longrightarrow> ready (concat (map (\<lambda>d. (zd_AbsPath d, Dir) # tree_nodes cont d) fds)) fs
   \<Longrightarrow> render_folders rd no_faults tp fds fs
       = (put_all (concat (map (\<lambda>d. (zd_AbsPath d, Dir) # tree_nodes cont d) fds)) fs, None)"
proof (induction rd "no_faults :: faults" tp f fs and rd "no_faults :: faults" tp fds fs
    rule: render_render_folders.induct)
  case (1 rd tp fn fp files folders fs)
  from 1(3) have "ready (map (\<lambda>v. (zf_AbsPath v, File (cont v))) files) fs" by (simp add: ready_append)
  with 1(2) have "render_files rd no_faults tp files fs
      = (put_all (map (\<lambda>v. (zf_AbsPath v, File (cont v))) files) fs, None)"
    by (intro render_files_ready) auto
  with 1 show ?case by (simp add: ready_append put_all_append)
next
  case (3 rd tp v vs fs)
  from 3(4) have "os_Mkdir no_faults (zd_AbsPath v) fs = (fs(zd_AbsPath v \<mapsto> Dir), None)"
    by (simp add: os_Mkdir_def no_faults_def)
  with 3 show ?case by (simp add: ready_append put_all_append)
qed simp_all

section \<open>Trees in their place\<close>

text \<open>The folder is at a clean absolute path, everything in it at its name below, and no
  name is used twice in a folder.\<close>

fun placed :: "string list \<Rightarrow> ZooFolder \<Rightarrow> bool" where
  "placed cs (ZooFolder fn fp files folders) \<longleftrightarrow>
     fp = abs_path cs
     \<and> (\<forall>v\<in>set files. simple_name (zf_Name v) \<and> zf_AbsPath v = abs_path (cs @ [zf_Name v]))
     \<and> distinct (map zf_Name files @ map zd_Name folders)
     \<and> (\<forall>d\<in>set folders. simple_name (zd_Name d) \<and> placed (cs @ [zd_Name d]) d)"

fun tree_rel :: "ZooFolder \<Rightarrow> string list list" where
  "tree_rel (ZooFolder fn fp files folders) =
     map (\<lambda>v. [zf_Name v]) files
     @ concat (map (\<lambda>d. [zd_Name d] # map ((#) (zd_Name d)) (tree_rel d)) folders)"

lemma placed_path: "placed cs d \<Longrightarrow> zd_AbsPath d = abs_path cs"
  by (cases d) simp

lemma tree_nodes_rel:
  "placed cs f \<Longrightarrow> map fst (tree_nodes cont f) = map (\<lambda>ds. abs_path (cs @ ds)) (tree_rel f)"
proof (induction f arbitrary: cs)
  case (ZooFolder fn fp files folders)
  have "map fst ((zd_AbsPath d, Dir) # tree_nodes cont d)
      = map (\<lambda>ds. abs_path (cs @ ds)) ([zd_Name d] # map ((#) (zd_Name d)) (tree_rel d))"
    if d: "d \<in> set folders" for d
  proof -
    have pd: "placed (cs @ [zd_Name d]) d" using ZooFolder.prems d by simp
    from ZooFolder.IH[OF d pd] placed_path[OF pd] show ?thesis by simp
  qed
  then have "map (map fst \<circ> (\<lambda>d. (zd_AbsPath d, Dir) # tree_nodes cont d)) folders
      = map (map (\<lambda>ds. abs_path (cs @ ds)) \<circ> (\<lambda>d. [zd_Name d] # map ((#) (zd_Name d)) (tree_rel d))) folders"
    by (intro map_cong refl) simp
  then show ?case using ZooFolder.prems by (simp only: tree_nodes.simps tree_rel.simps map_append map_concat map_map)
      (simp add: comp_def)
qed

lemma tree_rel_simple: "placed cs f \<Longrightarrow> ds \<in> set (tree_rel f) \<Longrightarrow> ds \<noteq> [] \<and> list_all simple_name ds"
  by (induction f arbitrary: cs ds) fastforce

lemma tree_rel_hd: "ds \<in> set (tree_rel (ZooFolder fn fp files folders)) \<Longrightarrow>
    ds \<noteq> [] \<and> hd ds \<in> zf_Name ` set files \<union> zd_Name ` set folders"
  by auto

lemma distinct_concat_hd:
  assumes "distinct (map h ds)" and "\<And>d. d \<in> set ds \<Longrightarrow> distinct (g d)"
    and "\<And>d e. d \<in> set ds \<Longrightarrow> e \<in> set (g d) \<Longrightarrow> hd e = h d"
  shows "distinct (concat (map g ds))"
  using assms
proof (induction ds)
  case (Cons d ds)
  have "set (g d) \<inter> set (concat (map g ds)) = {}"
  proof (rule ccontr)
    assume "set (g d) \<inter> set (concat (map g ds)) \<noteq> {}"
    then obtain e d' where "e \<in> set (g d)" "d' \<in> set ds" "e \<in> set (g d')" by auto
    then have "h d = h d'" using Cons.prems(3)[of d e] Cons.prems(3)[of d' e] by simp
    with Cons.prems(1) \<open>d' \<in> set ds\<close> show False by simp
  qed
  with Cons show ?case by simp
qed simp

lemma tree_rel_distinct: "placed cs f \<Longrightarrow> distinct (tree_rel f)"
proof (induction f arbitrary: cs)
  case (ZooFolder fn fp files folders)
  let ?g = "\<lambda>d. [zd_Name d] # map ((#) (zd_Name d)) (tree_rel d)"
  have "distinct (concat (map ?g folders))"
  proof (rule distinct_concat_hd[where h = zd_Name])
    fix d assume d: "d \<in> set folders"
    then have pd: "placed (cs @ [zd_Name d]) d" using ZooFolder.prems by simp
    have "[] \<notin> set (tree_rel d)" using tree_rel_simple[OF pd] by blast
    with ZooFolder.IH[OF d pd] show "distinct (?g d)" by (auto simp: distinct_map)
  qed (use ZooFolder.prems in auto)
  moreover have "distinct (map (\<lambda>v. [zf_Name v]) files)"
    using ZooFolder.prems by (simp add: distinct_map inj_on_def)
  moreover have "set (map (\<lambda>v. [zf_Name v]) files) \<inter> set (concat (map ?g folders)) = {}"
    using ZooFolder.prems by auto
  ultimately show ?case by (simp del: concat_map_singleton)
qed


text \<open>Every node is created in a directory that exists by then.\<close>

fun closed_acts :: "string set \<Rightarrow> (string \<times> node) list \<Rightarrow> bool" where
  "closed_acts D [] = True"
| "closed_acts D ((q, nd) # acts) =
     (filepath_Dir q \<in> D \<and> closed_acts (if nd = Dir then insert q D else D) acts)"

lemma closed_acts_mono: "closed_acts D acts \<Longrightarrow> D \<subseteq> E \<Longrightarrow> closed_acts E acts"
proof (induction D acts arbitrary: E rule: closed_acts.induct)
  case (2 D q nd acts)
  then show ?case by (simp add: insert_mono subset_insertI2) (metis (no_types, lifting) insert_mono subsetD)
qed simp

lemma closed_acts_append: "closed_acts D as \<Longrightarrow> closed_acts D bs \<Longrightarrow> closed_acts D (as @ bs)"
proof (induction D "as" rule: closed_acts.induct)
  case (2 D q nd acts)
  then show ?case using closed_acts_mono[of D bs "insert q D"] by (auto simp: subset_insertI)
qed simp

lemma closed_acts_concat: "(\<And>as. as \<in> set ass \<Longrightarrow> closed_acts D as) \<Longrightarrow> closed_acts D (concat ass)"
  by (induction ass) (auto intro: closed_acts_append)

lemma placed_closed:
  "placed cs f \<Longrightarrow> list_all simple_name cs \<Longrightarrow> abs_path cs \<in> D \<Longrightarrow> closed_acts D (tree_nodes cont f)"
proof (induction f arbitrary: cs D)
  case (ZooFolder fn fp files folders)
  have "closed_acts D [(zf_AbsPath v, File (cont v))]" if "v \<in> set files" for v
    using ZooFolder.prems that by simp
  then have "closed_acts D (concat (map (\<lambda>v. [(zf_AbsPath v, File (cont v))]) files))"
    by (intro closed_acts_concat) auto
  moreover have "closed_acts D ((zd_AbsPath d, Dir) # tree_nodes cont d)" if d: "d \<in> set folders" for d
  proof -
    have pd: "placed (cs @ [zd_Name d]) d" "simple_name (zd_Name d)" using ZooFolder.prems d by auto
    have "closed_acts (insert (zd_AbsPath d) D) (tree_nodes cont d)"
      using ZooFolder.IH[OF d pd(1)] ZooFolder.prems(2) pd(2) placed_path[OF pd(1)] by simp
    then show ?thesis using ZooFolder.prems pd placed_path[OF pd(1)] by simp
  qed
  then have "closed_acts D (concat (map (\<lambda>d. (zd_AbsPath d, Dir) # tree_nodes cont d) folders))"
    by (intro closed_acts_concat) auto
  ultimately show ?case using closed_acts_append by simp
qed

lemma closed_ready:
  "closed_acts D acts \<Longrightarrow> distinct (map fst acts) \<Longrightarrow> \<forall>q\<in>fst ` set acts. Clean q = q \<and> fs q = None
   \<Longrightarrow> \<forall>d\<in>D. fs d = Some Dir \<Longrightarrow> ready acts fs"
proof (induction D acts arbitrary: fs rule: closed_acts.induct)
  case (2 D q nd acts)
  have fresh: "q \<notin> D" using 2(4,5) by auto
  have "ready acts (fs(q \<mapsto> nd))"
  proof (rule "2.IH")
    show "\<forall>d\<in>if nd = Dir then insert q D else D. (fs(q \<mapsto> nd)) d = Some Dir" using 2(5) fresh by auto
    show "\<forall>q'\<in>fst ` set acts. Clean q' = q' \<and> (fs(q \<mapsto> nd)) q' = None" using 2(3,4) by auto
  qed (use 2 in auto)
  with 2 show ?case by auto
qed simp

text \<open>Rendering a placed tree below an existing directory in which nothing else is.\<close>

lemma render_placed:
  assumes tree: "placed cs f" and cs: "list_all simple_name cs"
    and dir: "fs (abs_path cs) = Some Dir"
    and free: "\<And>ds. ds \<noteq> [] \<Longrightarrow> list_all simple_name ds \<Longrightarrow> fs (abs_path (cs @ ds)) = None"
    and cont: "\<forall>v\<in>set (tree_files f). file_content rd tp v = Some (cont v)"
  shows "render rd no_faults tp f fs = (fs ++ map_of (tree_nodes cont f), None)"
proof -
  note rel = tree_nodes_rel[OF tree, of cont]
  have simple: "ds \<noteq> [] \<and> list_all simple_name ds" if "ds \<in> set (tree_rel f)" for ds
    using tree_rel_simple[OF tree that] .
  have dist: "distinct (map fst (tree_nodes cont f))"
    unfolding rel distinct_map
  proof
    show "inj_on (\<lambda>ds. abs_path (cs @ ds)) (set (tree_rel f))"
    proof (rule inj_onI)
      fix ds es
      assume "ds \<in> set (tree_rel f)" "es \<in> set (tree_rel f)" and eq: "abs_path (cs @ ds) = abs_path (cs @ es)"
      then have "list_all simple_name (cs @ ds)" "list_all simple_name (cs @ es)" using simple cs by auto
      from abs_path_inj[OF this] eq show "ds = es" by simp
    qed
  qed (rule tree_rel_distinct[OF tree])
  have nodes: "\<forall>q\<in>fst ` set (tree_nodes cont f). Clean q = q \<and> fs q = None"
  proof
    fix q assume "q \<in> fst ` set (tree_nodes cont f)"
    then have "q \<in> set (map (\<lambda>ds. abs_path (cs @ ds)) (tree_rel f))" by (simp flip: rel)
    then obtain ds where "ds \<in> set (tree_rel f)" "q = abs_path (cs @ ds)" by auto
    with simple[of ds] cs free[of ds] show "Clean q = q \<and> fs q = None" by simp
  qed
  have "closed_acts {abs_path cs} (tree_nodes cont f)" by (rule placed_closed[OF tree cs]) simp
  from closed_ready[OF this dist nodes] dir have "ready (tree_nodes cont f) fs" by simp
  from render_ready(1)[OF cont this] put_all_eq[OF dist] show ?thesis by simp
qed

section \<open>The tree of the tool\<close>

definition names_of :: "ZooFolder \<Rightarrow> string set" where
  "names_of f = zf_Name ` set (zd_files f) \<union> zd_Name ` set (zd_folders f)"

lemma AddFile_placed:
  assumes "placed cs f" "list_all simple_name cs" "simple_name n" "n \<notin> names_of f"
  shows "placed cs (AddFile n tmpl f)" "names_of (AddFile n tmpl f) = insert n (names_of f)"
    "zd_Name (AddFile n tmpl f) = zd_Name f"
  using assms by (cases f; auto simp: names_of_def)+

lemma AddFolder_placed:
  assumes f: "placed cs f" "list_all simple_name cs" "simple_name n" "n \<notin> names_of f"
    and g: "placed (cs @ [n]) (g (ZooFolder n (abs_path (cs @ [n])) [] []))"
      "zd_Name (g (ZooFolder n (abs_path (cs @ [n])) [] [])) = n"
  shows "placed cs (in_last g (AddFolder n f))" "names_of (in_last g (AddFolder n f)) = insert n (names_of f)"
    "zd_Name (in_last g (AddFolder n f)) = zd_Name f"
  using assms by (cases f; auto simp: names_of_def)+

lemma add_files_placed:
  assumes "placed cs f" "list_all simple_name cs"
    and "distinct (map (\<lambda>ff. Replace1 ff ''@@@@@'' name) (filter (\<lambda>ff. Replace1 ff ''@@@@@'' name \<noteq> '''') ffs))"
    and "\<forall>ff\<in>set ffs. Replace1 ff ''@@@@@'' name = '''' \<or>
      simple_name (Replace1 ff ''@@@@@'' name) \<and> Replace1 ff ''@@@@@'' name \<notin> names_of f"
  shows "placed cs (add_files name ffs f) \<and> zd_Name (add_files name ffs f) = zd_Name f"
  using assms
proof (induction ffs arbitrary: f)
  case (Cons ff ffs)
  let ?n = "Replace1 ff ''@@@@@'' name"
  show ?case
  proof (cases "?n = ''''")
    case True
    with Cons.prems Cons.IH[of f] show ?thesis by (simp add: add_files_def)
  next
    case False
    with Cons.prems have n: "simple_name ?n" "?n \<notin> names_of f" by auto
    note add = AddFile_placed[OF Cons.prems(1,2) n, of "ff @ ''.tpl''"]
    have "placed cs (add_files name ffs (AddFile ?n (ff @ ''.tpl'') f))
        \<and> zd_Name (add_files name ffs (AddFile ?n (ff @ ''.tpl'') f)) = zd_Name (AddFile ?n (ff @ ''.tpl'') f)"
    proof (rule Cons.IH[OF add(1) Cons.prems(2)])
      show "\<forall>ff'\<in>set ffs. Replace1 ff' ''@@@@@'' name = '''' \<or> simple_name (Replace1 ff' ''@@@@@'' name)
          \<and> Replace1 ff' ''@@@@@'' name \<notin> names_of (AddFile ?n (ff @ ''.tpl'') f)"
      proof
        fix ff' assume ff': "ff' \<in> set ffs"
        have "Replace1 ff' ''@@@@@'' name = '''' \<or> Replace1 ff' ''@@@@@'' name \<noteq> ?n"
          using Cons.prems(3) False ff' by (force simp: image_iff)
        with Cons.prems(4) ff' show "Replace1 ff' ''@@@@@'' name = '''' \<or> simple_name (Replace1 ff' ''@@@@@'' name)
            \<and> Replace1 ff' ''@@@@@'' name \<notin> names_of (AddFile ?n (ff @ ''.tpl'') f)"
          by (auto simp: add(2))
      qed
    qed (use Cons.prems(3) False in simp)
    with False add(3) show ?thesis by (simp add: add_files_def Let_def)
  qed
qed (simp add: add_files_def)

text \<open>After the substitution of the project's name, the files of an entry have names of their own.\<close>

definition files_ok :: "string \<Rightarrow> string list \<Rightarrow> bool" where
  "files_ok name ffs \<longleftrightarrow>
     distinct (map (\<lambda>ff. Replace1 ff ''@@@@@'' name) (filter (\<lambda>ff. Replace1 ff ''@@@@@'' name \<noteq> '''') ffs))
     \<and> (\<forall>ff\<in>set ffs. Replace1 ff ''@@@@@'' name = '''' \<or> simple_name (Replace1 ff ''@@@@@'' name))"

lemma add_folders_placed:
  assumes "placed cs f" "list_all simple_name cs" and "distinct (map (\<lambda>e. sub (fst e)) entries)"
    and "\<forall>e\<in>set entries. simple_name (sub (fst e)) \<and> sub (fst e) \<notin> names_of f
      \<and> files_ok name (snd e)"
  shows "placed cs (foldl (\<lambda>nd (k, v). in_last (add_files name v) (AddFolder (sub k) nd)) f entries)
    \<and> zd_Name (foldl (\<lambda>nd (k, v). in_last (add_files name v) (AddFolder (sub k) nd)) f entries) = zd_Name f"
  using assms
proof (induction entries arbitrary: f)
  case (Cons e entries)
  obtain k v where e: "e = (k, v)" by (cases e)
  let ?n = "sub k" and ?d = "ZooFolder (sub k) (abs_path (cs @ [sub k])) [] []"
  have n: "simple_name ?n" "?n \<notin> names_of f" using Cons.prems(4) by (simp_all add: e)
  have "placed (cs @ [?n]) (add_files name v ?d) \<and> zd_Name (add_files name v ?d) = zd_Name ?d"
    using Cons.prems(2,4) n(1) by (intro add_files_placed) (auto simp: e names_of_def files_ok_def)
  then have d: "placed (cs @ [?n]) (add_files name v ?d)" "zd_Name (add_files name v ?d) = ?n" by simp_all
  note add = AddFolder_placed[OF Cons.prems(1,2) n, of "add_files name v", OF d]
  have "placed cs (foldl (\<lambda>nd (k, v). in_last (add_files name v) (AddFolder (sub k) nd))
        (in_last (add_files name v) (AddFolder ?n f)) entries)
      \<and> zd_Name (foldl (\<lambda>nd (k, v). in_last (add_files name v) (AddFolder (sub k) nd))
        (in_last (add_files name v) (AddFolder ?n f)) entries) = zd_Name (in_last (add_files name v) (AddFolder ?n f))"
  proof (rule Cons.IH[OF add(1) Cons.prems(2)])
    show "distinct (map (\<lambda>e. sub (fst e)) entries)" using Cons.prems(3) by simp
    show "\<forall>e\<in>set entries. simple_name (sub (fst e)) \<and> sub (fst e) \<notin> names_of (in_last (add_files name v) (AddFolder ?n f))
      \<and> files_ok name (snd e)"
    proof
      fix e' assume e': "e' \<in> set entries"
      have "sub (fst e') \<noteq> ?n" using Cons.prems(3) e' by (force simp: e)
      with Cons.prems(4) e' show "simple_name (sub (fst e')) \<and> sub (fst e') \<notin> names_of (in_last (add_files name v) (AddFolder ?n f))
        \<and> files_ok name (snd e')"
        by (simp add: add(2))
    qed
  qed
  with add(3) show ?case by (simp add: e)
qed simp


text \<open>The names that the tool uses itself: a project of such a name would use one twice.\<close>

definition taken_names :: "string set" where
  "taken_names = {''admin'', ''conf'', ''version'', ''common'', ''subscribe'', ''manager''}"

lemma Replace1_at:
  "Replace1 ''@@@@@'' ''@@@@@'' name = name" "Replace1 ''@@@@@.go'' ''@@@@@'' name = name @ ''.go''"
  "Replace1 ''@@@@@.json'' ''@@@@@'' name = name @ ''.json''"
  by (simp_all add: HasPrefix_def)

lemma nodeFileList_ok:
  assumes "simple_name name" "name \<notin> taken_names"
  shows "distinct (map (\<lambda>e. Replace1 (fst e) ''@@@@@'' name) nodeFileList)"
    and "\<forall>e\<in>set nodeFileList. simple_name (Replace1 (fst e) ''@@@@@'' name) \<and> files_ok name (snd e)"
proof -
  have go: "simple_name (name @ ''.go'')" "name @ ''.go'' \<noteq> ''manager.go''"
    using assms by (auto simp: simple_name_def taken_names_def append_eq_Cons_conv)
  show "distinct (map (\<lambda>e. Replace1 (fst e) ''@@@@@'' name) nodeFileList)"
    using assms(2) by (auto simp: nodeFileList_def HasPrefix_def taken_names_def)
  show "\<forall>e\<in>set nodeFileList. simple_name (Replace1 (fst e) ''@@@@@'' name) \<and> files_ok name (snd e)"
    using assms(1) go by (simp add: nodeFileList_def HasPrefix_def files_ok_def) (simp add: simple_name_def)
qed

lemma distFileList_ok:
  assumes "simple_name name"
  shows "distinct (map fst distFileList)"
    and "\<forall>e\<in>set distFileList. simple_name (fst e) \<and> files_ok name (snd e)"
  using assms by (auto simp: distFileList_def HasPrefix_def files_ok_def simple_name_def)

lemma NewProject_placed:
  assumes cs: "list_all simple_name cs" and path: "ProjectPath env website name = abs_path cs"
    and name: "simple_name name" "name \<notin> taken_names"
    and order: "mset nodes = mset nodeFileList" "mset dists = mset distFileList"
  shows "placed cs (pj_Folder (NewProject env nodes dists website name))"
proof -
  let ?sub = "\<lambda>k. Replace1 k ''@@@@@'' name"
  note sets = mset_eq_setD[OF order(1)] mset_eq_setD[OF order(2)]
  have "mset (map (\<lambda>e. ?sub (fst e)) nodes) = mset (map (\<lambda>e. ?sub (fst e)) nodeFileList)"
    "mset (map (\<lambda>e. fst e) dists) = mset (map (\<lambda>e. fst e) distFileList)"
    unfolding mset_map order by (rule refl)+
  from this[THEN mset_eq_imp_distinct_iff]
  have dn: "distinct (map (\<lambda>e. ?sub (fst e)) nodes)" "distinct (map (\<lambda>e. fst e) dists)"
    using nodeFileList_ok(1)[OF name] distFileList_ok(1)[OF name(1)] by blast+
  define f0 where "f0 = AddFile ''.gitignore'' ''gitignore.tpl'' (AddFile ''Dockerfile'' ''Dockerfile.tpl''
    (AddFile ''Makefile'' ''Makefile.tpl'' (AddFile ''main.go'' ''main.go.tpl'' (ZooFolder name (abs_path cs) [] []))))"
  have f0: "placed cs f0" "''node'' \<notin> names_of f0" "''dist'' \<notin> names_of f0"
    using cs by (simp_all add: f0_def names_of_def simple_name_def)
  have node: "placed (cs @ [''node'']) (add_nodes name nodes (ZooFolder ''node'' (abs_path (cs @ [''node''])) [] []))
      \<and> zd_Name (add_nodes name nodes (ZooFolder ''node'' (abs_path (cs @ [''node''])) [] [])) = ''node''"
    unfolding add_nodes_def
    using add_folders_placed[where cs = "cs @ [''node'']" and f = "ZooFolder ''node'' (abs_path (cs @ [''node''])) [] []"
        and sub = ?sub and entries = nodes and name = name]
      cs dn(1) nodeFileList_ok(2)[OF name] sets(1) by (simp add: names_of_def simple_name_def)
  have dist: "placed (cs @ [''dist'']) (add_dists name dists (ZooFolder ''dist'' (abs_path (cs @ [''dist''])) [] []))
      \<and> zd_Name (add_dists name dists (ZooFolder ''dist'' (abs_path (cs @ [''dist''])) [] [])) = ''dist''"
    unfolding add_dists_def
    using add_folders_placed[where cs = "cs @ [''dist'']" and f = "ZooFolder ''dist'' (abs_path (cs @ [''dist''])) [] []"
        and sub = "\<lambda>k. k" and entries = dists and name = name]
      cs dn(2) distFileList_ok(2)[OF name(1)] sets(2) by (simp add: names_of_def simple_name_def)
  have simple: "simple_name ''node''" "simple_name ''dist''" by (simp_all add: simple_name_def)
  note f1 = AddFolder_placed[OF f0(1) cs simple(1) f0(2), of "add_nodes name nodes", OF node[THEN conjunct1] node[THEN conjunct2]]
  have "placed cs (in_last (add_dists name dists) (AddFolder ''dist'' (in_last (add_nodes name nodes) (AddFolder ''node'' f0))))"
    using f0(3) f1(2) dist by (intro AddFolder_placed(1)[OF f1(1) cs simple(2)]) simp_all
  then show ?thesis by (simp add: NewProject_def path f0_def Let_def)
qed


section \<open>Generating a project\<close>

lemma Join_append:
  "cs \<noteq> [] \<Longrightarrow> ds \<noteq> [] \<Longrightarrow> Join (cs @ ds) sep = Join cs sep @ sep # Join ds sep"
proof (induction cs)
  case (Cons c cs)
  then show ?case by (cases cs; cases ds) auto
qed simp

lemma abs_path_append:
  "cs \<noteq> [] \<Longrightarrow> ds \<noteq> [] \<Longrightarrow> abs_path (cs @ ds) = abs_path cs @ CHR ''/'' # Join ds (CHR ''/'')"
  by (simp add: abs_path_def build_path_def Join_append)

lemma ProjectPath_abs:
  assumes "env_GOPATH env = abs_path gs" "list_all simple_name gs"
    and "website = Join ws (CHR ''/'')" "ws \<noteq> []" "list_all simple_name ws" "simple_name name"
  shows "ProjectPath env website name = abs_path (gs @ [''src''] @ ws @ [name])"
proof -
  have "website \<noteq> ''''" using assms(3-5) by (cases ws; cases "tl ws") (auto simp: simple_name_def)
  moreover have src: "srcPath env = abs_path (gs @ [''src''])"
    using assms(1,2) by (simp add: srcPath_def simple_name_def)
  moreover have "abs_path (gs @ [''src'']) \<noteq> ''''" by (simp add: abs_path_def build_path_def)
  moreover have "Clean (abs_path (gs @ [''src'']) @ CHR ''/'' # Join (ws @ [name]) (CHR ''/''))
      = abs_path ((gs @ [''src'']) @ ws @ [name])"
    using assms(2,5,6) by (intro Clean_snoc) (auto simp: simple_name_def)
  ultimately show ?thesis using assms(3,4) by (simp add: ProjectPath_def filepath_Join_def Join_snoc)
qed

lemma mkdir_prefixes:
  assumes "list_all simple_name cs" "i \<le> length cs" "fs (abs_path (take i cs)) = Some Dir"
    and "\<forall>k. i < k \<and> k \<le> length cs \<longrightarrow> fs (abs_path (take k cs)) \<in> {None, Some Dir}"
  shows "snd (mkdir_each no_faults (map (\<lambda>k. abs_path (take k cs)) [Suc i..<length cs + 1]) fs) = None"
  using assms(2-)
proof (induction "length cs - i" arbitrary: i fs)
  case (Suc m)
  have i: "i < length cs" using Suc.hyps(2) by simp
  have range: "[Suc i..<length cs + 1] = Suc i # [Suc (Suc i)..<length cs + 1]"
    using i by (simp add: upt_conv_Cons)
  let ?q = "abs_path (take (Suc i) cs)"
  have simple: "list_all simple_name (take i cs)" "list_all simple_name (take (Suc i) cs)" "simple_name (cs ! i)"
    using assms(1) i by (simp_all add: list_all_take) (simp add: list_all_iff)
  have q: "Clean ?q = ?q" "filepath_Dir ?q = abs_path (take i cs)"
    using simple Dir_abs[OF simple(1,3)] i by (simp_all add: take_Suc_conv_app_nth)
  show ?case
  proof (cases "fs ?q")
    case None
    let ?fs = "fs(?q \<mapsto> Dir)"
    have "os_Mkdir no_faults ?q fs = (?fs, None)"
      using None q Suc.prems(2) by (simp add: os_Mkdir_def no_faults_def)
    moreover have "snd (mkdir_each no_faults (map (\<lambda>k. abs_path (take k cs)) [Suc (Suc i)..<length cs + 1]) ?fs) = None"
      using Suc.hyps(2) Suc.prems(3) i by (intro Suc.hyps(1)) auto
    ultimately show ?thesis using None unfolding range list.map mkdir_each.simps by simp
  next
    case (Some nd)
    with Suc.prems(3) i have "nd = Dir" by (metis Suc_leI lessI insertE option.distinct(1) option.inject singletonD)
    moreover have "snd (mkdir_each no_faults (map (\<lambda>k. abs_path (take k cs)) [Suc (Suc i)..<length cs + 1]) fs) = None"
      using Suc.hyps(2) Suc.prems(3) i Some calculation by (intro Suc.hyps(1)) auto
    ultimately show ?thesis using Some unfolding range list.map mkdir_each.simps by simp
  qed
qed simp

lemma MkdirAll_ok:
  assumes "list_all simple_name cs" "cs \<noteq> []" "fs ''/'' = Some Dir"
    and "\<forall>k\<le>length cs. fs (abs_path (take k cs)) \<in> {None, Some Dir}"
  shows "\<exists>fs'. os_MkdirAll no_faults (abs_path cs) fs = (fs', None) \<and> fs' (abs_path cs) = Some Dir \<and> adds_dirs fs fs'
    \<and> (\<forall>q. HasPrefix q (abs_path cs @ ''/'') \<longrightarrow> fs' q = fs q)"
proof -
  let ?ps = "map (\<lambda>k. abs_path (take k cs)) [1..<length cs + 1]"
  obtain fs' e where r: "os_MkdirAll no_faults (abs_path cs) fs = (fs', e)" by fastforce
  have m: "mkdir_each no_faults ?ps fs = (fs', e)"
    using r by (simp add: os_MkdirAll_def ancestors_abs[OF assms(1)])
  have "abs_path [] = ''/''" by (simp add: abs_path_def build_path_def)
  then have "e = None" using mkdir_prefixes[OF assms(1), of 0 fs] assms(3,4) m by simp
  moreover have "fs' (abs_path cs) = Some Dir"
    using mkdir_each_made[OF m[unfolded \<open>e = None\<close>]] assms(1,2) by (auto simp: image_iff Suc_le_eq)
  moreover have "fs' q = fs q" if "HasPrefix q (abs_path cs @ ''/'')" for q
  proof -
    have "q \<noteq> Clean (abs_path (take k cs))" for k
    proof
      assume "q = Clean (abs_path (take k cs))"
      then have "q = abs_path (take k cs)" using list_all_take[OF assms(1), of k] by simp
      moreover have "length (abs_path (take k cs)) \<le> length (abs_path cs)"
      proof (cases "take k cs = [] \<or> drop k cs = []")
        case True
        then show ?thesis by (auto simp: abs_path_def build_path_def)
      next
        case False
        then show ?thesis using abs_path_append[of "take k cs" "drop k cs"] by simp
      qed
      ultimately show False using that by (auto simp: HasPrefix_iff)
    qed
    then show ?thesis using mkdir_each_other[of q ?ps no_faults fs] m by auto
  qed
  ultimately show ?thesis using r os_MkdirAll_adds[of fs no_faults "abs_path cs"] by auto
qed

lemma RemoveAll_no_faults:
  "p \<noteq> '''' \<Longrightarrow> Clean p \<noteq> ''/''
   \<Longrightarrow> os_RemoveAll no_faults p fs q = (if q = Clean p \<or> HasPrefix q (Clean p @ ''/'') then None else fs q)"
  by (simp add: os_RemoveAll_def no_faults_def Let_def)

lemma below_prefix:
  "cs \<noteq> [] \<Longrightarrow> ds \<noteq> [] \<Longrightarrow> HasPrefix (abs_path (cs @ ds)) (abs_path cs @ ''/'')"
  by (auto simp: abs_path_append HasPrefix_iff)

lemma write_placed:
  assumes tree: "placed cs (pj_Folder p)" and cs: "list_all simple_name cs" "cs \<noteq> []"
    and p: "pj_ProjectDir p = abs_path cs" "pj_IsRemove p"
    and root: "fs ''/'' = Some Dir" "\<forall>k<length cs. fs (abs_path (take k cs)) \<in> {None, Some Dir}"
    and cont: "\<forall>v\<in>set (tree_files (pj_Folder p)). file_content (rd p) tp v = Some (cont v)"
  shows "\<exists>fs'. Project_Write rd no_faults tp p fs = (fs', None) \<and> fs' (abs_path cs) = Some Dir
    \<and> (\<forall>ds. ds \<noteq> [] \<and> list_all simple_name ds \<longrightarrow>
          fs' (abs_path (cs @ ds)) = map_of (tree_nodes cont (pj_Folder p)) (abs_path (cs @ ds)))
    \<and> (\<forall>q. \<not> HasPrefix q (abs_path cs) \<longrightarrow> fs' q = fs q \<or> fs q = None \<and> fs' q = Some Dir)"
proof -
  let ?fs0 = "os_RemoveAll no_faults (abs_path cs) fs" and ?T = "tree_nodes cont (pj_Folder p)"
  have len: "length (abs_path cs) > 1" using cs by (cases cs; cases "tl cs") (auto simp: abs_path_def build_path_def simple_name_def)
  then have "abs_path cs \<noteq> ''/''" by auto
  then have fs0: "?fs0 q = (if q = abs_path cs \<or> HasPrefix q (abs_path cs @ ''/'') then None else fs q)" for q
    using RemoveAll_no_faults[of "abs_path cs" fs q] cs(1) by simp
  from len have "length (abs_path cs) \<noteq> length ''/''" "\<And>r. length (abs_path cs @ ''/'' @ r) \<noteq> length ''/''" by auto
  then have "''/'' \<noteq> abs_path cs" "\<not> HasPrefix ''/'' (abs_path cs @ ''/'')"
    unfolding HasPrefix_iff append_assoc by metis+
  then have slash: "?fs0 ''/'' = Some Dir" using root(1) by (simp add: fs0)
  have "?fs0 (abs_path (take k cs)) \<in> {None, Some Dir}" if "k \<le> length cs" for k
    using root(2) that by (cases "k = length cs") (auto simp: fs0)
  then obtain fs1 where fs1: "os_MkdirAll no_faults (abs_path cs) ?fs0 = (fs1, None)" "fs1 (abs_path cs) = Some Dir"
    "adds_dirs ?fs0 fs1" "\<forall>q. HasPrefix q (abs_path cs @ ''/'') \<longrightarrow> fs1 q = ?fs0 q"
    using MkdirAll_ok[OF cs, of ?fs0] slash by blast
  have free: "fs1 (abs_path (cs @ ds)) = None" if "ds \<noteq> []" for ds
    using fs1(4) below_prefix[OF cs(2) that] by (simp add: fs0)
  have keys: "HasPrefix q (abs_path cs @ ''/'')" if q: "q \<in> dom (map_of ?T)" for q
  proof -
    from q have "q \<in> set (map fst ?T)" by (simp add: dom_map_of_conv_image_fst)
    then obtain ds where "ds \<in> set (tree_rel (pj_Folder p))" "q = abs_path (cs @ ds)"
      by (auto simp: tree_nodes_rel[OF tree])
    with tree_rel_simple[OF tree] below_prefix[OF cs(2)] show ?thesis by blast
  qed
  have self: "abs_path cs \<notin> dom (map_of ?T)" using keys[of "abs_path cs"] by (auto simp: HasPrefix_iff)
  let ?fs' = "fs1 ++ map_of ?T"
  have w: "Project_Write rd no_faults tp p fs = (?fs', None)"
    using render_placed[OF tree cs(1), where fs = fs1 and rd = "rd p" and tp = tp and cont = cont] free fs1(1,2) cont p
    by (simp add: Project_Write_def Let_def)
  moreover have "?fs' (abs_path cs) = Some Dir" using self fs1(2) by (auto simp: map_add_def split: option.splits)
  moreover have "?fs' (abs_path (cs @ ds)) = map_of ?T (abs_path (cs @ ds))" if "ds \<noteq> []" for ds
    using free[OF that] by (auto simp: map_add_def split: option.splits)
  moreover have "?fs' q = fs q \<or> fs q = None \<and> ?fs' q = Some Dir" if q: "\<not> HasPrefix q (abs_path cs)" for q
  proof -
    have "q \<notin> dom (map_of ?T)" using keys[of q] q by (auto simp: HasPrefix_iff)
    then have "?fs' q = fs1 q" by (auto simp: map_add_def split: option.splits)
    moreover have "?fs0 q = fs q" using q by (auto simp: fs0 HasPrefix_iff)
    moreover have "fs1 q = ?fs0 q \<or> ?fs0 q = None \<and> fs1 q = Some Dir"
      using fs1(3) unfolding adds_dirs_def by blast
    ultimately show ?thesis by presburger
  qed
  ultimately show ?thesis by (intro exI[of _ ?fs'] conjI allI impI) (simp_all only:, blast+)
qed


text \<open>C19: The generator. For a project name that is a plain file name and is not one of the names
  that the tool uses itself, and templates that can be processed, writing the project
  succeeds, whatever the order in which the file lists are visited: the project directory then
  contains exactly the files and folders of the tree, every file with the content of its
  template, and nothing of what was there before; outside of the directory at most missing
  parent directories are created.\<close>

theorem project_generated:
  assumes gopath: "env_GOPATH env = abs_path gs" "list_all simple_name gs"
    and website: "website = Join ws (CHR ''/'')" "ws \<noteq> []" "list_all simple_name ws"
    and name: "simple_name name" "name \<notin> taken_names"
    and order: "mset nodes = mset nodeFileList" "mset dists = mset distFileList"
    and cs: "cs = gs @ [''src''] @ ws @ [name]"
    and root: "fs ''/'' = Some Dir" "\<forall>k<length cs. fs (abs_path (take k cs)) \<in> {None, Some Dir}"
    and p: "p = NewProject env nodes dists website name"
    and cont: "\<forall>v\<in>set (tree_files (pj_Folder p)). file_content (rd p) tp v = Some (cont v)"
  shows "\<exists>fs'. Project_Write rd no_faults tp p fs = (fs', None) \<and> fs' (abs_path cs) = Some Dir
    \<and> (\<forall>ds. ds \<noteq> [] \<and> list_all simple_name ds \<longrightarrow>
          fs' (abs_path (cs @ ds)) = map_of (tree_nodes cont (pj_Folder p)) (abs_path (cs @ ds)))
    \<and> (\<forall>q. \<not> HasPrefix q (abs_path cs) \<longrightarrow> fs' q = fs q \<or> fs q = None \<and> fs' q = Some Dir)"
proof (rule write_placed[where p = p and cs = cs and fs = fs and cont = cont])
  have path: "ProjectPath env website name = abs_path cs"
    unfolding cs by (rule ProjectPath_abs[OF gopath website name(1)])
  show simple: "list_all simple_name cs" using gopath(2) website(3) name(1) by (simp add: cs simple_name_def)
  show "placed cs (pj_Folder p)" unfolding p by (rule NewProject_placed[OF simple path name order])
  show "cs \<noteq> []" by (simp add: cs)
  show "pj_ProjectDir p = abs_path cs" "pj_IsRemove p" by (simp_all add: p NewProject_def path Let_def)
qed (use root cont in auto)

definition copy_renderer :: "string renderer" where
  "copy_renderer = \<lparr>rd_parse = Inr, rd_execute = (\<lambda>t. (t, None)), rd_format = Inr\<rparr>"

lemma project_generated_witness:
  "\<exists>fs'. Project_Write (\<lambda>_. copy_renderer) no_faults ''/t''
      (NewProject \<lparr>env_Getwd = None, env_GOPATH = abs_path [''go'']\<rparr> nodeFileList distFileList ''airman.com'' ''demo'')
      (\<lambda>q. if q = ''/'' then Some Dir else None) = (fs', None)
    \<and> fs' (abs_path [''go'', ''src'', ''airman.com'', ''demo'']) = Some Dir"
proof -
  let ?env = "\<lparr>env_Getwd = None, env_GOPATH = abs_path [''go'']\<rparr>"
  let ?p = "NewProject ?env nodeFileList distFileList ''airman.com'' ''demo''"
  let ?fs = "\<lambda>q. if q = ''/'' then Some Dir else None"
  have root: "\<forall>k<length [''go'', ''src'', ''airman.com'', ''demo''].
      ?fs (abs_path (take k [''go'', ''src'', ''airman.com'', ''demo''])) \<in> {None, Some Dir}" by simp
  have cont: "file_content copy_renderer tp v = Some (filepath_Join [tp, zf_Template v])" for tp v
    by (simp add: file_content_def copy_renderer_def)
  show ?thesis
    using project_generated[where env = ?env and gs = "[''go'']" and ws = "[''airman.com'']" and website = "''airman.com''"
        and name = "''demo''" and nodes = nodeFileList and dists = distFileList
        and cs = "[''go'', ''src'', ''airman.com'', ''demo'']" and fs = ?fs and p = ?p
        and rd = "\<lambda>_. copy_renderer" and tp = "''/t''" and cont = "\<lambda>v. filepath_Join [''/t'', zf_Template v]", OF _ _ _ _ _ _ _ _ _ _ _ root]
    by (auto simp: simple_name_def taken_names_def cont)
qed


section \<open>Names that are taken\<close>

lemma Mkdir_keeps: "fs q = Some Dir \<Longrightarrow> fst (os_Mkdir fault p fs) q = Some Dir"
  by (auto simp: os_Mkdir_def Let_def split: option.splits)

lemma render_file_keeps: "fs q = Some Dir \<Longrightarrow> fst (render_file rd fault tp v fs) q = Some Dir"
  by (auto simp: render_file_def os_Create_def file_Write_def Let_def
      split: sum.splits option.splits prod.splits if_splits)

lemma render_files_keeps: "fs q = Some Dir \<Longrightarrow> fst (render_files rd fault tp vs fs) q = Some Dir"
proof (induction vs arbitrary: fs)
  case (Cons v vs)
  from render_file_keeps[of fs q rd fault tp v, OF Cons.prems] Cons.IH show ?case
    by (auto split: prod.splits option.splits)
qed simp

lemma render_keeps:
  "fs q = Some Dir \<Longrightarrow> fst (render rd fault tp f fs) q = Some Dir"
  "fs q = Some Dir \<Longrightarrow> fst (render_folders rd fault tp fds fs) q = Some Dir"
proof (induction rd fault tp f fs and rd fault tp fds fs rule: render_render_folders.induct)
  case (1 rd fault tp fn fp files folders fs)
  from render_files_keeps[of fs q rd fault tp files, OF 1(2)] 1(1) show ?case
    by (auto split: prod.splits option.splits)
next
  case (3 rd fault tp v vs fs)
  from Mkdir_keeps[of fs q fault "zd_AbsPath v", OF 3(3)] 3(1,2) show ?case
    by (auto split: prod.splits option.splits)
qed simp

lemma Mkdir_existing: "fs (Clean p) = Some Dir \<Longrightarrow> snd (os_Mkdir fault p fs) \<noteq> None"
  by (auto simp: os_Mkdir_def Let_def split: option.splits)

lemma folder_exists:
  "fs (Clean (zd_AbsPath d)) = Some Dir \<Longrightarrow> d \<in> set fds \<Longrightarrow> snd (render_folders rd fault tp fds fs) \<noteq> None"
proof (induction fds arbitrary: fs)
  case (Cons v vs)
  obtain fs1 e1 where m: "os_Mkdir fault (zd_AbsPath v) fs = (fs1, e1)" by fastforce
  obtain fs2 e2 where r: "render rd fault tp v fs1 = (fs2, e2)" by fastforce
  show ?case
  proof (cases "v = d")
    case True
    with Mkdir_existing[of fs "zd_AbsPath d" fault] Cons.prems(1) m show ?thesis by (auto split: option.splits)
  next
    case False
    have "fs1 (Clean (zd_AbsPath d)) = Some Dir"
      using Mkdir_keeps[of fs "Clean (zd_AbsPath d)" fault "zd_AbsPath v"] Cons.prems(1) m by simp
    then have "fs2 (Clean (zd_AbsPath d)) = Some Dir" using render_keeps(1) r by (metis fst_conv)
    with Cons False m r show ?thesis by (auto split: option.splits)
  qed
qed simp

lemma folder_twice:
  "render_folders rd fault tp fds fs = (fs', None) \<Longrightarrow> distinct (map (\<lambda>d. Clean (zd_AbsPath d)) fds)"
proof (induction fds arbitrary: fs)
  case (Cons v vs)
  then obtain fs1 fs2 where m: "os_Mkdir fault (zd_AbsPath v) fs = (fs1, None)"
    and r: "render rd fault tp v fs1 = (fs2, None)" and rest: "render_folders rd fault tp vs fs2 = (fs', None)"
    by (auto split: prod.splits option.splits)
  have "fs1 (Clean (zd_AbsPath v)) = Some Dir"
    using m by (auto simp: os_Mkdir_def Let_def split: option.splits if_splits)
  then have "fs2 (Clean (zd_AbsPath v)) = Some Dir" using render_keeps(1) r by (metis fst_conv)
  with folder_exists[of fs2 _ vs rd fault tp] rest
  have "Clean (zd_AbsPath v) \<notin> (\<lambda>d. Clean (zd_AbsPath d)) ` set vs" by (metis (no_types, lifting) imageE snd_conv)
  with Cons.IH[OF rest] show ?case by simp
qed simp

lemma add_files_path: "zd_AbsPath (add_files name ffs f) = zd_AbsPath f"
proof -
  have "zd_AbsPath (AddFile a b g) = zd_AbsPath g" for a b g by (cases g) simp
  then show ?thesis unfolding add_files_def by (induction ffs arbitrary: f) (auto simp: Let_def)
qed

lemma add_nodes_paths:
  "zd_AbsPath (add_nodes name entries f) = zd_AbsPath f
   \<and> map zd_AbsPath (zd_folders (add_nodes name entries f)) = map zd_AbsPath (zd_folders f)
     @ map (\<lambda>e. filepath_Join [zd_AbsPath f, Replace1 (fst e) ''@@@@@'' name]) entries"
proof (induction entries arbitrary: f)
  case (Cons e entries)
  obtain k v where e: "e = (k, v)" by (cases e)
  let ?g = "in_last (add_files name v) (AddFolder (Replace1 k ''@@@@@'' name) f)"
  have "zd_AbsPath ?g = zd_AbsPath f \<and> map zd_AbsPath (zd_folders ?g)
      = map zd_AbsPath (zd_folders f) @ [filepath_Join [zd_AbsPath f, Replace1 k ''@@@@@'' name]]"
    by (cases f) (simp add: add_files_path)
  moreover have "add_nodes name (e # entries) f = add_nodes name entries ?g" by (simp add: e add_nodes_def)
  ultimately show ?case using Cons.IH[of ?g] by (simp add: e)
qed (simp add: add_nodes_def)

lemma distinct_mapD: "distinct (map f xs) \<Longrightarrow> distinct xs"
  by (simp add: distinct_map)

text \<open>A project whose name is that of one of the fixed folders is never completed: the folder
  would be created a second time, and the error is returned.\<close>

lemma taken_name_fails:
  assumes "name \<in> {''admin'', ''conf'', ''version'', ''common'', ''subscribe''}"
    and "mset nodes = mset nodeFileList"
  shows "snd (Project_Write rd fault tp (NewProject env nodes dists website name) fs) \<noteq> None"
proof
  let ?p = "NewProject env nodes dists website name"
  assume ok: "snd (Project_Write rd fault tp ?p fs) = None"
  obtain fn fp files d where tree: "pj_Folder ?p = ZooFolder fn fp files
      [add_nodes name nodes (ZooFolder ''node'' (filepath_Join [fp, ''node'']) [] []), d]"
    by (simp add: NewProject_def Let_def)
  let ?node = "add_nodes name nodes (ZooFolder ''node'' (filepath_Join [fp, ''node'']) [] [])"
  obtain fs1 where "snd (render (rd ?p) fault tp (pj_Folder ?p) fs1) = None"
    using ok by (auto simp: Project_Write_def Let_def split: prod.splits option.splits)
  then obtain fs2 fs3 where "render (rd ?p) fault tp ?node fs2 = (fs3, None)"
    by (auto simp: tree split: prod.splits option.splits)
  then obtain fs4 where "render_folders (rd ?p) fault tp (zd_folders ?node) fs4 = (fs3, None)"
    by (cases ?node) (auto split: prod.splits option.splits)
  from folder_twice[OF this] have "distinct (map Clean (map zd_AbsPath (zd_folders ?node)))" by (simp add: comp_def)
  then have "distinct (map zd_AbsPath (zd_folders ?node))" by (rule distinct_mapD)
  then have "distinct (map (\<lambda>k. filepath_Join [filepath_Join [fp, ''node''], k])
      (map (\<lambda>e. Replace1 (fst e) ''@@@@@'' name) nodes))"
    using add_nodes_paths[of name nodes "ZooFolder ''node'' (filepath_Join [fp, ''node'']) [] []"]
    by (simp add: comp_def)
  then have "distinct (map (\<lambda>e. Replace1 (fst e) ''@@@@@'' name) nodes)" by (rule distinct_mapD)
  moreover have "mset (map (\<lambda>e. Replace1 (fst e) ''@@@@@'' name) nodes)
      = mset (map (\<lambda>e. Replace1 (fst e) ''@@@@@'' name) nodeFileList)"
    unfolding mset_map assms(2) by (rule refl)
  ultimately have "distinct (map (\<lambda>e. Replace1 (fst e) ''@@@@@'' name) nodeFileList)"
    using mset_eq_imp_distinct_iff by blast
  then show False using assms(1) by (auto simp: nodeFileList_def HasPrefix_def)
qed

text \<open>The check for Go files looks at the whole path: below a directory whose path contains
  \<open>.go\<close>, every file is taken for one.\<close>

lemma dot_go_in_path:
  assumes "placed cs f" "cs \<noteq> []" "Contains (abs_path cs) ''.go''" "v \<in> set (tree_files f)"
  shows "Contains (zf_AbsPath v) ''.go''"
proof -
  have "\<exists>ds. ds \<noteq> [] \<and> zf_AbsPath v = abs_path (cs @ ds)" if "placed cs f" "v \<in> set (tree_files f)" for cs
    using that
  proof (induction f arbitrary: cs)
    case (ZooFolder fn fp files folders)
    show ?case
    proof (cases "v \<in> set files")
      case False
      with ZooFolder.prems obtain d where d: "d \<in> set folders" "v \<in> set (tree_files d)" by auto
      with ZooFolder.prems ZooFolder.IH[of d "cs @ [zd_Name d]"] show ?thesis by auto
    qed (use ZooFolder.prems in auto)
  qed
  from this[OF assms(1,4)] assms(2,3) show ?thesis by (auto simp: abs_path_append Contains_append)
qed


section \<open>The tool\<close>

definition gitList :: "string list" where
  "gitList = [''airman.com/airfk'']"

definition templatePath :: "process_env \<Rightarrow> string" where
  "templatePath env = filepath_Join [ProjectPath env ''airman.com'' ''airfk'', ''template'']"

record tool_flags =
  fl_webName :: string
  fl_projectName :: string
  fl_template :: string
  fl_isVersion :: bool

definition default_flags :: "process_env \<Rightarrow> tool_flags" where
  "default_flags env =
     \<lparr>fl_webName = ''airman.com'', fl_projectName = ''website'', fl_template = templatePath env, fl_isVersion = False\<rparr>"

definition mod_cmd :: "Project \<Rightarrow> string" where
  "mod_cmd p = ''cd '' @ pj_ProjectDir p
     @ ''; go mod init ; go mod edit -require=airman.com/airfk@v0.0.0 ; go mod edit -replace=airman.com/airfk@v0.0.0=$GOPATH/src/airman.com/airfk ; go mod tidy && make''"

definition err_lines :: "string option \<Rightarrow> string list" where
  "err_lines err = (case err of Some e \<Rightarrow> [e] | None \<Rightarrow> [])"

text \<open>The outcome: the file system, the exit status, and what is printed.\<close>

definition tool_main ::
  "process_env \<Rightarrow> (Project \<Rightarrow> 't renderer) \<Rightarrow> faults \<Rightarrow> runner \<Rightarrow> string \<Rightarrow> go_time
   \<Rightarrow> (string \<times> string list) list \<Rightarrow> (string \<times> string list) list \<Rightarrow> tool_flags \<Rightarrow> fs \<Rightarrow> fs \<times> nat \<times> string list" where
  "tool_main env rd fault run runtime now nodes dists flags fs =
     (if fl_isVersion flags then (fs, 0, [Version_String (NewVersion runtime now ''1.0.1'')])
      else
       (let name = fl_projectName flags;
            project = NewProject env nodes dists (fl_webName flags) name;
            (fs1, err1) = Project_Write rd fault (fl_template flags) project fs;
            (fs2, err2, printed) = Clone env fault run gitList fs1;
            out = [''project information: '' @ fl_webName flags @ '' '' @ name] @ err_lines err1
              @ [''>>create '' @ name @ '' step1: file create ok''] @ printed @ err_lines err2
              @ [''>>create '' @ name @ '' step2: pkg [airman.com/airfk] is ok'']
        in case run [''/bin/sh'', ''-c'', mod_cmd project] fs2 of
             (fs3, res, Some err) \<Rightarrow> (fs3, 1, out @ [''exec mod cmd error, '' @ mod_cmd project @ '':'' @ err])
           | (fs3, res, None) \<Rightarrow> (fs3, 0, out @ [res, ''Now get your project! ''])))"

text \<open>The tool goes on after an error of the generation: the step is reported as done all the same,
  and only the last command decides about the exit status.\<close>

lemma tool_reports_ok_on_failure:
  assumes "\<not> fl_isVersion flags"
    and "fl_projectName flags \<in> {''admin'', ''conf'', ''version'', ''common'', ''subscribe''}"
    and "mset nodes = mset nodeFileList" and "\<forall>argv fs. snd (snd (run argv fs)) = None"
  shows "\<exists>fs' out. tool_main env rd fault run runtime now nodes dists flags fs = (fs', 0, out)
    \<and> ''>>create '' @ fl_projectName flags @ '' step1: file create ok'' \<in> set out
    \<and> snd (Project_Write rd fault (fl_template flags)
         (NewProject env nodes dists (fl_webName flags) (fl_projectName flags)) fs) \<noteq> None"
proof -
  let ?p = "NewProject env nodes dists (fl_webName flags) (fl_projectName flags)"
  obtain fs1 err1 where w: "Project_Write rd fault (fl_template flags) ?p fs = (fs1, err1)" by fastforce
  obtain fs2 err2 pr where c: "Clone env fault run gitList fs1 = (fs2, err2, pr)" by (cases "Clone env fault run gitList fs1")
  obtain fs3 res where "run [''/bin/sh'', ''-c'', mod_cmd ?p] fs2 = (fs3, res, None)"
    using assms(4) by (metis prod.collapse)
  with assms(1) w c have "\<exists>fs' out. tool_main env rd fault run runtime now nodes dists flags fs = (fs', 0, out)
    \<and> ''>>create '' @ fl_projectName flags @ '' step1: file create ok'' \<in> set out"
    by (simp add: tool_main_def Let_def)
  with taken_name_fails[OF assms(2,3)] show ?thesis by blast
qed

end
