(* ===== verification/Spec2Isabelle.thy ===== *)
theory Spec2Isabelle
  imports Byte_Utils Int_Math Rpc_Events Event_Scope Service_Registry Service_Context Level_DB Exec_Cmd Rand_Source Net_Utils Project_Tool
begin

text \<open>
  A verification library of airfk, a framework for micro-services in Go.

  \<^bold>\<open>The program.\<close> A service is a Go value whose methods are offered over JSON-RPC. The server
  (src/pkg/server) inspects the methods of a receiver by reflection and registers the suitable ones; it
  reads requests through a codec (src/pkg/codec), resolves them to methods, decodes the arguments, calls
  the methods and writes the responses; methods that create subscriptions get a notifier, which sends
  events to the client. HTTP requests are served one by one, websocket connections with a goroutine for
  each message. Feeds (src/pkg/event) distribute values to channels inside of a process. The registry
  (src/pkg/registry) announces services in etcd or consul. The remaining packages are helpers: numbers
  and hex texts (src/pkg/common, src/pkg/types), files, processes, a database wrapper, and the tool that
  generates a new project from templates (src/pkg/zoo, src/cmd/tool).

  \<^bold>\<open>Theories and sources.\<close>
  \<^item> \<open>Prelude\<close>: machine words, positional numerals, and two interfaces as locales, \<open>text_codec\<close> (a printer
    with its parser) and \<open>transition_system\<close> (steps with an invariant).
  \<^item> \<open>Go_Std\<close>, \<open>Go_Json\<close>, \<open>Go_Reflect\<close>, \<open>Go_Path\<close>: what the program uses of the standard library (strings,
    hex, strconv, math/big, encoding/json, reflect, path/filepath).
  \<^item> \<open>Hexutil\<close>: common/hexutil; \<open>Byte_Utils\<close>: common/bytes.go; \<open>Int_Math\<close>: common/math; \<open>Rpc_Types\<close>:
    types/error.go and types.go; \<open>Version_Info\<close>: types/version.go.
  \<^item> \<open>Json_Codec\<close>: codec/jsonc.go with the interface of interfaces.go as locale \<open>server_codec\<close>.
  \<^item> \<open>Rpc_Service\<close>: server/utils.go and the registration of server.go; \<open>Rpc_Notifier\<close>:
    server/subscription.go; \<open>Rpc_Server\<close>: reading, handling and executing requests; \<open>Rpc_Serving\<close>: the loop
    that serves a connection, single shots and \<open>Stop\<close>; \<open>Rpc_Endpoint\<close>: http.go, websocket.go, endpoint.go;
    \<open>Rpc_Call\<close>: the composition of all of them for one call; \<open>Rpc_Events\<close>: the order of the messages on a
    connection, and a subscription from its request to its end.
  \<^item> \<open>Event_Feed\<close>, \<open>Event_Scope\<close>: event/feed.go and subscription.go.
  \<^item> \<open>Service_Registry\<close>: registry; \<open>Service_Context\<close>: service/service_context.go; \<open>Level_DB\<close>:
    leveldb/database.go; \<open>Exec_Cmd\<close>: common/cmd; \<open>Rand_Source\<close>: common/rand.go; \<open>Net_Utils\<close>: common/net.go;
    \<open>File_Utils\<close>: common/files.go; \<open>Project_Tool\<close>: zoo/file.go, zoo/project.go, cmd/tool/tool.go.

  \<^bold>\<open>State and operations.\<close> Structures are records, operations are functions that take and return the
  state; names are those of the source, with a prefix where two packages share one. A panic is the
  result \<open>None\<close> (or the constructor \<open>Panics\<close> of a feed), an error is a value. Concurrency is explicit:
  serving a connection (\<open>serve_step\<close>), the operations of a notifier (\<open>notifier_step\<close>) and of a codec
  (\<open>codec_step\<close>), and waiting for a process (\<open>wait_step\<close>) are step relations whose steps interleave; the
  select of a feed takes its choices as an argument. Objects that are shared through pointers, as the
  subscriptions of a notifier are, live in an explicit store.

  \<^bold>\<open>What is shown.\<close> For the server: every request that is read is answered exactly once, serving ends, a
  client is notified only after it was told the ID of the subscription, no message of a client causes a
  panic, a call over HTTP is answered with what its method returns, and a subscription delivers exactly the
  values notified between its request and its end. For registration: exactly the methods
  that meet the documented criteria are offered, and endpoints offer exactly the whitelisted services.
  For the notifier and the feed: they implement a contract of active and pending subscriptions, and a
  bag of channels; a \<open>Send\<close> delivers to every subscriber. For the codec: batches are parsed like single
  messages, arguments are accepted exactly when they fit. For the numeric helpers: they agree with the
  reference definitions (positional numerals, powers, two's complement), with their bounds, and printing
  and parsing are inverse. For the rest: registries return exactly the wanted nodes; files are
  written atomically; batches of the database are the sequence of their writes; a generated project
  consists of exactly the files of its tree.

  \<^bold>\<open>Interfaces.\<close> Every locale is interpreted on definitions of the model: \<open>text_codec\<close> and \<open>json_text_codec\<close>
  on the marshallers, \<open>transition_system\<close> on codec, notifier and process, \<open>server_codec\<close> on the JSON codec,
  \<open>serving\<close> on scripted services, \<open>subscriber_bag\<close> on the feed, \<open>subscription\<close> on the subscriptions of a
  scope, \<open>service_collector\<close> on the look-ups of etcd and consul.

  \<^bold>\<open>Bounds.\<close> Integers have the widths of a 64-bit target. Identifiers and texts are byte strings; upper
  and lower case are those of ASCII. Loops of the source are recursive functions with termination
  proofs. The one bounded loop is that of \<open>Send\<close>: it is run for a given number of rounds, and
  twice the number of subscribers are enough, which is part of the property.

  \<^bold>\<open>Parameters.\<close> Code outside of the repository is an argument: decoding a JSON value into a type of a
  service, the methods of services, the parser of media types, the clients of etcd and consul, the
  database engine, the template engine, random generators, the operating system (files with injected
  faults, processes, addresses). What the properties rely on is stated in their hypotheses
  (\<open>uses_notifier\<close>, \<open>call_total\<close>, \<open>plain_method\<close>, \<open>engine_ok\<close>), each with a concrete instance.

  \<^bold>\<open>Not modelled.\<close> The byte level of transports (listeners, websocket frames, HTTP headers, the effect of
  timeouts and of the CORS filter), logging, and \<open>Hash.Format\<close>: these only pass values to
  libraries. The templates of a generated project are data of the generator.
\<close>

end
